(* ===== verification/Konfig_Prelude.thy ===== *)
theory Konfig_Prelude
  imports "HOL-Library.Word" "HOL-Library.AList" "HOL-Library.Char_ord" "HOL-Library.List_Lexorder"
    "HOL-Library.Product_Lexorder"
begin

text \<open>
  Shared vocabulary of the development: Rust's machine integers as words, the part of Rust's
  \<open>str\<close> interface the sources use (on UTF-8 byte strings), hash maps as association lists
  whose order is the unspecified iteration order, gRPC status values, and the generic lemmas on
  these that the component theories rest on.
\<close>

section \<open>Theorem collections\<close>

named_theorems hm_simps \<open>lookups and key sets of hash-map operations\<close>
named_theorems str_simps \<open>string primitives on concrete strings\<close>

section \<open>Machine integers\<close>

type_synonym u16 = "16 word"
type_synonym u32 = "32 word"
type_synonym u64 = "64 word"
type_synonym usize = "64 word"
type_synonym instant = nat  \<comment> \<open>nanoseconds of a monotonic clock\<close>

definition saturating_add :: "'a::len word \<Rightarrow> 'a word \<Rightarrow> 'a word" where
  "saturating_add a b = (if unat a + unat b < 2 ^ LENGTH('a) then a + b else - 1)"

definition saturating_sub :: "'a::len word \<Rightarrow> 'a word \<Rightarrow> 'a word" where
  "saturating_sub a b = (if b \<le> a then a - b else 0)"

lemma unat_minus_one_word: "unat (- 1 :: 'a::len word) = 2 ^ LENGTH('a) - 1"
  by (simp add: unsigned_minus_1_eq_mask mask_eq_exp_minus_1)

lemma unat_saturating_add:
  "unat (saturating_add a b) = min (unat a + unat b) (2 ^ LENGTH('a) - 1)"
  for a b :: "'a::len word"
proof (cases "unat a + unat b < 2 ^ LENGTH('a)")
  case True
  then show ?thesis
    by (simp add: saturating_add_def unat_word_ariths)
next
  case False
  then show ?thesis
    by (simp add: saturating_add_def unat_minus_one_word)
qed

lemma unat_saturating_sub: "unat (saturating_sub a b) = unat a - unat b"
  by (auto simp: saturating_sub_def unat_sub word_le_nat_alt)

lemma unat_Suc_word: "unat a + 1 < 2 ^ LENGTH('a) \<Longrightarrow> unat (a + 1) = unat a + 1"
  for a :: "'a::len word"
  by (simp add: unat_word_ariths)

section \<open>Decimal integers as strings\<close>

definition is_digit :: "char \<Rightarrow> bool" where
  "is_digit c \<longleftrightarrow> 48 \<le> (of_char c :: nat) \<and> (of_char c :: nat) \<le> 57"

definition digit_val :: "char \<Rightarrow> nat" where
  "digit_val c = of_char c - 48"

definition digit_char :: "nat \<Rightarrow> char" where
  "digit_char n = char_of (48 + n)"

definition digits_val :: "string \<Rightarrow> nat" where
  "digits_val s = foldl (\<lambda>a c. 10 * a + digit_val c) 0 s"

text \<open>\<open>str::parse\<close> for an unsigned integer of \<open>w\<close> bits: one optional leading \<open>+\<close>, then at
  least one digit, and no overflow.\<close>

definition parse_uint :: "nat \<Rightarrow> string \<Rightarrow> nat option" where
  "parse_uint w s =
     (let ds = (case s of [] \<Rightarrow> [] | c # r \<Rightarrow> if c = CHR ''+'' then r else s)
      in if ds = [] \<or> \<not> list_all is_digit ds then None
         else if digits_val ds < 2 ^ w then Some (digits_val ds) else None)"

definition parse_u32 :: "string \<Rightarrow> u32 option" where
  "parse_u32 s = map_option of_nat (parse_uint 32 s)"

definition parse_u64 :: "string \<Rightarrow> u64 option" where
  "parse_u64 s = map_option of_nat (parse_uint 64 s)"

text \<open>\<open>to_string\<close> of an unsigned integer.\<close>

fun show_nat :: "nat \<Rightarrow> string" where
  "show_nat n = (if n < 10 then [digit_char n] else show_nat (n div 10) @ [digit_char (n mod 10)])"

declare show_nat.simps [simp del]

text \<open>\<open>{:x}\<close> of an unsigned integer.\<close>

fun show_hex :: "nat \<Rightarrow> string" where
  "show_hex n = (let d = (\<lambda>m. if m < 10 then digit_char m else char_of (87 + m))
                 in if n < 16 then [d n] else show_hex (n div 16) @ [d (n mod 16)])"

declare show_hex.simps [simp del]

lemma of_char_digit_char: "n < 10 \<Longrightarrow> (of_char (digit_char n) :: nat) = 48 + n"
  by (simp add: digit_char_def of_char_of)

lemma is_digit_digit_char: "n < 10 \<Longrightarrow> is_digit (digit_char n)"
  by (simp add: is_digit_def of_char_digit_char)

lemma digit_val_digit_char: "n < 10 \<Longrightarrow> digit_val (digit_char n) = n"
  by (simp add: digit_val_def of_char_digit_char)

lemma digits_val_snoc: "digits_val (s @ [c]) = 10 * digits_val s + digit_val c"
  by (simp add: digits_val_def)

lemma show_nat_digits: "list_all is_digit (show_nat n) \<and> digits_val (show_nat n) = n \<and> show_nat n \<noteq> []"
proof (induction n rule: show_nat.induct)
  case (1 n)
  show ?case
  proof (cases "n < 10")
    case True
    then show ?thesis
      by (subst (1 2 3) show_nat.simps)
        (simp add: is_digit_digit_char digits_val_def digit_val_digit_char)
  next
    case False
    with 1 show ?thesis
      by (subst (1 2 3) show_nat.simps)
        (simp add: is_digit_digit_char digits_val_snoc digit_val_digit_char)
  qed
qed

lemma parse_uint_show_nat:
  assumes "n < 2 ^ w"
  shows "parse_uint w (show_nat n) = Some n"
proof -
  obtain c r where cr: "show_nat n = c # r"
    using show_nat_digits [of n] by (cases "show_nat n") auto
  have "is_digit c"
    using show_nat_digits [of n] cr by simp
  then have "c \<noteq> CHR ''+''"
    by (auto simp: is_digit_def)
  with cr assms show ?thesis
    using show_nat_digits [of n] by (simp add: parse_uint_def)
qed

lemma parse_u32_show: "parse_u32 (show_nat (unat v)) = Some v"
  using unsigned_less [of v, where 'a = nat] by (simp add: parse_u32_def parse_uint_show_nat)

lemma parse_u64_show: "parse_u64 (show_nat (unat v)) = Some v"
  using unsigned_less [of v, where 'a = nat] by (simp add: parse_u64_def parse_uint_show_nat)

section \<open>Strings\<close>

text \<open>
  A Rust \<open>String\<close> is a UTF-8 byte sequence; a \<open>string\<close> is its list of bytes. White space is
  Unicode's \<open>White_Space\<close>, recognised here by the byte sequences that encode it.
\<close>

abbreviation byte :: "char \<Rightarrow> nat" where
  "byte c \<equiv> of_char c"

definition ws1 :: "char \<Rightarrow> bool" where
  "ws1 a \<longleftrightarrow> (9 \<le> byte a \<and> byte a \<le> 13) \<or> byte a = 32"

definition ws2 :: "char \<Rightarrow> char \<Rightarrow> bool" where
  "ws2 a b \<longleftrightarrow> byte a = 194 \<and> (byte b = 133 \<or> byte b = 160)"

definition ws3 :: "char \<Rightarrow> char \<Rightarrow> char \<Rightarrow> bool" where
  "ws3 a b c \<longleftrightarrow>
     (byte a = 225 \<and> byte b = 154 \<and> byte c = 128) \<or>
     (byte a = 226 \<and> byte b = 128 \<and>
        ((128 \<le> byte c \<and> byte c \<le> 138) \<or> byte c = 168 \<or> byte c = 169 \<or> byte c = 175)) \<or>
     (byte a = 226 \<and> byte b = 129 \<and> byte c = 159) \<or>
     (byte a = 227 \<and> byte b = 128 \<and> byte c = 128)"

text \<open>Bytes of the white-space character a string starts with (0: none), and the same for a
  reversed string.\<close>

definition ws_len :: "string \<Rightarrow> nat" where
  "ws_len s = (case s of [] \<Rightarrow> 0 | a # r \<Rightarrow> if ws1 a then 1 else
     (case r of [] \<Rightarrow> 0 | b # r' \<Rightarrow> if ws2 a b then 2 else
       (case r' of [] \<Rightarrow> 0 | c # _ \<Rightarrow> if ws3 a b c then 3 else 0)))"

definition ws_len_rev :: "string \<Rightarrow> nat" where
  "ws_len_rev s = (case s of [] \<Rightarrow> 0 | a # r \<Rightarrow> if ws1 a then 1 else
     (case r of [] \<Rightarrow> 0 | b # r' \<Rightarrow> if ws2 b a then 2 else
       (case r' of [] \<Rightarrow> 0 | c # _ \<Rightarrow> if ws3 c b a then 3 else 0)))"

function strip_by :: "(string \<Rightarrow> nat) \<Rightarrow> string \<Rightarrow> string" where
  "strip_by f s = (if s = [] \<or> f s = 0 then s else strip_by f (drop (f s) s))"
  by pat_completeness auto
termination
  by (relation "measure (\<lambda>(f, s). length s)") auto

declare strip_by.simps [simp del]

definition trim_start :: "string \<Rightarrow> string" where
  "trim_start s = strip_by ws_len s"

definition trim_end :: "string \<Rightarrow> string" where
  "trim_end s = rev (strip_by ws_len_rev (rev s))"

definition trim :: "string \<Rightarrow> string" where
  "trim s = trim_end (trim_start s)"

definition to_ascii_lowercase :: "string \<Rightarrow> string" where
  "to_ascii_lowercase s =
     map (\<lambda>c. if 65 \<le> byte c \<and> byte c \<le> 90 then char_of (byte c + 32) else c) s"

text \<open>\<open>split_once\<close> on a one-byte pattern: the text before and after its first occurrence.\<close>

fun split_once :: "char \<Rightarrow> string \<Rightarrow> (string \<times> string) option" where
  "split_once c [] = None"
| "split_once c (x # xs) =
     (if x = c then Some ([], xs)
      else map_option (\<lambda>(a, b). (x # a, b)) (split_once c xs))"

text \<open>\<open>split_once\<close> on a two-byte pattern.\<close>

fun split_once2 :: "char \<Rightarrow> char \<Rightarrow> string \<Rightarrow> (string \<times> string) option" where
  "split_once2 c d (x # y # xs) =
     (if x = c \<and> y = d then Some ([], xs)
      else map_option (\<lambda>(a, b). (x # a, b)) (split_once2 c d (y # xs)))"
| "split_once2 c d _ = None"

text \<open>\<open>split\<close> on a one-byte pattern: always at least one piece.\<close>

fun split_on :: "char \<Rightarrow> string \<Rightarrow> string list" where
  "split_on c [] = [[]]"
| "split_on c (x # xs) =
     (if x = c then [] # split_on c xs
      else (case split_on c xs of [] \<Rightarrow> [[x]] | p # ps \<Rightarrow> (x # p) # ps))"

text \<open>\<open>join\<close> with a separator.\<close>

fun join_str :: "string \<Rightarrow> string list \<Rightarrow> string" where
  "join_str sep [] = []"
| "join_str sep [x] = x"
| "join_str sep (x # xs) = x @ sep @ join_str sep xs"

definition emdash :: string where
  "emdash = [CHR 0xE2, CHR 0x80, CHR 0x94]"

lemma strip_by_stop: "f s = 0 \<Longrightarrow> strip_by f s = s"
  by (simp add: strip_by.simps)

lemma strip_by_Nil [simp]: "strip_by f [] = []"
  by (simp add: strip_by.simps)

lemma strip_by_step: "s \<noteq> [] \<Longrightarrow> f s \<noteq> 0 \<Longrightarrow> strip_by f s = strip_by f (drop (f s) s)"
  by (subst strip_by.simps) simp

lemma strip_by_result: "strip_by f s = [] \<or> f (strip_by f s) = 0"
proof (induction f s rule: strip_by.induct)
  case (1 f s)
  then show ?case
    by (cases "s = [] \<or> f s = 0") (auto simp: strip_by_stop strip_by_step)
qed

lemma strip_by_suffix: "\<exists>p. s = p @ strip_by f s"
proof (induction f s rule: strip_by.induct)
  case (1 f s)
  show ?case
  proof (cases "s = [] \<or> f s = 0")
    case True
    then show ?thesis by (auto simp: strip_by_stop)
  next
    case False
    with 1 obtain p where "drop (f s) s = p @ strip_by f (drop (f s) s)"
      by blast
    then have "s = (take (f s) s @ p) @ strip_by f (drop (f s) s)"
      by (metis append.assoc append_take_drop_id)
    with False show ?thesis
      by (intro exI [of _ "take (f s) s @ p"]) (simp add: strip_by_step)
  qed
qed

lemma trim_Nil [simp]: "trim [] = []"
  by (simp add: trim_def trim_start_def trim_end_def)

lemma split_once_Some_iff:
  "split_once c s = Some (a, b) \<longleftrightarrow> s = a @ c # b \<and> c \<notin> set a"
proof (induction s arbitrary: a)
  case Nil
  then show ?case by simp
next
  case (Cons x xs)
  then show ?case
    by (cases a) auto
qed

lemma split_once_None_iff: "split_once c s = None \<longleftrightarrow> c \<notin> set s"
  by (induction s) auto

lemma split_on_ne [simp]: "split_on c s \<noteq> []"
  by (induction s) (auto split: list.splits)

section \<open>Hash maps\<close>

text \<open>
  A \<open>HashMap\<close> or \<open>DashMap\<close> is the list of its entries in iteration order, each key once. That
  order is unspecified in Rust; results that could depend on it are stated for every order.
\<close>

type_synonym ('k, 'v) hmap = "('k \<times> 'v) list"

definition hm_wf :: "('k, 'v) hmap \<Rightarrow> bool" where
  "hm_wf m \<longleftrightarrow> distinct (map fst m)"

definition hm_get :: "('k, 'v) hmap \<Rightarrow> 'k \<Rightarrow> 'v option" where
  "hm_get m k = map_of m k"

definition hm_insert :: "'k \<Rightarrow> 'v \<Rightarrow> ('k, 'v) hmap \<Rightarrow> ('k, 'v) hmap" where
  "hm_insert k v m = AList.update k v m"

definition hm_remove :: "'k \<Rightarrow> ('k, 'v) hmap \<Rightarrow> ('k, 'v) hmap" where
  "hm_remove k m = AList.delete k m"

definition hm_values :: "('k, 'v) hmap \<Rightarrow> 'v list" where
  "hm_values m = map snd m"

definition hm_map_values :: "('v \<Rightarrow> 'w) \<Rightarrow> ('k, 'v) hmap \<Rightarrow> ('k, 'w) hmap" where
  "hm_map_values f m = map (\<lambda>(k, v). (k, f v)) m"

lemma hm_get_Nil [simp, hm_simps]: "hm_get [] k = None"
  by (simp add: hm_get_def)

lemma hm_get_Cons [hm_simps]: "hm_get ((j, v) # m) k = (if k = j then Some v else hm_get m k)"
  by (simp add: hm_get_def)

lemma hm_get_insert [simp, hm_simps]:
  "hm_get (hm_insert k v m) j = (if j = k then Some v else hm_get m j)"
  by (simp add: hm_get_def hm_insert_def update_conv')

lemma hm_get_remove [simp, hm_simps]:
  "hm_get (hm_remove k m) j = (if j = k then None else hm_get m j)"
  by (simp add: hm_get_def hm_remove_def delete_conv')

lemma hm_wf_Nil [simp]: "hm_wf []"
  by (simp add: hm_wf_def)

lemma hm_wf_insert [simp]: "hm_wf m \<Longrightarrow> hm_wf (hm_insert k v m)"
  by (simp add: hm_wf_def hm_insert_def distinct_update)

lemma hm_wf_remove [simp]: "hm_wf m \<Longrightarrow> hm_wf (hm_remove k m)"
  by (simp add: hm_wf_def hm_remove_def distinct_delete)

lemma hm_wf_map_values [simp]: "hm_wf (hm_map_values f m) = hm_wf m"
  by (simp add: hm_wf_def hm_map_values_def case_prod_beta comp_def)

lemma hm_get_map_values [simp, hm_simps]:
  "hm_get (hm_map_values f m) k = map_option f (hm_get m k)"
  by (induction m) (auto simp: hm_get_def hm_map_values_def)

lemma hm_get_eq_Some_iff: "hm_wf m \<Longrightarrow> hm_get m k = Some v \<longleftrightarrow> (k, v) \<in> set m"
  by (simp add: hm_wf_def hm_get_def)

lemma hm_get_None_iff: "hm_get m k = None \<longleftrightarrow> k \<notin> fst ` set m"
  by (simp add: hm_get_def map_of_eq_None_iff)

lemma hm_get_SomeD: "hm_get m k = Some v \<Longrightarrow> (k, v) \<in> set m"
  by (simp add: hm_get_def map_of_SomeD)

lemma hm_values_iff: "hm_wf m \<Longrightarrow> v \<in> set (hm_values m) \<longleftrightarrow> (\<exists>k. hm_get m k = Some v)"
  by (force simp: hm_get_eq_Some_iff hm_values_def)

lemma hm_keys_insert: "fst ` set (hm_insert k v m) = insert k (fst ` set m)"
  by (simp add: hm_insert_def dom_update flip: dom_map_of_conv_image_fst)
     (simp add: update_conv' )

text \<open>A \<open>BTreeMap\<close> is the list of its entries in ascending key order.\<close>

type_synonym ('k, 'v) btmap = "('k \<times> 'v) list"

definition bt_wf :: "('k::linorder, 'v) btmap \<Rightarrow> bool" where
  "bt_wf m \<longleftrightarrow> sorted_wrt (<) (map fst m)"

fun bt_insert :: "'k::linorder \<Rightarrow> 'v \<Rightarrow> ('k, 'v) btmap \<Rightarrow> ('k, 'v) btmap" where
  "bt_insert k v [] = [(k, v)]"
| "bt_insert k v ((j, w) # m) =
     (if k < j then (k, v) # (j, w) # m
      else if k = j then (k, v) # m else (j, w) # bt_insert k v m)"

fun bt_remove :: "'k::linorder \<Rightarrow> ('k, 'v) btmap \<Rightarrow> ('k, 'v) btmap" where
  "bt_remove k [] = []"
| "bt_remove k ((j, w) # m) = (if k = j then m else (j, w) # bt_remove k m)"

definition bt_get :: "('k, 'v) btmap \<Rightarrow> 'k \<Rightarrow> 'v option" where
  "bt_get m k = map_of m k"

lemma bt_keys_insert: "fst ` set (bt_insert k v m) = insert k (fst ` set m)"
  by (induction k v m rule: bt_insert.induct) auto

lemma bt_set_remove: "set (bt_remove k m) \<subseteq> set m"
  by (induction k m rule: bt_remove.induct) auto

lemma bt_wf_Nil [simp]: "bt_wf []"
  by (simp add: bt_wf_def)

lemma bt_wf_Cons: "bt_wf ((k, v) # m) \<longleftrightarrow> (\<forall>j \<in> fst ` set m. k < j) \<and> bt_wf m"
  by (simp add: bt_wf_def)

lemma bt_wf_insert [simp]: "bt_wf m \<Longrightarrow> bt_wf (bt_insert k v m)"
  by (induction k v m rule: bt_insert.induct) (auto simp: bt_wf_Cons bt_keys_insert)

lemma bt_wf_remove [simp]: "bt_wf m \<Longrightarrow> bt_wf (bt_remove k m)"
  by (induction k m rule: bt_remove.induct) (auto simp: bt_wf_Cons dest!: subsetD [OF bt_set_remove])

lemma bt_get_Nil [simp]: "bt_get [] k = None"
  by (simp add: bt_get_def)

lemma bt_get_None_iff: "bt_get m k = None \<longleftrightarrow> k \<notin> fst ` set m"
  by (simp add: bt_get_def map_of_eq_None_iff)

lemma bt_get_insert [simp]: "bt_get (bt_insert k v m) j = (if j = k then Some v else bt_get m j)"
  by (induction k v m rule: bt_insert.induct) (auto simp: bt_get_def)

lemma bt_get_remove [simp]:
  "bt_wf m \<Longrightarrow> bt_get (bt_remove k m) j = (if j = k then None else bt_get m j)"
proof (induction k m rule: bt_remove.induct)
  case (1 k)
  then show ?case by simp
next
  case (2 k i w m)
  have "i \<notin> fst ` set m"
    using "2.prems" by (force simp: bt_wf_Cons)
  then have "map_of m i = None"
    by (simp add: map_of_eq_None_iff)
  with 2 show ?case
    by (auto simp: bt_wf_Cons bt_get_def)
qed

lemma bt_wf_distinct: "bt_wf m \<Longrightarrow> distinct (map fst m)"
  by (simp add: bt_wf_def strict_sorted_iff)

text \<open>The contract a keyed store promises its clients, and the hash map as its provider.\<close>

locale keyed_store =
  fixes empty :: "'m"
    and put :: "'k \<Rightarrow> 'v \<Rightarrow> 'm \<Rightarrow> 'm"
    and del :: "'k \<Rightarrow> 'm \<Rightarrow> 'm"
    and look :: "'m \<Rightarrow> 'k \<Rightarrow> 'v option"
    and wf :: "'m \<Rightarrow> bool"
  assumes look_empty: "look empty k = None"
    and look_put: "wf m \<Longrightarrow> look (put k v m) j = (if j = k then Some v else look m j)"
    and look_del: "wf m \<Longrightarrow> look (del k m) j = (if j = k then None else look m j)"
    and wf_empty: "wf empty"
    and wf_put: "wf m \<Longrightarrow> wf (put k v m)"
    and wf_del: "wf m \<Longrightarrow> wf (del k m)"
begin

lemma wf_foldl_put: "wf m \<Longrightarrow> wf (foldl (\<lambda>m x. put (kf x) (vf x) m) m xs)"
  by (induction xs arbitrary: m) (simp_all add: wf_put)

lemma look_foldl_put:
  assumes "wf m"
  shows "look (foldl (\<lambda>m x. put (kf x) (vf x) m) m xs) j =
    (case find (\<lambda>x. kf x = j) (rev xs) of Some x \<Rightarrow> Some (vf x) | None \<Rightarrow> look m j)"
  using assms
proof (induction xs rule: rev_induct)
  case Nil
  then show ?case by simp
next
  case (snoc x xs)
  then show ?case
    by (auto simp: look_put wf_foldl_put)
qed

end

interpretation hm: keyed_store "[]" hm_insert hm_remove hm_get hm_wf
  by unfold_locales simp_all

interpretation bt: keyed_store "[]" bt_insert bt_remove bt_get bt_wf
  by unfold_locales simp_all

section \<open>gRPC status values\<close>

datatype code = Ok_code | Cancelled | Unknown | InvalidArgument | DeadlineExceeded | NotFound
  | AlreadyExists | PermissionDenied | ResourceExhausted | FailedPrecondition | Aborted
  | OutOfRange | Unimplemented | Internal | Unavailable | DataLoss | Unauthenticated

record status =
  st_code :: code
  st_msg :: string

type_synonym 'a rpc = "status + 'a"

definition Status :: "code \<Rightarrow> string \<Rightarrow> status" where
  "Status c m = \<lparr>st_code = c, st_msg = m\<rparr>"

lemma st_code_Status [simp]: "st_code (Status c m) = c"
  by (simp add: Status_def)

lemma Status_eq_iff [simp]: "Status c m = Status c' m' \<longleftrightarrow> c = c' \<and> m = m'"
  by (auto simp: Status_def)

text \<open>The \<open>?\<close> operator: return the error, or go on with the value.\<close>

definition rbind :: "'e + 'a \<Rightarrow> ('a \<Rightarrow> 'e + 'b) \<Rightarrow> 'e + 'b" where
  "rbind r f = (case r of Inl e \<Rightarrow> Inl e | Inr a \<Rightarrow> f a)"

lemma rbind_simps [simp]: "rbind (Inl e) f = Inl e" "rbind (Inr a) f = f a"
  by (simp_all add: rbind_def)

lemma rbind_eq_Inr: "rbind r f = Inr b \<longleftrightarrow> (\<exists>a. r = Inr a \<and> f a = Inr b)"
  by (cases r) auto

text \<open>The \<open>for x in xs { f(x)?; }\<close> loop: the first error, or success.\<close>

fun try_all :: "('a \<Rightarrow> 'e + unit) \<Rightarrow> 'a list \<Rightarrow> 'e + unit" where
  "try_all f [] = Inr ()"
| "try_all f (x # xs) = rbind (f x) (\<lambda>_. try_all f xs)"

lemma try_all_Inr: "try_all f xs = Inr u \<longleftrightarrow> (\<forall>x \<in> set xs. f x = Inr ())"
  by (induction xs) (auto simp: rbind_def split: sum.splits)

lemma try_all_Inl: "try_all f xs = Inl e \<longleftrightarrow>
    (\<exists>ys x zs. xs = ys @ x # zs \<and> (\<forall>y \<in> set ys. f y = Inr ()) \<and> f x = Inl e)"
proof (induction xs)
  case Nil
  then show ?case by simp
next
  case (Cons a xs)
  show ?case
  proof (cases "f a")
    case (Inl e')
    show ?thesis
    proof
      assume "try_all f (a # xs) = Inl e"
      with Inl show "\<exists>ys x zs. a # xs = ys @ x # zs \<and> (\<forall>y\<in>set ys. f y = Inr ()) \<and> f x = Inl e"
        by (intro exI [of _ "[]"]) simp
    next
      assume "\<exists>ys x zs. a # xs = ys @ x # zs \<and> (\<forall>y\<in>set ys. f y = Inr ()) \<and> f x = Inl e"
      then obtain ys x zs where "a # xs = ys @ x # zs" "\<forall>y\<in>set ys. f y = Inr ()" "f x = Inl e"
        by blast
      with Inl show "try_all f (a # xs) = Inl e"
        by (cases ys) auto
    qed
  next
    case (Inr u)
    have "(\<exists>ys x zs. a # xs = ys @ x # zs \<and> (\<forall>y\<in>set ys. f y = Inr ()) \<and> f x = Inl e) \<longleftrightarrow>
      (\<exists>ys x zs. xs = ys @ x # zs \<and> (\<forall>y\<in>set ys. f y = Inr ()) \<and> f x = Inl e)"
      (is "?L \<longleftrightarrow> ?R")
    proof
      assume ?L
      then obtain ys x zs where e: "a # xs = ys @ x # zs" "\<forall>y\<in>set ys. f y = Inr ()" "f x = Inl e"
        by blast
      with Inr obtain ys' where "ys = a # ys'"
        by (cases ys) auto
      with e show ?R by auto
    next
      assume ?R
      then obtain ys x zs where "xs = ys @ x # zs" "\<forall>y\<in>set ys. f y = Inr ()" "f x = Inl e"
        by blast
      with Inr show ?L
        by (intro exI [of _ "a # ys"] exI [of _ x] exI [of _ zs]) simp
    qed
    with Inr Cons.IH show ?thesis by simp
  qed
qed

section \<open>Machines\<close>

text \<open>A machine runs by folding its step over the actions taken. The contract of a step is what it does to an
  invariant of state and past actions; a run then has it too.\<close>

locale traced_machine =
  fixes step :: "'s \<Rightarrow> 'a \<Rightarrow> 's" and inv :: "'a list \<Rightarrow> 's \<Rightarrow> bool"
  assumes step_keeps: "inv as s \<Longrightarrow> inv (as @ [a]) (step s a)"
begin

lemma run_keeps: "inv [] s \<Longrightarrow> inv as (foldl step s as)"
  by (induction as rule: rev_induct) (simp_all add: step_keeps)

end

end
