(* ===== verification/Konfig_Types.thy ===== *)
theory Konfig_Types
  imports Konfig_Prelude
begin

text \<open>
  The data the components exchange: JSON values, kube objects, watch events and API errors,
  the configuration and secret snapshots of \<open>types.rs\<close> with their memoised JSON encodings, and
  the protobuf messages built from them (\<open>grpc/mod.rs\<close>, \<open>grpc/secret_get.rs\<close>).
\<close>

section \<open>JSON values and external codecs\<close>

datatype jnum = PosInt u64 | NegInt int | Float_bits u64

datatype json = JNull | JBool bool | JNum jnum | JStr string | JArr "json list"
  | JObj "(string \<times> json) list"

fun json_get :: "string \<Rightarrow> json \<Rightarrow> json option" where
  "json_get k (JObj m) = map_of m k"
| "json_get k _ = None"

fun json_as_u64 :: "json \<Rightarrow> u64 option" where
  "json_as_u64 (JNum (PosInt n)) = Some n"
| "json_as_u64 _ = None"

record config_spec =
  spec_schema_version :: u32
  spec_content :: json

definition default_content :: json where
  "default_content = JObj []"

text \<open>What the program uses of \<open>serde_json\<close>, \<open>serde_yaml\<close> and \<open>base64\<close>: parameters.\<close>

record codecs =
  to_json_string :: "json \<Rightarrow> string + string"
  map_to_json_string :: "(string, string) hmap \<Rightarrow> string + string"
  spec_from_value :: "json \<Rightarrow> string + config_spec"
  spec_to_value :: "config_spec \<Rightarrow> string + json"
  spec_from_yaml :: "string \<Rightarrow> string + config_spec"
  value_from_yaml :: "string \<Rightarrow> string + json"
  map_from_yaml :: "string \<Rightarrow> string + (string, string) btmap"
  base64_encode :: "string \<Rightarrow> string"

section \<open>Kube objects, watch events, API errors\<close>

record object_meta =
  meta_name :: "string option"
  meta_namespace :: "string option"
  meta_resource_version :: "string option"
  meta_labels :: "(string, string) btmap option"
  meta_annotations :: "(string, string) btmap option"

definition empty_meta :: object_meta where
  "empty_meta = \<lparr>meta_name = None, meta_namespace = None, meta_resource_version = None,
     meta_labels = None, meta_annotations = None\<rparr>"

record dynamic_object =
  obj_metadata :: object_meta
  obj_data :: json

record kube_secret =
  secret_metadata :: object_meta
  secret_data :: "(string, string) btmap option"

record kube_configmap =
  cm_metadata :: object_meta
  cm_data :: "(string, string) btmap option"

datatype 'o watch_event = Apply 'o | InitApply 'o | Delete 'o | Init | InitDone

datatype kube_error = Kube_Api u16 string | Kube_Other string

fun api_status_code :: "kube_error \<Rightarrow> u16 option" where
  "api_status_code (Kube_Api c m) = Some c"
| "api_status_code (Kube_Other m) = None"

fun kube_error_text :: "kube_error \<Rightarrow> string" where
  "kube_error_text (Kube_Api c m) = m"
| "kube_error_text (Kube_Other m) = m"

definition unwrap_or_default :: "string option \<Rightarrow> string" where
  "unwrap_or_default o' = (case o' of None \<Rightarrow> [] | Some s \<Rightarrow> s)"

lemma unwrap_or_default_simps [simp]:
  "unwrap_or_default None = []" "unwrap_or_default (Some s) = s"
  by (simp_all add: unwrap_or_default_def)

definition ok_or_default :: "string + string \<Rightarrow> string" where
  "ok_or_default r = (case r of Inl _ \<Rightarrow> [] | Inr s \<Rightarrow> s)"

section \<open>Snapshots\<close>

record config_snapshot =
  cs_name :: string
  cs_namespace :: string
  cs_schema_version :: u32
  cs_content :: json
  cs_resource_version :: string
  cs_loaded_at :: instant
  cs_stale_since :: "instant option"
  cs_labels :: "(string, string) btmap"
  cs_content_json_cache :: "string option"

definition config_snapshot_default :: "instant \<Rightarrow> config_snapshot" where
  "config_snapshot_default now =
     \<lparr>cs_name = [], cs_namespace = [], cs_schema_version = 0, cs_content = JNull,
      cs_resource_version = [], cs_loaded_at = now, cs_stale_since = None, cs_labels = [],
      cs_content_json_cache = None\<rparr>"

definition from_spec :: "instant \<Rightarrow> string \<Rightarrow> string \<Rightarrow> config_spec \<Rightarrow> string \<Rightarrow> config_snapshot" where
  "from_spec now nm ns spec rv =
     \<lparr>cs_name = nm, cs_namespace = ns, cs_schema_version = spec_schema_version spec,
      cs_content = spec_content spec, cs_resource_version = rv, cs_loaded_at = now,
      cs_stale_since = None, cs_labels = [], cs_content_json_cache = None\<rparr>"

text \<open>The memo cell: the first reader fills it, every later reader gets the stored string. The
  second component is the snapshot with its cell as the call leaves it.\<close>

definition content_json :: "codecs \<Rightarrow> config_snapshot \<Rightarrow> string \<times> config_snapshot" where
  "content_json cd s = (case cs_content_json_cache s of
       Some j \<Rightarrow> (j, s)
     | None \<Rightarrow> let j = ok_or_default (to_json_string cd (cs_content s))
               in (j, s\<lparr>cs_content_json_cache := Some j\<rparr>))"

record secret_snapshot =
  ss_name :: string
  ss_namespace :: string
  ss_schema_version :: u32
  ss_data :: "(string, string) hmap"
  ss_resource_version :: string
  ss_loaded_at :: instant
  ss_stale_since :: "instant option"
  ss_data_json_cache :: "string option"

definition secret_snapshot_default :: "instant \<Rightarrow> secret_snapshot" where
  "secret_snapshot_default now =
     \<lparr>ss_name = [], ss_namespace = [], ss_schema_version = 0, ss_data = [],
      ss_resource_version = [], ss_loaded_at = now, ss_stale_since = None,
      ss_data_json_cache = None\<rparr>"

text \<open>\<open>std::str::from_utf8\<close> succeeds exactly on well-formed UTF-8.\<close>

definition cont_byte :: "char \<Rightarrow> bool" where
  "cont_byte c \<longleftrightarrow> 128 \<le> byte c \<and> byte c \<le> 191"

function utf8_valid :: "string \<Rightarrow> bool" where
  "utf8_valid [] = True"
| "utf8_valid (a # r) =
     (if byte a < 128 then utf8_valid r
      else if 194 \<le> byte a \<and> byte a \<le> 223 then
        (case r of b # r1 \<Rightarrow> cont_byte b \<and> utf8_valid r1 | [] \<Rightarrow> False)
      else if 224 \<le> byte a \<and> byte a \<le> 239 then
        (case r of b # c # r2 \<Rightarrow>
             cont_byte b \<and> cont_byte c \<and> (byte a = 224 \<longrightarrow> 160 \<le> byte b) \<and>
             (byte a = 237 \<longrightarrow> byte b \<le> 159) \<and> utf8_valid r2
         | _ \<Rightarrow> False)
      else if 240 \<le> byte a \<and> byte a \<le> 244 then
        (case r of b # c # d # r3 \<Rightarrow>
             cont_byte b \<and> cont_byte c \<and> cont_byte d \<and> (byte a = 240 \<longrightarrow> 144 \<le> byte b) \<and>
             (byte a = 244 \<longrightarrow> byte b \<le> 143) \<and> utf8_valid r3
         | _ \<Rightarrow> False)
      else False)"
  by pat_completeness auto
termination
  by (relation "measure length") auto

definition secret_data_strings :: "(string, string) hmap \<Rightarrow> (string, string) hmap" where
  "secret_data_strings d = hm_map_values (\<lambda>v. if utf8_valid v then v else []) d"

definition data_json :: "codecs \<Rightarrow> secret_snapshot \<Rightarrow> string \<times> secret_snapshot" where
  "data_json cd s = (case ss_data_json_cache s of
       Some j \<Rightarrow> (j, s)
     | None \<Rightarrow> let j = ok_or_default (map_to_json_string cd (secret_data_strings (ss_data s)))
               in (j, s\<lparr>ss_data_json_cache := Some j\<rparr>))"

section \<open>Messages\<close>

record config_msg =
  cm_namespace :: string
  cm_name :: string
  cm_schema_version :: u32
  cm_content_json :: string
  cm_resource_version :: string
  cm_age_ms :: int
  cm_stale_since_ms :: int

record secret_msg =
  sm_namespace :: string
  sm_name :: string
  sm_schema_version :: u32
  sm_data_json :: string
  sm_resource_version :: string
  sm_age_ms :: int
  sm_stale_since_ms :: int

datatype event_type = Added | Modified | Deleted | Snapshot

record config_event =
  ce_type :: event_type
  ce_config :: "config_msg option"

record secret_event =
  se_type :: event_type
  se_secret :: "secret_msg option"

text \<open>\<open>t.elapsed().as_millis() as i64\<close>: elapsed time never goes negative, and the cast keeps the
  low 64 bits.\<close>

definition elapsed_ms :: "instant \<Rightarrow> instant \<Rightarrow> int" where
  "elapsed_ms now t = sint (of_nat ((now - t) div 1000000) :: u64)"

definition stale_ms :: "instant \<Rightarrow> instant option \<Rightarrow> int" where
  "stale_ms now st = (case st of None \<Rightarrow> -1 | Some t \<Rightarrow> elapsed_ms now t)"

definition snapshot_to_proto :: "codecs \<Rightarrow> instant \<Rightarrow> config_snapshot \<Rightarrow> config_msg" where
  "snapshot_to_proto cd now s =
     \<lparr>cm_namespace = cs_namespace s, cm_name = cs_name s,
      cm_schema_version = cs_schema_version s, cm_content_json = fst (content_json cd s),
      cm_resource_version = cs_resource_version s, cm_age_ms = elapsed_ms now (cs_loaded_at s),
      cm_stale_since_ms = stale_ms now (cs_stale_since s)\<rparr>"

definition secret_snapshot_to_proto :: "codecs \<Rightarrow> instant \<Rightarrow> secret_snapshot \<Rightarrow> secret_msg" where
  "secret_snapshot_to_proto cd now s =
     \<lparr>sm_namespace = ss_namespace s, sm_name = ss_name s,
      sm_schema_version = ss_schema_version s, sm_data_json = fst (data_json cd s),
      sm_resource_version = ss_resource_version s, sm_age_ms = elapsed_ms now (ss_loaded_at s),
      sm_stale_since_ms = stale_ms now (ss_stale_since s)\<rparr>"

section \<open>The memo cells never serve anything but the encoding of the content\<close>

definition config_memo_ok :: "codecs \<Rightarrow> config_snapshot \<Rightarrow> bool" where
  "config_memo_ok cd s \<longleftrightarrow>
     (\<forall>j. cs_content_json_cache s = Some j \<longrightarrow> j = ok_or_default (to_json_string cd (cs_content s)))"

definition secret_memo_ok :: "codecs \<Rightarrow> secret_snapshot \<Rightarrow> bool" where
  "secret_memo_ok cd s \<longleftrightarrow>
     (\<forall>j. ss_data_json_cache s = Some j \<longrightarrow>
        j = ok_or_default (map_to_json_string cd (secret_data_strings (ss_data s))))"

lemma config_memo_ok_from_spec [simp]: "config_memo_ok cd (from_spec now nm ns spec rv)"
  by (simp add: config_memo_ok_def from_spec_def)

lemma content_json_memo:
  assumes "config_memo_ok cd s"
  shows "fst (content_json cd s) = ok_or_default (to_json_string cd (cs_content s))"
    and "config_memo_ok cd (snd (content_json cd s))"
    and "fst (content_json cd (snd (content_json cd s))) = fst (content_json cd s)"
  using assms by (auto simp: content_json_def config_memo_ok_def Let_def split: option.splits)

lemma data_json_memo:
  assumes "secret_memo_ok cd s"
  shows "fst (data_json cd s) = ok_or_default (map_to_json_string cd (secret_data_strings (ss_data s)))"
    and "secret_memo_ok cd (snd (data_json cd s))"
    and "fst (data_json cd (snd (data_json cd s))) = fst (data_json cd s)"
  using assms by (auto simp: data_json_def secret_memo_ok_def Let_def split: option.splits)

lemma elapsed_ms_nonneg:
  assumes "now - t < 2 ^ 63 * 1000000"
  shows "elapsed_ms now t = int ((now - t) div 1000000)"
proof -
  let ?n = "(now - t) div 1000000"
  have lt: "?n < 2 ^ 63"
    using assms by (simp add: less_mult_imp_div_less)
  have "sint (of_nat ?n :: u64) = signed_take_bit 63 (int ?n)"
    by (simp add: sint_uint of_nat_unat unsigned_of_nat take_bit_of_nat [symmetric]
        signed_take_bit_take_bit)
  also have "\<dots> = int ?n"
    using lt by (intro signed_take_bit_int_eq_self) auto
  finally show ?thesis
    by (simp add: elapsed_ms_def)
qed

section \<open>A concrete codec for examples\<close>

definition demo_codecs :: codecs where
  "demo_codecs =
     \<lparr>to_json_string = (\<lambda>v. case v of JNull \<Rightarrow> Inr ''null'' | JBool b \<Rightarrow> Inr (if b then ''true'' else ''false'')
        | JNum (PosInt n) \<Rightarrow> Inr (show_nat (unat n)) | _ \<Rightarrow> Inr ''{}''),
      map_to_json_string = (\<lambda>m. Inr ''{}''),
      spec_from_value = (\<lambda>v. case Option.bind (json_get ''schema_version'' v) json_as_u64 of
         None \<Rightarrow> Inl ''missing field schema_version''
       | Some n \<Rightarrow> Inr \<lparr>spec_schema_version = ucast n,
           spec_content = (case json_get ''content'' v of None \<Rightarrow> default_content | Some c \<Rightarrow> c)\<rparr>),
      spec_to_value = (\<lambda>s. Inr (JObj [(''schema_version'', JNum (PosInt (ucast (spec_schema_version s)))),
         (''content'', spec_content s)])),
      spec_from_yaml = (\<lambda>y. case parse_u32 y of
         None \<Rightarrow> Inl ''invalid type'' | Some n \<Rightarrow> Inr \<lparr>spec_schema_version = n, spec_content = JNull\<rparr>),
      value_from_yaml = (\<lambda>y. Inr (JStr y)),
      map_from_yaml = (\<lambda>y. Inr [(''key'', y)]),
      base64_encode = id\<rparr>"

definition demo_object :: "string \<Rightarrow> u64 \<Rightarrow> string \<Rightarrow> dynamic_object" where
  "demo_object nm v rv =
     \<lparr>obj_metadata = \<lparr>meta_name = Some nm, meta_namespace = Some ''ns'',
        meta_resource_version = Some rv, meta_labels = None, meta_annotations = None\<rparr>,
      obj_data = JObj [(''spec'', JObj [(''schema_version'', JNum (PosInt v))])]\<rparr>"

definition demo_secret :: "string \<Rightarrow> kube_secret" where
  "demo_secret nm =
     \<lparr>secret_metadata = \<lparr>meta_name = Some nm, meta_namespace = Some ''ns'',
        meta_resource_version = Some ''1'', meta_labels = None, meta_annotations = None\<rparr>,
      secret_data = Some [(''k'', ''v'')]\<rparr>"

end
