(* ===== verification/Cow_Cache.thy ===== *)
theory Cow_Cache
  imports Konfig_Types
begin

text \<open>
  The copy-on-write cache of \<open>cow_cache.rs\<close> with its keys (\<open>cache_key.rs\<close>) and its two typed
  wrappers (\<open>cache.rs\<close>, \<open>secret_cache.rs\<close>): the operations, the invariant that every entry is
  stored under its own key, the equivalence of a batch with the same writes one by one, and the
  interleaving of writers and lock-free readers, refined to a log of atomic writes.
\<close>

section \<open>Keys\<close>

record cache_key =
  key_namespace :: string
  key_name :: string

definition OwnedKey :: "string \<Rightarrow> string \<Rightarrow> cache_key" where
  "OwnedKey ns nm = \<lparr>key_namespace = ns, key_name = nm\<rparr>"

definition BorrowedKey :: "string \<Rightarrow> string \<Rightarrow> cache_key" where
  "BorrowedKey ns nm = \<lparr>key_namespace = ns, key_name = nm\<rparr>"

definition key_ref_eq :: "cache_key \<Rightarrow> cache_key \<Rightarrow> bool" where
  "key_ref_eq a b \<longleftrightarrow> key_namespace a = key_namespace b \<and> key_name a = key_name b"

text \<open>What \<open>Hash\<close> feeds the hasher: \<open>str::hash\<close> writes the bytes and then \<open>0xff\<close>.\<close>

definition str_hash :: "string \<Rightarrow> string" where
  "str_hash s = s @ [CHR 0xFF]"

definition key_hash :: "cache_key \<Rightarrow> string" where
  "key_hash k = str_hash (key_namespace k) @ str_hash (key_name k)"

lemma OwnedKey_eq_iff [simp]: "OwnedKey a b = OwnedKey c d \<longleftrightarrow> a = c \<and> b = d"
  by (simp add: OwnedKey_def)

lemma BorrowedKey_is_OwnedKey [simp]: "BorrowedKey a b = OwnedKey a b"
  by (simp add: OwnedKey_def BorrowedKey_def)

lemma key_sel [simp]: "key_namespace (OwnedKey a b) = a" "key_name (OwnedKey a b) = b"
  by (simp_all add: OwnedKey_def)

lemma cache_key_collapse: "OwnedKey (key_namespace k) (key_name k) = k"
  by (simp add: OwnedKey_def)

lemma append_sep_inject:
  "x \<notin> set a \<Longrightarrow> x \<notin> set c \<Longrightarrow> a @ x # b = c @ x # d \<longleftrightarrow> a = c \<and> b = d"
proof (induction a arbitrary: c)
  case Nil
  then show ?case by (cases c) auto
next
  case (Cons y a)
  then show ?case by (cases c) auto
qed

section \<open>The cache\<close>

text \<open>The \<open>CacheEntry\<close> trait of a snapshot type.\<close>

record 's cache_entry =
  ent_namespace :: "'s \<Rightarrow> string"
  ent_name :: "'s \<Rightarrow> string"
  ent_set_stale :: "instant \<Rightarrow> 's \<Rightarrow> 's"

datatype 's mutation = Upsert 's | Remove string string

text \<open>\<open>cc_writes\<close> and \<open>cc_entries\<close> are this cache's children of the two Prometheus metrics.\<close>

record 's cow_cache =
  cc_inner :: "(cache_key, 's) hmap"
  cc_kind :: string
  cc_writes :: nat
  cc_entries :: nat

definition from_map :: "string \<Rightarrow> (cache_key, 's) hmap \<Rightarrow> 's cow_cache" where
  "from_map kd m = \<lparr>cc_inner = m, cc_kind = kd, cc_writes = 0, cc_entries = length m\<rparr>"

definition with_capacity :: "string \<Rightarrow> usize \<Rightarrow> 's cow_cache" where
  "with_capacity kd cap = from_map kd []"

definition cow_get :: "'s cow_cache \<Rightarrow> string \<Rightarrow> string \<Rightarrow> 's option" where
  "cow_get c ns nm = hm_get (cc_inner c) (BorrowedKey ns nm)"

definition cow_all_in_namespace :: "'s cow_cache \<Rightarrow> string \<Rightarrow> 's list" where
  "cow_all_in_namespace c ns = map snd (filter (\<lambda>(k, v). key_namespace k = ns) (cc_inner c))"

definition cow_is_populated :: "'s cow_cache \<Rightarrow> bool" where
  "cow_is_populated c \<longleftrightarrow> cc_inner c \<noteq> []"

definition cow_load_any :: "'s cow_cache \<Rightarrow> 's option" where
  "cow_load_any c = (case hm_values (cc_inner c) of [] \<Rightarrow> None | v # _ \<Rightarrow> Some v)"

definition record_write :: "nat \<Rightarrow> 's cow_cache \<Rightarrow> 's cow_cache" where
  "record_write len c = c\<lparr>cc_writes := cc_writes c + 1, cc_entries := len\<rparr>"

definition insert_snap :: "'s cache_entry \<Rightarrow> 's \<Rightarrow> (cache_key, 's) hmap \<Rightarrow> (cache_key, 's) hmap" where
  "insert_snap ce s m = hm_insert (OwnedKey (ent_namespace ce s) (ent_name ce s)) s m"

definition cow_update :: "'s cache_entry \<Rightarrow> 's \<Rightarrow> 's cow_cache \<Rightarrow> 's cow_cache" where
  "cow_update ce s c =
     (let next_map = insert_snap ce s (cc_inner c)
      in record_write (length next_map) (c\<lparr>cc_inner := next_map\<rparr>))"

definition cow_remove :: "string \<Rightarrow> string \<Rightarrow> 's cow_cache \<Rightarrow> 's cow_cache" where
  "cow_remove ns nm c =
     (let next_map = hm_remove (BorrowedKey ns nm) (cc_inner c)
      in record_write (length next_map) (c\<lparr>cc_inner := next_map\<rparr>))"

definition cow_mark_all_stale :: "'s cache_entry \<Rightarrow> instant \<Rightarrow> 's cow_cache \<Rightarrow> 's cow_cache" where
  "cow_mark_all_stale ce now c =
     (let next_map = hm_map_values (ent_set_stale ce now) (cc_inner c)
      in record_write (length next_map) (c\<lparr>cc_inner := next_map\<rparr>))"

fun apply_mutation :: "'s cache_entry \<Rightarrow> (cache_key, 's) hmap \<Rightarrow> 's mutation \<Rightarrow> (cache_key, 's) hmap" where
  "apply_mutation ce m (Upsert s) = insert_snap ce s m"
| "apply_mutation ce m (Remove ns nm) = hm_remove (BorrowedKey ns nm) m"

definition cow_apply_batch ::
  "'s cache_entry \<Rightarrow> 's mutation list \<Rightarrow> 's cow_cache \<Rightarrow> usize \<times> 's cow_cache" where
  "cow_apply_batch ce ms c =
     (if ms = [] then (0, c)
      else let next_map = foldl (apply_mutation ce) (cc_inner c) ms
           in (of_nat (length ms), record_write (length next_map) (c\<lparr>cc_inner := next_map\<rparr>)))"

section \<open>The two typed caches\<close>

definition config_entry :: "config_snapshot cache_entry" where
  "config_entry = \<lparr>ent_namespace = cs_namespace, ent_name = cs_name,
     ent_set_stale = (\<lambda>now s. s\<lparr>cs_stale_since := Some now\<rparr>)\<rparr>"

definition secret_entry :: "secret_snapshot cache_entry" where
  "secret_entry = \<lparr>ent_namespace = ss_namespace, ent_name = ss_name,
     ent_set_stale = (\<lambda>now s. s\<lparr>ss_stale_since := Some now\<rparr>)\<rparr>"

type_synonym config_cache = "config_snapshot cow_cache"
type_synonym secret_cache = "secret_snapshot cow_cache"

definition config_cache_new :: "config_snapshot \<Rightarrow> config_cache" where
  "config_cache_new initial =
     from_map ''config''
       (if cs_namespace initial \<noteq> [] \<and> cs_name initial \<noteq> []
        then hm_insert (OwnedKey (cs_namespace initial) (cs_name initial)) initial [] else [])"

definition config_cache_get :: "config_cache \<Rightarrow> string \<Rightarrow> string \<Rightarrow> config_snapshot option" where
  "config_cache_get c ns nm = cow_get c ns nm"

definition config_cache_update :: "config_snapshot \<Rightarrow> config_cache \<Rightarrow> config_cache" where
  "config_cache_update s c = cow_update config_entry s c"

definition config_cache_remove :: "string \<Rightarrow> string \<Rightarrow> config_cache \<Rightarrow> config_cache" where
  "config_cache_remove ns nm c = cow_remove ns nm c"

definition config_cache_all_in_namespace :: "config_cache \<Rightarrow> string \<Rightarrow> config_snapshot list" where
  "config_cache_all_in_namespace c ns = cow_all_in_namespace c ns"

definition config_cache_is_populated :: "config_cache \<Rightarrow> bool" where
  "config_cache_is_populated c = cow_is_populated c"

definition config_cache_mark_all_stale :: "instant \<Rightarrow> config_cache \<Rightarrow> config_cache" where
  "config_cache_mark_all_stale now c = cow_mark_all_stale config_entry now c"

definition config_cache_load_any :: "config_cache \<Rightarrow> config_snapshot option" where
  "config_cache_load_any c = cow_load_any c"

definition config_cache_load :: "instant \<Rightarrow> config_cache \<Rightarrow> config_snapshot" where
  "config_cache_load now c =
     (case config_cache_load_any c of Some s \<Rightarrow> s | None \<Rightarrow> config_snapshot_default now)"

definition config_cache_apply_batch ::
  "config_snapshot mutation list \<Rightarrow> config_cache \<Rightarrow> usize \<times> config_cache" where
  "config_cache_apply_batch ms c = cow_apply_batch config_entry ms c"

definition secret_cache_new :: secret_cache where
  "secret_cache_new = with_capacity ''secret'' 128"

definition secret_cache_get :: "secret_cache \<Rightarrow> string \<Rightarrow> string \<Rightarrow> secret_snapshot option" where
  "secret_cache_get c ns nm = cow_get c ns nm"

definition secret_cache_update :: "secret_snapshot \<Rightarrow> secret_cache \<Rightarrow> secret_cache" where
  "secret_cache_update s c = cow_update secret_entry s c"

definition secret_cache_remove :: "string \<Rightarrow> string \<Rightarrow> secret_cache \<Rightarrow> secret_cache" where
  "secret_cache_remove ns nm c = cow_remove ns nm c"

definition secret_cache_all_in_namespace :: "secret_cache \<Rightarrow> string \<Rightarrow> secret_snapshot list" where
  "secret_cache_all_in_namespace c ns = cow_all_in_namespace c ns"

definition secret_cache_is_populated :: "secret_cache \<Rightarrow> bool" where
  "secret_cache_is_populated c = cow_is_populated c"

definition secret_cache_mark_all_stale :: "instant \<Rightarrow> secret_cache \<Rightarrow> secret_cache" where
  "secret_cache_mark_all_stale now c = cow_mark_all_stale secret_entry now c"

definition secret_cache_apply_batch ::
  "secret_snapshot mutation list \<Rightarrow> secret_cache \<Rightarrow> usize \<times> secret_cache" where
  "secret_cache_apply_batch ms c = cow_apply_batch secret_entry ms c"

lemmas config_cache_defs = config_cache_get_def config_cache_update_def config_cache_remove_def
  config_cache_all_in_namespace_def config_cache_is_populated_def config_cache_mark_all_stale_def
  config_cache_apply_batch_def

lemmas secret_cache_defs = secret_cache_get_def secret_cache_update_def secret_cache_remove_def
  secret_cache_all_in_namespace_def secret_cache_is_populated_def secret_cache_mark_all_stale_def
  secret_cache_apply_batch_def

section \<open>Behaviour of single operations\<close>

lemma cc_sel_record_write [simp]:
  "cc_inner (record_write n c) = cc_inner c" "cc_writes (record_write n c) = cc_writes c + 1"
  "cc_entries (record_write n c) = n"
  by (simp_all add: record_write_def)

lemma cow_get_update [simp]:
  "cow_get (cow_update ce s c) ns nm =
     (if ns = ent_namespace ce s \<and> nm = ent_name ce s then Some s else cow_get c ns nm)"
  by (simp add: cow_get_def cow_update_def insert_snap_def Let_def)

lemma cow_get_remove [simp]:
  "cow_get (cow_remove n m c) ns nm = (if ns = n \<and> nm = m then None else cow_get c ns nm)"
  by (simp add: cow_get_def cow_remove_def Let_def)

lemma cow_get_mark_all_stale [simp]:
  "cow_get (cow_mark_all_stale ce now c) ns nm = map_option (ent_set_stale ce now) (cow_get c ns nm)"
  by (simp add: cow_get_def cow_mark_all_stale_def Let_def)

text \<open>The invariant: keys are distinct, every entry sits under its own key, and the gauge shows
  the number of entries.\<close>

definition well_keyed :: "'s cache_entry \<Rightarrow> (cache_key, 's) hmap \<Rightarrow> bool" where
  "well_keyed ce m \<longleftrightarrow>
     hm_wf m \<and> (\<forall>(k, s) \<in> set m. k = OwnedKey (ent_namespace ce s) (ent_name ce s))"

definition cow_inv :: "'s cache_entry \<Rightarrow> 's cow_cache \<Rightarrow> bool" where
  "cow_inv ce c \<longleftrightarrow> well_keyed ce (cc_inner c) \<and> cc_entries c = length (cc_inner c)"

lemma set_hm_insert_sub: "set (hm_insert k v m) \<subseteq> insert (k, v) (set m)"
  by (induction m) (auto simp: hm_insert_def split: if_splits)

lemma set_hm_remove_sub: "set (hm_remove k m) \<subseteq> set m"
  by (auto simp: hm_remove_def AList.delete_eq)

lemma well_keyed_Nil [simp]: "well_keyed ce []"
  by (simp add: well_keyed_def)

lemma well_keyed_insert_snap: "well_keyed ce m \<Longrightarrow> well_keyed ce (insert_snap ce s m)"
  using set_hm_insert_sub [of "OwnedKey (ent_namespace ce s) (ent_name ce s)" s m]
  by (auto simp: well_keyed_def insert_snap_def)

lemma well_keyed_remove: "well_keyed ce m \<Longrightarrow> well_keyed ce (hm_remove k m)"
  using set_hm_remove_sub [of k m] by (auto simp: well_keyed_def)

lemma well_keyed_apply_mutation: "well_keyed ce m \<Longrightarrow> well_keyed ce (apply_mutation ce m mu)"
  by (cases mu) (simp_all add: well_keyed_insert_snap well_keyed_remove)

lemma well_keyed_foldl: "well_keyed ce m \<Longrightarrow> well_keyed ce (foldl (apply_mutation ce) m ms)"
  by (induction ms arbitrary: m) (simp_all add: well_keyed_apply_mutation)

lemma cow_inv_update: "cow_inv ce c \<Longrightarrow> cow_inv ce (cow_update ce s c)"
  by (simp add: cow_inv_def cow_update_def Let_def well_keyed_insert_snap)

lemma cow_inv_remove: "cow_inv ce c \<Longrightarrow> cow_inv ce (cow_remove ns nm c)"
  by (simp add: cow_inv_def cow_remove_def Let_def well_keyed_remove)

lemma cow_inv_apply_batch: "cow_inv ce c \<Longrightarrow> cow_inv ce (snd (cow_apply_batch ce ms c))"
  by (simp add: cow_inv_def cow_apply_batch_def Let_def well_keyed_foldl)

text \<open>The entries of one namespace are exactly the snapshots a lookup in it returns, each once.\<close>

lemma set_all_in_namespace:
  assumes "hm_wf (cc_inner c)"
  shows "s \<in> set (cow_all_in_namespace c ns) \<longleftrightarrow> (\<exists>nm. cow_get c ns nm = Some s)"
proof -
  have "s \<in> set (cow_all_in_namespace c ns) \<longleftrightarrow>
      (\<exists>k. (k, s) \<in> set (cc_inner c) \<and> key_namespace k = ns)"
    by (force simp: cow_all_in_namespace_def)
  also have "\<dots> \<longleftrightarrow> (\<exists>k. hm_get (cc_inner c) k = Some s \<and> key_namespace k = ns)"
    using assms by (simp add: hm_get_eq_Some_iff)
  also have "\<dots> \<longleftrightarrow> (\<exists>nm. cow_get c ns nm = Some s)"
    by (auto simp: cow_get_def) (metis cache_key_collapse)
  finally show ?thesis .
qed

lemma distinct_names_all_in_namespace:
  assumes "well_keyed ce (cc_inner c)"
  shows "distinct (map (ent_name ce) (cow_all_in_namespace c ns))"
proof -
  let ?f = "filter (\<lambda>(k, v). key_namespace k = ns) (cc_inner c)"
  have d: "distinct (map fst ?f)"
    using assms by (simp add: well_keyed_def hm_wf_def distinct_map_filter)
  have "map fst ?f = map (\<lambda>s. OwnedKey ns (ent_name ce s)) (map snd ?f)"
    using assms by (auto simp: well_keyed_def)
  with d have "distinct (map (OwnedKey ns) (map (ent_name ce) (map snd ?f)))"
    by (simp add: comp_def)
  then show ?thesis
    by (simp only: distinct_map cow_all_in_namespace_def)
qed

section \<open>A batch is the same writes, one by one\<close>

fun apply_single :: "'s cache_entry \<Rightarrow> 's cow_cache \<Rightarrow> 's mutation \<Rightarrow> 's cow_cache" where
  "apply_single ce c (Upsert s) = cow_update ce s c"
| "apply_single ce c (Remove ns nm) = cow_remove ns nm c"

lemma cc_inner_apply_single: "cc_inner (apply_single ce c mu) = apply_mutation ce (cc_inner c) mu"
  by (cases mu) (simp_all add: cow_update_def cow_remove_def Let_def)

lemma cc_inner_foldl_apply_single:
  "cc_inner (foldl (apply_single ce) c ms) = foldl (apply_mutation ce) (cc_inner c) ms"
  by (induction ms arbitrary: c) (simp_all add: cc_inner_apply_single)

lemma cc_writes_foldl_apply_single:
  "cc_writes (foldl (apply_single ce) c ms) = cc_writes c + length ms"
proof (induction ms arbitrary: c)
  case Nil
  then show ?case by simp
next
  case (Cons mu ms)
  have "cc_writes (apply_single ce c mu) = cc_writes c + 1"
    by (cases mu) (simp_all add: cow_update_def cow_remove_def Let_def)
  with Cons show ?case by simp
qed

lemma cc_inner_apply_batch:
  "cc_inner (snd (cow_apply_batch ce ms c)) = foldl (apply_mutation ce) (cc_inner c) ms"
  by (simp add: cow_apply_batch_def Let_def)

section \<open>The trait contract\<close>

text \<open>What the cache relies on of a snapshot type: marking stale keeps the key and records the
  instant.\<close>

locale stale_entry =
  fixes ce :: "'s cache_entry"
    and stale_of :: "'s \<Rightarrow> instant option"
  assumes stale_key: "ent_namespace ce (ent_set_stale ce now s) = ent_namespace ce s"
      "ent_name ce (ent_set_stale ce now s) = ent_name ce s"
    and stale_set: "stale_of (ent_set_stale ce now s) = Some now"
begin

lemma inv_mark_all_stale: "cow_inv ce c \<Longrightarrow> cow_inv ce (cow_mark_all_stale ce now c)"
  by (auto simp: cow_inv_def well_keyed_def cow_mark_all_stale_def Let_def hm_map_values_def
      hm_wf_def comp_def case_prod_beta stale_key)

lemma all_stale:
  "cow_get (cow_mark_all_stale ce now c) ns nm = Some s \<Longrightarrow> stale_of s = Some now"
  by (auto simp: stale_set)

lemma fresh_after_update:
  assumes "stale_of s = None"
  shows "cow_get (cow_update ce s (cow_mark_all_stale ce now c)) ns nm = Some t \<Longrightarrow>
    stale_of t = (if ns = ent_namespace ce s \<and> nm = ent_name ce s then None else Some now)"
  using assms by (auto simp: stale_set split: if_splits)

end

interpretation config_cache: stale_entry config_entry cs_stale_since
  by unfold_locales (simp_all add: config_entry_def)

interpretation secret_cache: stale_entry secret_entry ss_stale_since
  by unfold_locales (simp_all add: secret_entry_def)

section \<open>Writers and readers interleaved\<close>

text \<open>
  Every write takes the write lock, loads the current map, builds the mutated clone, swaps the
  pointer and drops the guard; readers load the pointer at any moment without the lock. The log
  (ghost state) lists the writes in the order of their swaps, and \<open>sy_reads\<close> what readers saw.
\<close>

datatype 's write_op = W_Update 's | W_Remove string string | W_Stale instant | W_Batch "'s mutation list"

fun op_effect :: "'s cache_entry \<Rightarrow> (cache_key, 's) hmap \<Rightarrow> 's write_op \<Rightarrow> (cache_key, 's) hmap" where
  "op_effect ce m (W_Update s) = insert_snap ce s m"
| "op_effect ce m (W_Remove ns nm) = hm_remove (BorrowedKey ns nm) m"
| "op_effect ce m (W_Stale now) = hm_map_values (ent_set_stale ce now) m"
| "op_effect ce m (W_Batch ms) = foldl (apply_mutation ce) m ms"

datatype 's phase = Locked | Cloned "(cache_key, 's) hmap" | Stored

record 's cow_sys =
  sy_inner :: "(cache_key, 's) hmap"
  sy_writer :: "(nat \<times> 's write_op \<times> 's phase) option"
  sy_log :: "'s write_op list"
  sy_reads :: "(cache_key, 's) hmap list"

definition cow_start :: "(cache_key, 's) hmap \<Rightarrow> 's cow_sys" where
  "cow_start m = \<lparr>sy_inner = m, sy_writer = None, sy_log = [], sy_reads = []\<rparr>"

inductive cow_step :: "'s cache_entry \<Rightarrow> 's cow_sys \<Rightarrow> 's cow_sys \<Rightarrow> bool" for ce where
  lock: "sy_writer s = None \<Longrightarrow> op \<noteq> W_Batch [] \<Longrightarrow>
     cow_step ce s (s\<lparr>sy_writer := Some (t, op, Locked)\<rparr>)"
| clone: "sy_writer s = Some (t, op, Locked) \<Longrightarrow>
     cow_step ce s (s\<lparr>sy_writer := Some (t, op, Cloned (op_effect ce (sy_inner s) op))\<rparr>)"
| store: "sy_writer s = Some (t, op, Cloned m) \<Longrightarrow>
     cow_step ce s (s\<lparr>sy_inner := m, sy_writer := Some (t, op, Stored), sy_log := sy_log s @ [op]\<rparr>)"
| unlock: "sy_writer s = Some (t, op, Stored) \<Longrightarrow> cow_step ce s (s\<lparr>sy_writer := None\<rparr>)"
| read: "cow_step ce s (s\<lparr>sy_reads := sy_reads s @ [sy_inner s]\<rparr>)"

inductive cow_reach :: "'s cache_entry \<Rightarrow> (cache_key, 's) hmap \<Rightarrow> 's cow_sys \<Rightarrow> bool" for ce m0 where
  start: "cow_reach ce m0 (cow_start m0)"
| step: "cow_reach ce m0 s \<Longrightarrow> cow_step ce s s' \<Longrightarrow> cow_reach ce m0 s'"

definition log_state :: "'s cache_entry \<Rightarrow> (cache_key, 's) hmap \<Rightarrow> 's write_op list \<Rightarrow> (cache_key, 's) hmap" where
  "log_state ce m0 log = foldl (op_effect ce) m0 log"

definition cow_sys_inv :: "'s cache_entry \<Rightarrow> (cache_key, 's) hmap \<Rightarrow> 's cow_sys \<Rightarrow> bool" where
  "cow_sys_inv ce m0 s \<longleftrightarrow>
     sy_inner s = log_state ce m0 (sy_log s) \<and>
     (\<forall>t op m. sy_writer s = Some (t, op, Cloned m) \<longrightarrow> m = op_effect ce (sy_inner s) op) \<and>
     (\<forall>r \<in> set (sy_reads s). \<exists>n \<le> length (sy_log s). r = log_state ce m0 (take n (sy_log s)))"

lemma log_state_snoc: "log_state ce m0 (log @ [op]) = op_effect ce (log_state ce m0 log) op"
  by (simp add: log_state_def)

lemma cow_sys_inv_start: "cow_sys_inv ce m0 (cow_start m0)"
  by (simp add: cow_sys_inv_def cow_start_def log_state_def)

lemma cow_sys_inv_step: "cow_step ce s s' \<Longrightarrow> cow_sys_inv ce m0 s \<Longrightarrow> cow_sys_inv ce m0 s'"
proof (induction rule: cow_step.induct)
  case (store s t op m)
  have "\<exists>n \<le> Suc (length (sy_log s)). r = log_state ce m0 (take n (sy_log s @ [op]))"
    if r: "r \<in> set (sy_reads s)" for r
  proof -
    obtain n where n: "n \<le> length (sy_log s)" "r = log_state ce m0 (take n (sy_log s))"
      using store.prems r unfolding cow_sys_inv_def by blast
    then show ?thesis by (intro exI [of _ n]) simp
  qed
  with store show ?case
    by (auto simp: cow_sys_inv_def log_state_snoc)
next
  case (read s)
  then show ?case
    by (auto simp: cow_sys_inv_def intro!: exI [of _ "length (sy_log s)"])
qed (auto simp: cow_sys_inv_def)

lemma cow_reach_inv: "cow_reach ce m0 s \<Longrightarrow> cow_sys_inv ce m0 s"
  by (induction rule: cow_reach.induct) (auto intro: cow_sys_inv_start cow_sys_inv_step)


text \<open>The step model runs the operations of the cache: the effect of a logged write is what the
  corresponding operation does to the published map.\<close>

fun run_write :: "'s cache_entry \<Rightarrow> 's cow_cache \<Rightarrow> 's write_op \<Rightarrow> 's cow_cache" where
  "run_write ce c (W_Update s) = cow_update ce s c"
| "run_write ce c (W_Remove ns nm) = cow_remove ns nm c"
| "run_write ce c (W_Stale now) = cow_mark_all_stale ce now c"
| "run_write ce c (W_Batch ms) = snd (cow_apply_batch ce ms c)"

lemma cc_inner_run_write: "cc_inner (run_write ce c op) = op_effect ce (cc_inner c) op"
  by (cases op)
    (simp_all add: cow_update_def cow_remove_def cow_mark_all_stale_def cc_inner_apply_batch Let_def)

lemma cc_inner_foldl_run_write:
  "cc_inner (foldl (run_write ce) c ops) = log_state ce (cc_inner c) ops"
  by (induction ops arbitrary: c) (simp_all add: log_state_def cc_inner_run_write)

context stale_entry
begin

lemma inv_run_write: "cow_inv ce c \<Longrightarrow> cow_inv ce (run_write ce c op)"
  by (cases op) (simp_all add: cow_inv_update cow_inv_remove inv_mark_all_stale cow_inv_apply_batch)

lemma inv_run_writes: "cow_inv ce c \<Longrightarrow> cow_inv ce (foldl (run_write ce) c ops)"
  by (induction ops arbitrary: c) (simp_all add: inv_run_write)

end

lemma cow_inv_config_cache_new: "cow_inv config_entry (config_cache_new s)"
  by (auto simp: cow_inv_def config_cache_new_def from_map_def well_keyed_def config_entry_def
      hm_insert_def hm_wf_def)

lemma cow_inv_secret_cache_new: "cow_inv secret_entry secret_cache_new"
  by (simp add: cow_inv_def secret_cache_new_def with_capacity_def from_map_def)

lemma cow_inv_hm_wf: "cow_inv ce c \<Longrightarrow> hm_wf (cc_inner c)"
  by (simp add: cow_inv_def well_keyed_def)

section \<open>Properties\<close>

text \<open>Property C5. However writers and lock-free readers interleave, the published map is the
  result of the completed writes run one after the other, in the order of their pointer swaps, on
  a cache nobody else touches (no write is lost), and every map a reader loaded is the result of
  a prefix of those writes (no reader sees a half-applied write or batch).\<close>

theorem cow_cache_linearizable:
  assumes "cow_reach ce (cc_inner c) s"
  shows "sy_inner s = cc_inner (foldl (run_write ce) c (sy_log s)) \<and>
    (\<forall>r \<in> set (sy_reads s). \<exists>n \<le> length (sy_log s).
       r = cc_inner (foldl (run_write ce) c (take n (sy_log s))))"
  using cow_reach_inv [OF assms] by (simp add: cow_sys_inv_def cc_inner_foldl_run_write)

definition demo_write :: "config_snapshot write_op" where
  "demo_write = W_Update (from_spec 0 ''a'' ''ns'' \<lparr>spec_schema_version = 1, spec_content = JNull\<rparr> ''7'')"

definition demo_cloned :: "config_snapshot cow_sys" where
  "demo_cloned = \<lparr>sy_inner = [],
     sy_writer = Some (0, demo_write, Cloned (op_effect config_entry [] demo_write)),
     sy_log = [], sy_reads = [[]]\<rparr>"

definition demo_stored :: "config_snapshot cow_sys" where
  "demo_stored = \<lparr>sy_inner = op_effect config_entry [] demo_write,
     sy_writer = Some (0, demo_write, Stored), sy_log = [demo_write],
     sy_reads = [[], op_effect config_entry [] demo_write]\<rparr>"

lemma demo_cloned_reach: "cow_reach config_entry [] demo_cloned"
proof -
  have "cow_reach config_entry [] (cow_start [])"
    by (rule cow_reach.start)
  then have "cow_reach config_entry [] ((cow_start [])\<lparr>sy_writer := Some (0, demo_write, Locked)\<rparr>)"
    by (rule cow_reach.step) (rule cow_step.lock, simp_all add: cow_start_def demo_write_def)
  note cow_reach.step [OF this cow_step.clone]
  then have "cow_reach config_entry []
      ((cow_start [])\<lparr>sy_writer := Some (0, demo_write, Cloned (op_effect config_entry [] demo_write))\<rparr>)"
    by (simp add: cow_start_def)
  note cow_reach.step [OF this cow_step.read]
  then show ?thesis
    by (simp add: cow_start_def demo_cloned_def)
qed

lemma demo_stored_reach: "cow_reach config_entry [] demo_stored"
proof -
  note cow_reach.step [OF demo_cloned_reach cow_step.store]
  then have "cow_reach config_entry [] (demo_cloned\<lparr>sy_inner := op_effect config_entry [] demo_write,
      sy_writer := Some (0, demo_write, Stored), sy_log := [demo_write]\<rparr>)"
    by (simp add: demo_cloned_def)
  note cow_reach.step [OF this cow_step.read]
  then show ?thesis
    by (simp add: demo_cloned_def demo_stored_def)
qed

theorem cow_cache_linearizable_witness:
  "sy_inner demo_stored =
     cc_inner (foldl (run_write config_entry) (with_capacity ''config'' 0) (sy_log demo_stored)) \<and>
   length (sy_reads demo_stored) = 2"
  using cow_cache_linearizable [of config_entry "with_capacity ''config'' 0" demo_stored]
    demo_stored_reach by (simp add: with_capacity_def from_map_def demo_stored_def)

text \<open>A batch publishes exactly the map that its mutations would give one by one, in
  order, and reports how many it applied; but it is one counted write instead of one per mutation
  (none at all for an empty batch, which leaves the cache as it is).\<close>

lemma apply_batch_equals_single_writes:
  "cc_inner (snd (cow_apply_batch ce ms c)) = cc_inner (foldl (apply_single ce) c ms) \<and>
   fst (cow_apply_batch ce ms c) = of_nat (length ms) \<and>
   cc_writes (snd (cow_apply_batch ce ms c)) = cc_writes c + (if ms = [] then 0 else 1) \<and>
   cc_writes (foldl (apply_single ce) c ms) = cc_writes c + length ms \<and>
   (ms = [] \<longleftrightarrow> snd (cow_apply_batch ce ms c) = c)"
  by (auto simp: cc_inner_apply_batch cc_inner_foldl_apply_single cc_writes_foldl_apply_single)
    (auto simp: cow_apply_batch_def Let_def dest: arg_cong [where f = cc_writes])

text \<open>From a new config cache, and from a new secret cache, any sequence of updates,
  removals, stale markings and batches keeps the invariant: keys are unique, every snapshot is
  stored under its own namespace and name, and the gauge equals the number of entries.\<close>

lemma caches_well_keyed:
  "cow_inv config_entry (foldl (run_write config_entry) (config_cache_new initial) ops) \<and>
   cow_inv secret_entry (foldl (run_write secret_entry) secret_cache_new ops')"
  by (simp add: config_cache.inv_run_writes secret_cache.inv_run_writes cow_inv_config_cache_new
      cow_inv_secret_cache_new)

text \<open>In every state a config cache can reach, listing a namespace returns exactly
  the snapshots that a lookup by name in that namespace finds, no two with the same name.\<close>

lemma config_namespace_listing_exact:
  fixes ops initial
  defines "c \<equiv> foldl (run_write config_entry) (config_cache_new initial) ops"
  shows "(s \<in> set (config_cache_all_in_namespace c ns) \<longleftrightarrow>
      (\<exists>nm. config_cache_get c ns nm = Some s)) \<and>
    distinct (map cs_name (config_cache_all_in_namespace c ns))"
proof -
  have inv: "cow_inv config_entry c"
    by (simp add: c_def config_cache.inv_run_writes cow_inv_config_cache_new)
  then have "distinct (map (ent_name config_entry) (cow_all_in_namespace c ns))"
    by (intro distinct_names_all_in_namespace) (simp add: cow_inv_def)
  with inv show ?thesis
    by (simp add: config_cache_defs set_all_in_namespace [OF cow_inv_hm_wf]) (simp add: config_entry_def)
qed

text \<open>Two keys feed the hasher the same bytes exactly when they are the same
  namespace and name, for UTF-8 text (which never contains the byte 0xFF): the owned key of an
  insert and the borrowed key of a lookup agree, and no namespace/name boundary is ambiguous.\<close>

lemma key_hash_injective:
  assumes "CHR 0xFF \<notin> set ns" "CHR 0xFF \<notin> set nm" "CHR 0xFF \<notin> set ns'" "CHR 0xFF \<notin> set nm'"
  shows "key_hash (OwnedKey ns nm) = key_hash (BorrowedKey ns' nm') \<longleftrightarrow>
    key_ref_eq (OwnedKey ns nm) (BorrowedKey ns' nm')"
  using assms by (simp add: key_hash_def str_hash_def key_ref_eq_def append_sep_inject)

end
