(* ===== verification/Float64.thy ===== *)
theory Float64
  imports Konfig_Prelude Complex_Main
begin

text \<open>
  The binary64 arithmetic the sources use of Rust's \<open>f64\<close>: rounding of a non-negative rational to
  the nearest representable value (ties to even), its bit pattern, and \<open>str::parse::<f64>\<close>.
\<close>

section \<open>Rounding\<close>

text \<open>\<open>ilog2 n\<close> is the exponent of the leading bit of a positive number.\<close>

fun ilog2 :: "nat \<Rightarrow> nat" where
  "ilog2 n = (if n < 2 then 0 else Suc (ilog2 (n div 2)))"

declare ilog2.simps [simp del]

definition pow2 :: "int \<Rightarrow> rat" where
  "pow2 e = (if 0 \<le> e then 2 ^ nat e else 1 / 2 ^ nat (- e))"

text \<open>The exponent of the unit in the last place of \<open>x\<close>: 52 below its leading bit, and never below
  the subnormal exponent.\<close>

definition lead_exp :: "rat \<Rightarrow> int" where
  "lead_exp x = (case quotient_of x of (p, q) \<Rightarrow>
     let k = int (ilog2 (nat p)) - int (ilog2 (nat q))
     in if x < pow2 k then k - 1 else k)"

definition ulp_exp :: "rat \<Rightarrow> int" where
  "ulp_exp x = max (- 1074) (lead_exp x - 52)"

definition round_half_even :: "rat \<Rightarrow> int" where
  "round_half_even r =
     (let f = \<lfloor>r\<rfloor>; d = r - of_int f
      in if d < 1 / 2 then f else if d > 1 / 2 then f + 1 else if even f then f else f + 1)"

definition f64_mant :: "rat \<Rightarrow> int" where
  "f64_mant x = round_half_even (x / pow2 (ulp_exp x))"

text \<open>The value a non-negative rational in range rounds to.\<close>

definition f64_round :: "rat \<Rightarrow> rat" where
  "f64_round x = (if x \<le> 0 then 0 else of_int (f64_mant x) * pow2 (ulp_exp x))"

text \<open>Its bits; from \<open>2047 \<sqdot> 2\<^sup>5\<^sup>2\<close> on, an infinity.\<close>

definition f64_inf_bits :: int where
  "f64_inf_bits = 2047 * 2 ^ 52"

definition f64_bits :: "rat \<Rightarrow> int" where
  "f64_bits x =
     (if x \<le> 0 then 0
      else let m = f64_mant x; b = (if m < 2 ^ 52 then m else (ulp_exp x + 1075) * 2 ^ 52 + (m - 2 ^ 52))
           in min b f64_inf_bits)"

section \<open>Parsing\<close>

text \<open>\<open>str::parse::<i64>\<close> and \<open>str::parse::<f64>\<close> (its bits).\<close>

definition parse_i64 :: "string \<Rightarrow> int option" where
  "parse_i64 s =
     (let (neg, ds) = (case s of [] \<Rightarrow> (False, []) | c # r \<Rightarrow>
            if c = CHR ''-'' then (True, r) else if c = CHR ''+'' then (False, r) else (False, s));
          v = (if neg then - int (digits_val ds) else int (digits_val ds))
      in if ds = [] \<or> \<not> list_all is_digit ds \<or> v < - (2 ^ 63) \<or> 2 ^ 63 \<le> v then None else Some v)"

definition parse_exponent :: "string \<Rightarrow> int option" where
  "parse_exponent s =
     (let (neg, ds) = (case s of [] \<Rightarrow> (False, []) | c # r \<Rightarrow>
            if c = CHR ''-'' then (True, r) else if c = CHR ''+'' then (False, r) else (False, s))
      in if ds = [] \<or> \<not> list_all is_digit ds then None
         else Some (if neg then - int (digits_val ds) else int (digits_val ds)))"

text \<open>Digits with an optional point and exponent: the digits as a number, and the power of ten.\<close>

definition parse_decimal :: "string \<Rightarrow> (nat \<times> int) option" where
  "parse_decimal s =
     (let ip = takeWhile is_digit s; r1 = dropWhile is_digit s;
          (fp, r2) = (case r1 of [] \<Rightarrow> ([], []) | c # r \<Rightarrow>
             if c = CHR ''.'' then (takeWhile is_digit r, dropWhile is_digit r) else ([], r1))
      in if ip = [] \<and> fp = [] then None
         else (case r2 of [] \<Rightarrow> Some (digits_val (ip @ fp), - int (length fp)) | c # r3 \<Rightarrow>
            if c = CHR ''e'' \<or> c = CHR ''E''
            then map_option (\<lambda>e. (digits_val (ip @ fp), e - int (length fp))) (parse_exponent r3)
            else None))"

definition decimal_value :: "nat \<Rightarrow> int \<Rightarrow> rat" where
  "decimal_value m e = (if 0 \<le> e then of_nat m * 10 ^ nat e else of_nat m / 10 ^ nat (- e))"

definition parse_f64_bits :: "string \<Rightarrow> u64 option" where
  "parse_f64_bits s =
     (let (neg, body) = (case s of [] \<Rightarrow> (False, []) | c # r \<Rightarrow>
            if c = CHR ''-'' then (True, r) else if c = CHR ''+'' then (False, r) else (False, s));
          sgn = (if neg then 2 ^ 63 else 0 :: u64); w = to_ascii_lowercase body
      in if w = ''inf'' \<or> w = ''infinity'' then Some (sgn + of_int f64_inf_bits)
         else if w = ''nan'' then Some (sgn + of_int (f64_inf_bits + 2 ^ 51))
         else map_option (\<lambda>(m, e). sgn + of_int (f64_bits (decimal_value m e))) (parse_decimal body))"

definition f64_is_finite :: "u64 \<Rightarrow> bool" where
  "f64_is_finite b \<longleftrightarrow> (uint b div 2 ^ 52) mod 2048 \<noteq> 2047"

section \<open>Lemmas\<close>

lemma ilog2_bounds: "0 < n \<Longrightarrow> 2 ^ ilog2 n \<le> n \<and> n < 2 * 2 ^ ilog2 n"
proof (induction n rule: ilog2.induct)
  case (1 n)
  show ?case
  proof (cases "n < 2")
    case True
    with 1 show ?thesis by (subst (1 2) ilog2.simps) auto
  next
    case False
    with 1 have "2 ^ ilog2 (n div 2) \<le> n div 2 \<and> n div 2 < 2 * 2 ^ ilog2 (n div 2)"
      by auto
    with False show ?thesis
      by (subst (1 2) ilog2.simps) (auto simp: less_eq_div_iff_mult_less_eq mult.commute)
  qed
qed

lemma pow2_pos [simp]: "0 < pow2 e"
  by (simp add: pow2_def)

lemma pow2_nonneg [simp]: "0 \<le> e \<Longrightarrow> pow2 e = 2 ^ nat e"
  by (simp add: pow2_def)

lemma pow2_Suc: "pow2 (e + 1) = 2 * pow2 e"
proof (cases "0 \<le> e")
  case True
  then show ?thesis by (simp add: nat_add_distrib)
next
  case False
  then have n: "e = - int (Suc (nat (- e) - 1))"
    by simp
  define n where "n = nat (- e) - 1"
  note n = n [folded n_def]
  show ?thesis
    unfolding n by (cases n) (auto simp: pow2_def nat_add_distrib field_simps)
qed

lemma pow2_mono: "a \<le> b \<Longrightarrow> pow2 a \<le> pow2 b"
proof -
  have "pow2 a \<le> pow2 (a + int n)" for n
  proof (induction n)
    case (Suc n)
    have "pow2 (a + int (Suc n)) = 2 * pow2 (a + int n)"
      using pow2_Suc [of "a + int n"] by (simp add: algebra_simps)
    with Suc pow2_pos [of "a + int n"] show ?case by linarith
  qed simp
  from this [of "nat (b - a)"] show "a \<le> b \<Longrightarrow> pow2 a \<le> pow2 b" by simp
qed

lemma pow2_diff_nat: "pow2 (int a - int b) = 2 ^ a / 2 ^ b"
proof (cases "b \<le> a")
  case True
  then show ?thesis
    by (simp add: pow2_def nat_diff_distrib' power_diff flip: of_nat_diff)
next
  case False
  then have "nat (- (int a - int b)) = b - a" and "\<not> 0 \<le> int a - int b" by auto
  with False show ?thesis
    by (simp add: pow2_def power_diff field_simps)
qed

lemma lead_exp_le:
  assumes "0 < x"
  shows "pow2 (lead_exp x) \<le> x"
proof -
  obtain p q where pq: "quotient_of x = (p, q)"
    by (cases "quotient_of x")
  let ?k = "int (ilog2 (nat p)) - int (ilog2 (nat q))"
  have q: "0 < q"
    using pq quotient_of_denom_pos by blast
  have x: "x = of_int p / of_int q"
    using pq quotient_of_div by blast
  have p: "0 < p"
    using assms q unfolding x by (simp add: zero_less_divide_iff)
  have "(of_nat (2 ^ ilog2 (nat p)) :: rat) \<le> of_nat (nat p)"
    using ilog2_bounds [of "nat p"] p by (intro of_nat_mono) simp
  then have bp: "2 ^ ilog2 (nat p) \<le> (of_int p :: rat)"
    using p by (simp add: of_nat_nat)
  have "(of_nat (nat q) :: rat) \<le> of_nat (2 * 2 ^ ilog2 (nat q))"
    using ilog2_bounds [of "nat q"] q by (intro of_nat_mono) simp
  then have bq: "(of_int q :: rat) \<le> 2 * 2 ^ ilog2 (nat q)"
    using q by (simp add: of_nat_nat)
  have "pow2 (?k - 1) = pow2 ?k / 2"
    using pow2_Suc [of "?k - 1"] by simp
  also have "\<dots> = 2 ^ ilog2 (nat p) / (2 * 2 ^ ilog2 (nat q))"
    by (simp add: pow2_diff_nat)
  also have "\<dots> \<le> of_int p / of_int q"
    using bp bq p q by (intro frac_le) auto
  finally have "pow2 (?k - 1) \<le> x"
    by (simp add: x)
  then show ?thesis
    by (auto simp: lead_exp_def pq Let_def not_less)
qed

lemma round_half_even_bounds: "\<lfloor>r\<rfloor> \<le> round_half_even r" "round_half_even r \<le> \<lceil>r\<rceil>"
  by (auto simp: round_half_even_def Let_def ceiling_altdef)

lemma round_half_even_le: "r \<le> of_int n \<Longrightarrow> round_half_even r \<le> n"
  using round_half_even_bounds(2) [of r] by (meson ceiling_le_iff order_trans)

lemma round_half_even_ge: "of_int n \<le> r \<Longrightarrow> n \<le> round_half_even r"
  using round_half_even_bounds(1) [of r] by (meson le_floor_iff order_trans)

lemma pow2_add: "pow2 (a + b) = pow2 a * pow2 b"
proof -
  have "pow2 (a + int n) = pow2 a * pow2 (int n)" for a n
  proof (induction n)
    case (Suc n)
    show ?case
      using Suc pow2_Suc [of "a + int n"] pow2_Suc [of "int n"] by (simp add: algebra_simps)
  qed (simp add: pow2_def)
  note up = this
  show ?thesis
  proof (cases "0 \<le> b")
    case True
    with up [of a "nat b"] show ?thesis by simp
  next
    case False
    with up [of "a + b" "nat (- b)"] up [of b "nat (- b)"] have "pow2 a = pow2 (a + b) * pow2 (- b)" "pow2 b * pow2 (- b) = 1"
      by (simp_all add: pow2_def)
    then show ?thesis
      by (metis mult.assoc mult.commute mult.right_neutral)
  qed
qed

lemma pow2_less_cancel: "pow2 a < pow2 b \<Longrightarrow> a < b"
  using pow2_mono [of b a] by force

text \<open>A dyadic number with a numerator of at most 53 bits is representable, and rounding never crosses
  a representable number.\<close>

lemma dyadic_multiple:
  assumes "u \<le> e"
  shows "of_int m * pow2 e = of_int (m * 2 ^ nat (e - u)) * pow2 u"
  using pow2_add [of "e - u" u] assms by simp

lemma of_int_less_2_53: "m < 2 ^ 53 \<Longrightarrow> (of_int m :: rat) < 2 ^ 53"
  by (metis of_int_less_iff of_int_numeral of_int_power)

lemma f64_round_le_dyadic:
  assumes "x \<le> of_int m * pow2 e" "0 \<le> m" "m < 2 ^ 53" "- 1074 \<le> e"
  shows "f64_round x \<le> of_int m * pow2 e"
proof (cases "x \<le> 0")
  case True
  with assms show ?thesis by (simp add: f64_round_def less_imp_le)
next
  case False
  let ?u = "ulp_exp x"
  have "pow2 (lead_exp x) < 2 ^ 53 * pow2 e"
    using lead_exp_le [of x] False assms(1) mult_strict_right_mono [OF of_int_less_2_53 [OF assms(3)] pow2_pos [of e]]
    by linarith
  also have "2 ^ 53 * pow2 e = pow2 (e + 53)"
    by (simp add: pow2_add [of e 53])
  finally have "?u \<le> e"
    using pow2_less_cancel assms(4) by (fastforce simp: ulp_exp_def)
  note m = dyadic_multiple [OF this, of m]
  have "x / pow2 ?u \<le> of_int (m * 2 ^ nat (e - ?u))"
    using assms(1) unfolding m by (simp add: pos_divide_le_eq)
  then have "f64_mant x \<le> m * 2 ^ nat (e - ?u)"
    unfolding f64_mant_def by (rule round_half_even_le)
  then have "(of_int (f64_mant x) :: rat) * pow2 ?u \<le> of_int (m * 2 ^ nat (e - ?u)) * pow2 ?u"
    by (intro mult_right_mono) (simp_all only: of_int_le_iff less_imp_le pow2_pos)
  then show ?thesis
    using False unfolding m by (simp add: f64_round_def)
qed

lemma f64_round_nonneg: "0 \<le> f64_round x"
proof (cases "x \<le> 0")
  case False
  then have "0 \<le> f64_mant x"
    unfolding f64_mant_def by (intro round_half_even_ge) (simp add: less_imp_le)
  with False show ?thesis by (simp add: f64_round_def less_imp_le)
qed (simp add: f64_round_def)

lemma f64_round_normal:
  assumes "0 < x" "- 1074 < ulp_exp x"
  shows "2 ^ 52 * pow2 (ulp_exp x) \<le> f64_round x"
proof -
  let ?u = "ulp_exp x"
  have "lead_exp x = ?u + 52"
    using assms(2) by (simp add: ulp_exp_def)
  then have "2 ^ 52 \<le> x / pow2 ?u"
    using lead_exp_le [OF assms(1)] pow2_add [of ?u 52] by (simp add: pos_le_divide_eq mult.commute)
  then have "2 ^ 52 \<le> f64_mant x"
    unfolding f64_mant_def by (intro round_half_even_ge) simp
  then have "(of_int (2 ^ 52) :: rat) * pow2 ?u \<le> of_int (f64_mant x) * pow2 ?u"
    by (intro mult_right_mono) (simp_all only: of_int_le_iff less_imp_le pow2_pos)
  then show ?thesis
    using assms(1) by (simp add: f64_round_def)
qed

lemma f64_round_ge_dyadic:
  assumes "of_int m * pow2 e \<le> x" "0 \<le> m" "m < 2 ^ 53" "- 1074 \<le> e"
  shows "of_int m * pow2 e \<le> f64_round x"
proof (cases "x \<le> 0")
  case True
  with assms(1) have "of_int m * pow2 e \<le> 0" by linarith
  with f64_round_nonneg [of x] show ?thesis by linarith
next
  case pos: False
  let ?u = "ulp_exp x"
  show ?thesis
  proof (cases "?u \<le> e")
    case True
    note m = dyadic_multiple [OF this, of m]
    have "of_int (m * 2 ^ nat (e - ?u)) \<le> x / pow2 ?u"
      using assms(1) unfolding m by (simp add: pos_le_divide_eq)
    then have "m * 2 ^ nat (e - ?u) \<le> f64_mant x"
      unfolding f64_mant_def by (rule round_half_even_ge)
    then have "(of_int (m * 2 ^ nat (e - ?u)) :: rat) * pow2 ?u \<le> of_int (f64_mant x) * pow2 ?u"
      by (intro mult_right_mono) (simp_all only: of_int_le_iff less_imp_le pow2_pos)
    then show ?thesis
      using pos unfolding m by (simp add: f64_round_def)
  next
    case False
    have "of_int m * pow2 e \<le> 2 ^ 53 * pow2 e"
      using of_int_less_2_53 [OF assms(3)] by (intro mult_right_mono) (simp_all add: less_imp_le)
    also have "\<dots> = 2 ^ 52 * pow2 (e + 1)"
      by (simp add: pow2_Suc)
    also have "\<dots> \<le> 2 ^ 52 * pow2 ?u"
      using False pow2_mono [of "e + 1" ?u] by simp
    also have "\<dots> \<le> f64_round x"
      using f64_round_normal [of x] pos False assms(4) by simp
    finally show ?thesis .
  qed
qed

lemma f64_round_le_int: "x \<le> of_int n \<Longrightarrow> 0 \<le> n \<Longrightarrow> n < 2 ^ 53 \<Longrightarrow> f64_round x \<le> of_int n"
  using f64_round_le_dyadic [of x n 0] by simp

lemma f64_round_ge_int: "of_int n \<le> x \<Longrightarrow> 0 \<le> n \<Longrightarrow> n < 2 ^ 53 \<Longrightarrow> of_int n \<le> f64_round x"
  using f64_round_ge_dyadic [of n 0 x] by simp

lemma f64_round_int: "0 \<le> n \<Longrightarrow> n < 2 ^ 53 \<Longrightarrow> f64_round (of_int n) = of_int n"
  by (intro order_antisym f64_round_le_int f64_round_ge_int) simp_all

end
