(* ===== verification/Watchers.thy ===== *)
theory Watchers
  imports Cow_Cache Float64
begin

text \<open>
  The watchers that feed the caches: the reconnect loop and its backoff (\<open>watcher.rs\<close>), the relist
  state machine shared by the Config and Secret watchers, the ConfigMap watcher with the scalar
  cascade of \<open>value_parse.rs\<close>, and the freshness stamp of \<open>metrics.rs\<close>. A watch connection is the
  list of its events, each with the clock reading at which it is handled, and how it ended.
\<close>

section \<open>Backoff\<close>

definition BACKOFF_STEPS_SECS :: "u64 list" where
  "BACKOFF_STEPS_SECS = [1, 2, 4, 8, 16, 30]"

text \<open>Seconds slept after attempt number \<open>attempt\<close>.\<close>

definition backoff_delay :: "usize \<Rightarrow> u64" where
  "backoff_delay attempt =
     (if unat attempt < length BACKOFF_STEPS_SECS then BACKOFF_STEPS_SECS ! unat attempt
      else last BACKOFF_STEPS_SECS)"

definition preceding_backoff_ms :: "usize \<Rightarrow> u64" where
  "preceding_backoff_ms attempt = (if attempt = 0 then 0 else backoff_delay (attempt - 1) * 1000)"

section \<open>Freshness stamp\<close>

text \<open>Nanoseconds since the process started; 0 means no event yet.\<close>

type_synonym last_event_at = u64

definition touch :: "instant \<Rightarrow> instant \<Rightarrow> last_event_at" where
  "touch proc_start now = max (of_nat (now - proc_start)) 1"

definition elapsed_secs :: "instant \<Rightarrow> instant \<Rightarrow> last_event_at \<Rightarrow> rat option" where
  "elapsed_secs proc_start now prev =
     (if prev = 0 then None
      else let delta = saturating_sub (of_nat (now - proc_start)) prev
           in Some (f64_round (f64_round (of_nat (unat delta)) / 1000000000)))"

definition last_event_at_for ::
  "(string, last_event_at) hmap \<Rightarrow> string \<Rightarrow> (string, last_event_at) hmap" where
  "last_event_at_for m ns = (case hm_get m ns of Some e \<Rightarrow> m | None \<Rightarrow> hm_insert ns 0 m)"

section \<open>Watch connections\<close>

datatype stream_end = Ended | Errored string

record 'o watch_stream =
  ws_events :: "(instant \<times> 'o watch_event) list"
  ws_end :: stream_end

datatype pump_outcome = StreamEnded | StreamErrored string

text \<open>The relist state machine. \<open>relist\<close> is \<open>Some\<close> only between \<open>Init\<close> and \<open>InitDone\<close> of a
  reconnect; \<open>buf\<close>, \<open>commit\<close> and \<open>handle\<close> are the closures of the caller, over its state.\<close>

definition route_relist_event ::
  "('o \<Rightarrow> 'm list \<Rightarrow> 'st \<Rightarrow> 'm list \<times> 'st) \<Rightarrow> ('m list \<Rightarrow> 'st \<Rightarrow> 'st) \<Rightarrow>
   ('o watch_event \<Rightarrow> 'st \<Rightarrow> 'st) \<Rightarrow> bool \<Rightarrow> 'o watch_event \<Rightarrow>
   'm list option \<times> 'st \<Rightarrow> 'm list option \<times> 'st" where
  "route_relist_event buf commit handle batch_relist ev rs = (case rs of
       (Some b, st) \<Rightarrow> (case ev of
            InitApply p \<Rightarrow> (case buf p b st of (b', st') \<Rightarrow> (Some b', st'))
          | InitDone \<Rightarrow> (None, commit b st)
          | _ \<Rightarrow> (Some b, handle ev st))
     | (None, st) \<Rightarrow>
          if batch_relist \<and> ev = Init then (Some [], st) else (None, handle ev st))"

section \<open>Config watcher\<close>

definition parse_config_object :: "codecs \<Rightarrow> instant \<Rightarrow> dynamic_object \<Rightarrow> config_snapshot option" where
  "parse_config_object cd now obj =
     (let md = obj_metadata obj;
          rv = unwrap_or_default (meta_resource_version md);
          nm = unwrap_or_default (meta_name md);
          ns = unwrap_or_default (meta_namespace md)
      in case json_get ''spec'' (obj_data obj) of None \<Rightarrow> None
         | Some spec_value \<Rightarrow> (case spec_from_value cd spec_value of Inl _ \<Rightarrow> None
            | Inr spec \<Rightarrow>
                let snap = from_spec now nm ns spec rv
                in Some (case meta_labels md of None \<Rightarrow> snap | Some l \<Rightarrow> snap\<lparr>cs_labels := l\<rparr>)))"

fun handle_event ::
  "codecs \<Rightarrow> instant \<Rightarrow> dynamic_object watch_event \<Rightarrow> config_cache \<Rightarrow> config_cache" where
  "handle_event cd now (Apply obj) c =
     (case parse_config_object cd now obj of Some s \<Rightarrow> config_cache_update s c | None \<Rightarrow> c)"
| "handle_event cd now (InitApply obj) c =
     (case parse_config_object cd now obj of Some s \<Rightarrow> config_cache_update s c | None \<Rightarrow> c)"
| "handle_event cd now (Delete obj) c = c"
| "handle_event cd now Init c = c"
| "handle_event cd now InitDone c = c"

definition route_config_event ::
  "codecs \<Rightarrow> instant \<Rightarrow> bool \<Rightarrow> dynamic_object watch_event \<Rightarrow>
   config_snapshot mutation list option \<times> config_cache \<Rightarrow>
   config_snapshot mutation list option \<times> config_cache" where
  "route_config_event cd now batch_relist ev rs =
     route_relist_event
       (\<lambda>obj b c. (case parse_config_object cd now obj of
            Some s \<Rightarrow> (b @ [Upsert s], c) | None \<Rightarrow> (b, c)))
       (\<lambda>ms c. snd (config_cache_apply_batch ms c))
       (handle_event cd now) batch_relist ev rs"

text \<open>One connection: the relist buffer starts empty and is dropped at the end.\<close>

fun pump_config_loop ::
  "codecs \<Rightarrow> instant \<Rightarrow> bool \<Rightarrow> (instant \<times> dynamic_object watch_event) list \<Rightarrow>
   config_snapshot mutation list option \<times> config_cache \<Rightarrow> last_event_at \<Rightarrow>
   (config_snapshot mutation list option \<times> config_cache) \<times> last_event_at" where
  "pump_config_loop cd t0 batch_relist [] rs lea = (rs, lea)"
| "pump_config_loop cd t0 batch_relist ((now, ev) # evs) rs lea =
     pump_config_loop cd t0 batch_relist evs (route_config_event cd now batch_relist ev rs)
       (touch t0 now)"

definition pump_config_events ::
  "codecs \<Rightarrow> instant \<Rightarrow> bool \<Rightarrow> dynamic_object watch_stream \<Rightarrow> config_cache \<Rightarrow> last_event_at \<Rightarrow>
   pump_outcome \<times> config_cache \<times> last_event_at" where
  "pump_config_events cd t0 batch_relist stream c lea =
     (case pump_config_loop cd t0 batch_relist (ws_events stream) (None, c) lea of
        ((_, c'), lea') \<Rightarrow>
          ((case ws_end stream of Ended \<Rightarrow> StreamEnded | Errored e \<Rightarrow> StreamErrored e), c', lea'))"

text \<open>
  \<open>Watcher::run\<close>: a stream that ends cleanly ends the loop; an error marks the cache stale,
  sleeps and reconnects. The argument lists the connections the API server will serve, each with
  the instant its end is handled; the result is whether the loop returned, the state, and the
  delays slept. An exhausted list is a watcher still waiting for its next connection.
\<close>

fun watcher_run ::
  "codecs \<Rightarrow> instant \<Rightarrow> usize \<Rightarrow> (dynamic_object watch_stream \<times> instant) list \<Rightarrow> config_cache \<Rightarrow>
   last_event_at \<Rightarrow> bool \<times> config_cache \<times> last_event_at \<times> u64 list" where
  "watcher_run cd t0 attempt [] c lea = (False, c, lea, [])"
| "watcher_run cd t0 attempt ((stream, t) # conns) c lea =
     (case pump_config_events cd t0 (0 < attempt) stream c lea of (out, c', lea') \<Rightarrow>
        (case out of
           StreamEnded \<Rightarrow> (True, c', lea', [])
         | StreamErrored e \<Rightarrow>
             (case watcher_run cd t0 (saturating_add attempt 1) conns
                     (config_cache_mark_all_stale t c') lea' of
                (r, c'', lea'', ds) \<Rightarrow> (r, c'', lea'', backoff_delay attempt # ds))))"

text \<open>\<open>run_with_reconnect\<close> never returns: every connection, however it ended, is followed by
  \<open>on_disconnect\<close> and a sleep.\<close>

fun run_with_reconnect ::
  "('st \<Rightarrow> 'conn \<Rightarrow> 'st) \<Rightarrow> (usize \<Rightarrow> 'conn \<Rightarrow> 'st \<Rightarrow> 'st) \<Rightarrow> usize \<Rightarrow> 'conn list \<Rightarrow> 'st \<Rightarrow> 'st \<times> u64 list" where
  "run_with_reconnect on_disconnect f attempt [] st = (st, [])"
| "run_with_reconnect on_disconnect f attempt (conn # conns) st =
     (case run_with_reconnect on_disconnect f (saturating_add attempt 1) conns
             (on_disconnect (f attempt conn st) conn) of
        (st', ds) \<Rightarrow> (st', backoff_delay attempt # ds))"

section \<open>Secret watcher\<close>

definition SCHEMA_VERSION_ANNOTATION :: string where
  "SCHEMA_VERSION_ANNOTATION = ''konfig.io/schema-version''"

definition parse_secret :: "codecs \<Rightarrow> instant \<Rightarrow> string \<Rightarrow> kube_secret \<Rightarrow> secret_snapshot option" where
  "parse_secret cd now ns sec =
     (let md = secret_metadata sec;
          sv = (case Option.bind (meta_annotations md) (\<lambda>a. bt_get a SCHEMA_VERSION_ANNOTATION) of
                  None \<Rightarrow> 0
                | Some v \<Rightarrow> (case parse_u32 v of None \<Rightarrow> 0 | Some n \<Rightarrow> n));
          d = (case secret_data sec of None \<Rightarrow> [] | Some d \<Rightarrow> hm_map_values (base64_encode cd) d)
      in Some ((secret_snapshot_default now)
           \<lparr>ss_name := unwrap_or_default (meta_name md), ss_namespace := ns, ss_schema_version := sv,
            ss_data := d, ss_resource_version := unwrap_or_default (meta_resource_version md),
            ss_loaded_at := now\<rparr>))"

text \<open>The state of a Secret watcher: its cache and the events it has broadcast, in order.\<close>

type_synonym secret_sink = "secret_cache \<times> secret_event list"

definition secret_event_of ::
  "codecs \<Rightarrow> instant \<Rightarrow> event_type \<Rightarrow> secret_snapshot \<Rightarrow> secret_event" where
  "secret_event_of cd now ty s =
     \<lparr>se_type = ty, se_secret = Some (secret_snapshot_to_proto cd now s)\<rparr>"

fun handle_secret_event ::
  "codecs \<Rightarrow> instant \<Rightarrow> string \<Rightarrow> kube_secret watch_event \<Rightarrow> secret_sink \<Rightarrow> secret_sink" where
  "handle_secret_event cd now ns (Apply sec) (c, out) =
     (case parse_secret cd now ns sec of
        Some s \<Rightarrow> (secret_cache_update s c, out @ [secret_event_of cd now Modified s])
      | None \<Rightarrow> (c, out))"
| "handle_secret_event cd now ns (InitApply sec) (c, out) =
     (case parse_secret cd now ns sec of
        Some s \<Rightarrow> (secret_cache_update s c, out @ [secret_event_of cd now Modified s])
      | None \<Rightarrow> (c, out))"
| "handle_secret_event cd now ns (Delete sec) (c, out) =
     (case parse_secret cd now ns sec of
        Some s \<Rightarrow> (c, out @ [secret_event_of cd now Deleted s]) | None \<Rightarrow> (c, out))"
| "handle_secret_event cd now ns Init (c, out) = (c, out)"
| "handle_secret_event cd now ns InitDone (c, out) = (c, out)"

definition route_secret_event ::
  "codecs \<Rightarrow> instant \<Rightarrow> string \<Rightarrow> bool \<Rightarrow> kube_secret watch_event \<Rightarrow>
   secret_snapshot mutation list option \<times> secret_sink \<Rightarrow>
   secret_snapshot mutation list option \<times> secret_sink" where
  "route_secret_event cd now ns batch_relist ev rs =
     route_relist_event
       (\<lambda>sec b (c, out). (case parse_secret cd now ns sec of
            Some s \<Rightarrow> (b @ [Upsert s], (c, out @ [secret_event_of cd now Modified s]))
          | None \<Rightarrow> (b, (c, out))))
       (\<lambda>ms (c, out). (snd (secret_cache_apply_batch ms c), out))
       (handle_secret_event cd now ns) batch_relist ev rs"

fun pump_secret_loop ::
  "codecs \<Rightarrow> instant \<Rightarrow> string \<Rightarrow> bool \<Rightarrow> (instant \<times> kube_secret watch_event) list \<Rightarrow>
   secret_snapshot mutation list option \<times> secret_sink \<Rightarrow> last_event_at \<Rightarrow>
   (secret_snapshot mutation list option \<times> secret_sink) \<times> last_event_at" where
  "pump_secret_loop cd t0 ns batch_relist [] rs lea = (rs, lea)"
| "pump_secret_loop cd t0 ns batch_relist ((now, ev) # evs) rs lea =
     pump_secret_loop cd t0 ns batch_relist evs (route_secret_event cd now ns batch_relist ev rs)
       (touch t0 now)"

definition pump_secret_events ::
  "codecs \<Rightarrow> instant \<Rightarrow> string \<Rightarrow> bool \<Rightarrow> kube_secret watch_stream \<Rightarrow> secret_sink \<Rightarrow> last_event_at \<Rightarrow>
   (string + unit) \<times> secret_sink \<times> last_event_at" where
  "pump_secret_events cd t0 ns batch_relist stream st lea =
     (case pump_secret_loop cd t0 ns batch_relist (ws_events stream) (None, st) lea of
        ((_, st'), lea') \<Rightarrow>
          ((case ws_end stream of Ended \<Rightarrow> Inr () | Errored e \<Rightarrow> Inl e), st', lea'))"

text \<open>One task of \<open>spawn_all\<close>: the reconnect loop of a namespace.\<close>

definition secret_watch_task ::
  "codecs \<Rightarrow> instant \<Rightarrow> string \<Rightarrow> (kube_secret watch_stream \<times> instant) list \<Rightarrow>
   secret_sink \<times> last_event_at \<Rightarrow> (secret_sink \<times> last_event_at) \<times> u64 list" where
  "secret_watch_task cd t0 ns conns st =
     run_with_reconnect
       (\<lambda>((c, out), lea) (stream, t). ((secret_cache_mark_all_stale t c, out), lea))
       (\<lambda>attempt (stream, t) (sink, lea).
          (case pump_secret_events cd t0 ns (0 < attempt) stream sink lea of (_, s, l) \<Rightarrow> (s, l)))
       0 conns st"

section \<open>ConfigMap watcher\<close>

text \<open>\<open>scalar_value\<close>: the most specific JSON scalar; \<open>json!\<close> of a non-finite float is null.\<close>

definition json_of_i64 :: "int \<Rightarrow> json" where
  "json_of_i64 n = JNum (if n < 0 then NegInt n else PosInt (of_int n))"

definition json_of_f64 :: "u64 \<Rightarrow> json" where
  "json_of_f64 b = (if f64_is_finite b then JNum (Float_bits b) else JNull)"

definition scalar_value :: "string \<Rightarrow> json" where
  "scalar_value s = (case parse_i64 s of Some n \<Rightarrow> json_of_i64 n
     | None \<Rightarrow> (case parse_f64_bits s of Some b \<Rightarrow> json_of_f64 b
       | None \<Rightarrow> if s = ''true'' then JBool True else if s = ''false'' then JBool False else JStr s))"

definition data_content :: "(string, string) btmap \<Rightarrow> (string, json) btmap" where
  "data_content d =
     foldl (\<lambda>m (k, v). if k = ''schema_version'' then m else bt_insert k (scalar_value v) m) [] d"

definition parse_configmap ::
  "codecs \<Rightarrow> instant \<Rightarrow> kube_configmap \<Rightarrow> string \<Rightarrow> config_snapshot option" where
  "parse_configmap cd now cm ns = (case cm_data cm of None \<Rightarrow> None | Some d \<Rightarrow>
     let sv = (case bt_get d ''schema_version'' of None \<Rightarrow> 0
                | Some v \<Rightarrow> (case parse_u32 v of None \<Rightarrow> 0 | Some n \<Rightarrow> n));
         content = (case bt_get d ''content'' of
              Some t \<Rightarrow> (case value_from_yaml cd t of Inr v \<Rightarrow> v | Inl _ \<Rightarrow> JObj [])
            | None \<Rightarrow> JObj (data_content d))
     in Some ((config_snapshot_default now)
          \<lparr>cs_name := unwrap_or_default (meta_name (cm_metadata cm)), cs_namespace := ns,
           cs_schema_version := sv, cs_content := content,
           cs_resource_version := unwrap_or_default (meta_resource_version (cm_metadata cm)),
           cs_loaded_at := now, cs_stale_since := None\<rparr>))"

fun handle_configmap_event ::
  "codecs \<Rightarrow> instant \<Rightarrow> string \<Rightarrow> kube_configmap watch_event \<Rightarrow> config_cache \<Rightarrow> config_cache" where
  "handle_configmap_event cd now ns (Apply cm) c =
     (case parse_configmap cd now cm ns of Some s \<Rightarrow> config_cache_update s c | None \<Rightarrow> c)"
| "handle_configmap_event cd now ns (InitApply cm) c =
     (case parse_configmap cd now cm ns of Some s \<Rightarrow> config_cache_update s c | None \<Rightarrow> c)"
| "handle_configmap_event cd now ns (Delete cm) c = c"
| "handle_configmap_event cd now ns Init c = c"
| "handle_configmap_event cd now ns InitDone c = c"

definition pump_configmap_events ::
  "codecs \<Rightarrow> string \<Rightarrow> kube_configmap watch_stream \<Rightarrow> config_cache \<Rightarrow> (string + unit) \<times> config_cache" where
  "pump_configmap_events cd ns stream c =
     ((case ws_end stream of Ended \<Rightarrow> Inr () | Errored e \<Rightarrow> Inl e),
      foldl (\<lambda>c (now, ev). handle_configmap_event cd now ns ev c) c (ws_events stream))"

section \<open>Batching a relist changes nothing but the number of writes\<close>

text \<open>Routing a sequence of events, each with its clock reading.\<close>

definition route_all ::
  "(instant \<Rightarrow> 'o \<Rightarrow> 'm list \<Rightarrow> 'st \<Rightarrow> 'm list \<times> 'st) \<Rightarrow> ('m list \<Rightarrow> 'st \<Rightarrow> 'st) \<Rightarrow>
   (instant \<Rightarrow> 'o watch_event \<Rightarrow> 'st \<Rightarrow> 'st) \<Rightarrow> bool \<Rightarrow> (instant \<times> 'o watch_event) list \<Rightarrow>
   'm list option \<times> 'st \<Rightarrow> 'm list option \<times> 'st" where
  "route_all buf commit handle batch evs rs =
     foldl (\<lambda>rs (now, ev). route_relist_event (buf now) commit (handle now) batch ev rs) rs evs"

lemma route_all_simps [simp]:
  "route_all buf commit handle batch [] rs = rs"
  "route_all buf commit handle batch ((now, ev) # evs) rs =
     route_all buf commit handle batch evs
       (route_relist_event (buf now) commit (handle now) batch ev rs)"
  by (simp_all add: route_all_def)

text \<open>What the watch protocol promises: no live \<open>Apply\<close> between \<open>Init\<close> and \<open>InitDone\<close>. The second
  function tells whether the events end inside such a frame.\<close>

fun framed :: "bool \<Rightarrow> (instant \<times> 'o watch_event) list \<Rightarrow> bool" where
  "framed i [] = True"
| "framed i ((t, ev) # evs) = (case ev of
       Init \<Rightarrow> framed True evs | InitDone \<Rightarrow> framed False evs
     | Apply p \<Rightarrow> \<not> i \<and> framed i evs | _ \<Rightarrow> framed i evs)"

fun frame_open :: "bool \<Rightarrow> (instant \<times> 'o watch_event) list \<Rightarrow> bool" where
  "frame_open i [] = i"
| "frame_open i ((t, ev) # evs) = (case ev of
       Init \<Rightarrow> frame_open True evs | InitDone \<Rightarrow> frame_open False evs | _ \<Rightarrow> frame_open i evs)"

text \<open>The contract of the three closures: \<open>view\<close> is what others observe of the state, \<open>flush\<close> the
  effect of a pending buffer on it. Buffering an object and flushing later is handling it now.\<close>

locale relist_machine =
  fixes buf :: "instant \<Rightarrow> 'o \<Rightarrow> 'm list \<Rightarrow> 'st \<Rightarrow> 'm list \<times> 'st"
    and commit :: "'m list \<Rightarrow> 'st \<Rightarrow> 'st"
    and handle :: "instant \<Rightarrow> 'o watch_event \<Rightarrow> 'st \<Rightarrow> 'st"
    and view :: "'st \<Rightarrow> 'v"
    and flush :: "'m list \<Rightarrow> 'v \<Rightarrow> 'v"
  assumes flush_Nil: "flush [] v = v"
    and commit_flush: "view (commit b st) = flush b (view st)"
    and handle_view: "view st = view st' \<Longrightarrow> view (handle now ev st) = view (handle now ev st')"
    and buf_flush: "view st' = flush b (view st) \<Longrightarrow>
      view (handle now (InitApply p) st') =
        flush (fst (buf now p b st)) (view (snd (buf now p b st)))"
    and passive_flush: "view st' = flush b (view st) \<Longrightarrow>
      view (handle now (Delete p) st') = flush b (view (handle now (Delete p) st))"
    and markers: "handle now Init st = st" "handle now InitDone st = st"
begin

definition pending :: "'m list option \<times> 'st \<Rightarrow> 'v" where
  "pending rs = (case fst rs of None \<Rightarrow> view (snd rs) | Some b \<Rightarrow> flush b (view (snd rs)))"

lemma per_event_closed: "fst (route_all buf commit handle False evs (None, st)) = None"
  by (induction evs arbitrary: st) (auto simp: route_relist_event_def)

lemma step_agrees:
  assumes "pending rs = view st" "framed (fst rs \<noteq> None) ((now, ev) # evs)"
  defines "rs' \<equiv> route_relist_event (buf now) commit (handle now) True ev rs"
  shows "pending rs' = view (handle now ev st)" (is ?P)
    and "framed (fst rs' \<noteq> None) evs" (is ?F)
    and "frame_open (fst rs' \<noteq> None) evs = frame_open (fst rs \<noteq> None) ((now, ev) # evs)" (is ?O)
proof -
  obtain r s where rs: "rs = (r, s)"
    by (cases rs)
  have "?P \<and> ?F \<and> ?O"
  proof (cases r)
    case None
    then show ?thesis
      using assms(1,2) unfolding rs'_def rs
      by (cases ev) (auto simp: route_relist_event_def pending_def markers flush_Nil intro: handle_view)
  next
    case (Some b)
    have v: "view st = flush b (view s)"
      using assms(1) by (simp add: rs Some pending_def)
    show ?thesis
      using assms(2) v buf_flush [OF v] passive_flush [OF v] unfolding rs'_def rs Some
      by (cases ev) (auto simp: route_relist_event_def pending_def markers commit_flush
          split: prod.splits)
  qed
  then show ?P ?F ?O by auto
qed

lemma run_agrees:
  assumes "pending rs = view st" "framed (fst rs \<noteq> None) evs"
  shows "pending (route_all buf commit handle True evs rs) =
      view (snd (route_all buf commit handle False evs (None, st)))"
    and "fst (route_all buf commit handle True evs rs) \<noteq> None \<longleftrightarrow> frame_open (fst rs \<noteq> None) evs"
  using assms
proof (induction evs arbitrary: rs st)
  case Nil
  {
    case 1
    then show ?case by simp
  next
    case 2
    then show ?case by simp
  }
next
  case (Cons e evs)
  obtain now ev where e: "e = (now, ev)"
    by (cases e)
  have per: "route_relist_event (buf now) commit (handle now) False ev (None, st) =
      (None, handle now ev st)" for st
    by (simp add: route_relist_event_def)
  {
    case 1
    note step = step_agrees [OF 1(1) 1(2) [unfolded e]]
    show ?case
      using Cons.IH(1) [OF step(1,2)] by (simp add: e per)
  next
    case 2
    note step = step_agrees [OF 2(1) 2(2) [unfolded e]]
    show ?case
      using Cons.IH(2) [OF step(1,2)] step(3) by (simp only: e route_all_simps)
  }
qed

lemma batch_agrees:
  assumes "framed False evs" "\<not> frame_open False evs"
  shows "view (snd (route_all buf commit handle True evs (None, st))) =
    view (snd (route_all buf commit handle False evs (None, st)))"
proof -
  have p: "pending (None, st) = view st"
    by (simp add: pending_def)
  have "fst (route_all buf commit handle True evs (None, st)) = None"
    using run_agrees(2) [OF p, of evs] assms by (simp del: not_None_eq)
  then show ?thesis
    using run_agrees(1) [OF p, of evs] assms by (simp add: pending_def)
qed

end

definition config_buf where
  "config_buf cd now obj b (c :: config_cache) = (case parse_config_object cd now obj of
     Some s \<Rightarrow> (b @ [Upsert s], c) | None \<Rightarrow> (b, c))"

definition secret_buf where
  "secret_buf cd ns now sec b st = (case st of (c :: secret_cache, out) \<Rightarrow>
     (case parse_secret cd now ns sec of
        Some s \<Rightarrow> (b @ [Upsert s], (c, out @ [secret_event_of cd now Modified s]))
      | None \<Rightarrow> (b, (c, out))))"

definition secret_commit :: "secret_snapshot mutation list \<Rightarrow> secret_sink \<Rightarrow> secret_sink" where
  "secret_commit ms st = (case st of (c, out) \<Rightarrow> (snd (secret_cache_apply_batch ms c), out))"

lemma cc_inner_cow_update: "cc_inner (cow_update ce s c) = insert_snap ce s (cc_inner c)"
  by (simp add: cow_update_def Let_def)

interpretation config_relist: relist_machine "config_buf cd"
  "\<lambda>ms c. snd (config_cache_apply_batch ms c)" "handle_event cd" cc_inner
  "\<lambda>ms m. foldl (apply_mutation config_entry) m ms"
proof unfold_locales
  fix st st' :: config_cache and now ev
  assume "cc_inner st = cc_inner st'"
  then show "cc_inner (handle_event cd now ev st) = cc_inner (handle_event cd now ev st')"
    by (cases ev) (auto simp: config_cache_update_def cc_inner_cow_update split: option.splits)
qed (auto simp: config_cache_defs cc_inner_apply_batch config_buf_def cc_inner_cow_update
    split: option.splits)


interpretation secret_relist: relist_machine "secret_buf cd ns" secret_commit
  "\<lambda>now. handle_secret_event cd now ns" "\<lambda>st. (cc_inner (fst st), snd st)"
  "\<lambda>ms v. (foldl (apply_mutation secret_entry) (fst v) ms, snd v)"
proof unfold_locales
  fix st st' :: secret_sink and now ev
  assume "(cc_inner (fst st), snd st) = (cc_inner (fst st'), snd st')"
  then show "(cc_inner (fst (handle_secret_event cd now ns ev st)), snd (handle_secret_event cd now ns ev st)) =
      (cc_inner (fst (handle_secret_event cd now ns ev st')), snd (handle_secret_event cd now ns ev st'))"
    by (cases st; cases st'; cases ev)
      (auto simp: secret_cache_update_def cc_inner_cow_update split: option.splits)
qed (auto simp: secret_cache_defs cc_inner_apply_batch secret_buf_def secret_commit_def
    cc_inner_cow_update split: option.splits prod.splits)

lemma pump_config_loop_route_all:
  "fst (pump_config_loop cd t0 batch evs rs lea) =
     route_all (config_buf cd) (\<lambda>ms c. snd (config_cache_apply_batch ms c)) (handle_event cd) batch evs rs"
  by (induction cd t0 batch evs rs lea rule: pump_config_loop.induct)
    (simp_all add: route_config_event_def config_buf_def [abs_def])

lemma pump_secret_loop_route_all:
  "fst (pump_secret_loop cd t0 ns batch evs rs lea) =
     route_all (secret_buf cd ns) secret_commit (\<lambda>now. handle_secret_event cd now ns) batch evs rs"
proof -
  have "(\<lambda>ms (c, out). (snd (secret_cache_apply_batch ms c), out)) = secret_commit"
    by (intro ext) (simp add: secret_commit_def)
  moreover have "(\<lambda>sec b (c, out). (case parse_secret cd now ns sec of
        Some s \<Rightarrow> (b @ [Upsert s], (c, out @ [secret_event_of cd now Modified s]))
      | None \<Rightarrow> (b, (c, out)))) = secret_buf cd ns now" for now
    by (intro ext) (simp add: secret_buf_def)
  ultimately show ?thesis
    by (induction cd t0 ns batch evs rs lea rule: pump_secret_loop.induct)
      (simp_all add: route_secret_event_def)
qed

text \<open>The snapshots a sequence of events carries, and the newest one for a key.\<close>

definition stream_snapshots ::
  "codecs \<Rightarrow> (instant \<times> dynamic_object watch_event) list \<Rightarrow> config_snapshot list" where
  "stream_snapshots cd evs = List.map_filter (\<lambda>(now, ev). case ev of
     Apply obj \<Rightarrow> parse_config_object cd now obj | InitApply obj \<Rightarrow> parse_config_object cd now obj
   | _ \<Rightarrow> None) evs"

definition newest :: "config_snapshot list \<Rightarrow> string \<Rightarrow> string \<Rightarrow> config_snapshot option" where
  "newest ss ns nm = find (\<lambda>s. cs_namespace s = ns \<and> cs_name s = nm) (rev ss)"

lemma find_append: "find P (xs @ ys) = (case find P xs of Some x \<Rightarrow> Some x | None \<Rightarrow> find P ys)"
  by (induction xs) auto

lemma newest_Cons: "newest (s # ss) ns nm = (case newest ss ns nm of Some x \<Rightarrow> Some x
    | None \<Rightarrow> if cs_namespace s = ns \<and> cs_name s = nm then Some s else None)"
  by (simp add: newest_def find_append split: option.splits)

lemma stream_snapshots_Cons:
  "stream_snapshots cd ((now, ev) # evs) = (case ev of
     Apply obj \<Rightarrow> (case parse_config_object cd now obj of None \<Rightarrow> [] | Some s \<Rightarrow> [s])
   | InitApply obj \<Rightarrow> (case parse_config_object cd now obj of None \<Rightarrow> [] | Some s \<Rightarrow> [s])
   | _ \<Rightarrow> []) @ stream_snapshots cd evs"
  by (cases ev) (auto simp: stream_snapshots_def List.map_filter_simps split: option.splits)

lemma get_handle_event:
  "config_cache_get (handle_event cd now ev c) ns nm =
     (case newest (stream_snapshots cd [(now, ev)]) ns nm of
        Some s \<Rightarrow> Some s | None \<Rightarrow> config_cache_get c ns nm)"
  by (cases ev) (auto simp: stream_snapshots_Cons stream_snapshots_def List.map_filter_simps
      newest_def config_cache_defs config_entry_def split: option.splits)

lemma newest_append: "newest (ss @ ts) ns nm = (case newest ts ns nm of Some x \<Rightarrow> Some x
    | None \<Rightarrow> newest ss ns nm)"
  by (simp add: newest_def find_append split: option.split)

lemma stream_snapshots_append:
  "stream_snapshots cd (xs @ ys) = stream_snapshots cd xs @ stream_snapshots cd ys"
  by (simp add: stream_snapshots_def List.map_filter_def)

lemma get_route_all_per_event:
  "config_cache_get (snd (route_all (config_buf cd) (\<lambda>ms c. snd (config_cache_apply_batch ms c))
       (handle_event cd) False evs (None, c))) ns nm =
     (case newest (stream_snapshots cd evs) ns nm of
        Some s \<Rightarrow> Some s | None \<Rightarrow> config_cache_get c ns nm)"
proof (induction evs arbitrary: c)
  case Nil
  then show ?case
    by (simp add: stream_snapshots_def List.map_filter_simps newest_def)
next
  case (Cons e evs)
  obtain now ev where e: "e = (now, ev)"
    by (cases e)
  have "route_all (config_buf cd) (\<lambda>ms c. snd (config_cache_apply_batch ms c)) (handle_event cd)
      False (e # evs) (None, c) =
    route_all (config_buf cd) (\<lambda>ms c. snd (config_cache_apply_batch ms c)) (handle_event cd)
      False evs (None, handle_event cd now ev c)"
    by (simp add: e route_relist_event_def)
  with Cons show ?case
    using stream_snapshots_append [of cd "[e]" evs]
    by (simp add: get_handle_event newest_append e split: option.splits)
qed

lemma pump_config_events_split:
  "pump_config_events cd t0 batch stream c lea =
     (case ws_end stream of Ended \<Rightarrow> StreamEnded | Errored e \<Rightarrow> StreamErrored e,
      snd (route_all (config_buf cd) (\<lambda>ms c. snd (config_cache_apply_batch ms c)) (handle_event cd)
             batch (ws_events stream) (None, c)),
      snd (pump_config_loop cd t0 batch (ws_events stream) (None, c) lea))"
  using pump_config_loop_route_all [of cd t0 batch "ws_events stream" "(None, c)" lea]
  by (simp add: pump_config_events_def case_prod_beta)

lemma get_route_all_framed:
  assumes "batch \<Longrightarrow> framed False evs" "batch \<Longrightarrow> \<not> frame_open False evs"
  shows "config_cache_get (snd (route_all (config_buf cd) (\<lambda>ms c. snd (config_cache_apply_batch ms c))
       (handle_event cd) batch evs (None, c))) ns nm =
     (case newest (stream_snapshots cd evs) ns nm of
        Some s \<Rightarrow> Some s | None \<Rightarrow> config_cache_get c ns nm)"
proof (cases batch)
  case True
  with assms config_relist.batch_agrees [of evs cd c] show ?thesis
    using get_route_all_per_event [of cd evs c ns nm]
    by (simp add: config_cache_get_def cow_get_def)
next
  case False
  then show ?thesis by (simp add: get_route_all_per_event)
qed

section \<open>Nothing is ever dropped\<close>

text \<open>Routing never removes an entry: lookups that succeeded still succeed.\<close>

definition keys_kept :: "config_cache \<Rightarrow> config_cache \<Rightarrow> bool" where
  "keys_kept c c' \<longleftrightarrow> (\<forall>ns nm. config_cache_get c ns nm \<noteq> None \<longrightarrow> config_cache_get c' ns nm \<noteq> None)"

lemma keys_kept_refl [simp]: "keys_kept c c"
  by (simp add: keys_kept_def)

lemma keys_kept_trans: "keys_kept a b \<Longrightarrow> keys_kept b c \<Longrightarrow> keys_kept a c"
  by (simp add: keys_kept_def del: not_None_eq)

lemma keys_kept_update [simp]: "keys_kept c (config_cache_update s c)"
  by (auto simp: keys_kept_def config_cache_defs)

lemma keys_kept_handle_event: "keys_kept c (handle_event cd now ev c)"
  by (cases ev) (auto split: option.splits)

lemma keys_kept_mark_all_stale: "keys_kept c (config_cache_mark_all_stale t c)"
  by (auto simp: keys_kept_def config_cache_defs)

definition upserts_only :: "config_snapshot mutation list \<Rightarrow> bool" where
  "upserts_only ms \<longleftrightarrow> (\<forall>m \<in> set ms. \<exists>s. m = Upsert s)"

lemma keys_kept_upserts:
  assumes "upserts_only ms"
  shows "keys_kept c (snd (config_cache_apply_batch ms c))"
proof -
  have "hm_get m k \<noteq> None \<Longrightarrow> hm_get (foldl (apply_mutation config_entry) m ms) k \<noteq> None" for m k
    using assms
    by (induction ms arbitrary: m) (auto simp: upserts_only_def insert_snap_def)
  then show ?thesis
    by (simp add: keys_kept_def config_cache_defs cow_get_def cc_inner_apply_batch)
qed

lemma route_keeps:
  fixes cd now batch ev rs
  assumes "\<And>b. fst rs = Some b \<Longrightarrow> upserts_only b"
  defines "rs' \<equiv> route_relist_event (config_buf cd now)
      (\<lambda>ms c. snd (config_cache_apply_batch ms c)) (handle_event cd now) batch ev rs"
  shows "keys_kept (snd rs) (snd rs') \<and> (\<forall>b. fst rs' = Some b \<longrightarrow> upserts_only b)"
  using assms(1) unfolding rs'_def
  by (cases rs; cases "fst rs"; cases ev)
    (auto simp: route_relist_event_def config_buf_def keys_kept_handle_event keys_kept_upserts
      upserts_only_def split: option.splits)

lemma route_all_keeps:
  assumes "\<And>b. fst rs = Some b \<Longrightarrow> upserts_only b"
  shows "keys_kept (snd rs) (snd (route_all (config_buf cd)
      (\<lambda>ms c. snd (config_cache_apply_batch ms c)) (handle_event cd) batch evs rs))"
  using assms
proof (induction evs arbitrary: rs)
  case (Cons e evs)
  obtain now ev where e: "e = (now, ev)"
    by (cases e)
  let ?rs = "route_relist_event (config_buf cd now) (\<lambda>ms c. snd (config_cache_apply_batch ms c))
      (handle_event cd now) batch ev rs"
  have step: "keys_kept (snd rs) (snd ?rs) \<and> (\<forall>b. fst ?rs = Some b \<longrightarrow> upserts_only b)"
    by (rule route_keeps) (rule Cons.prems)
  then show ?case
    unfolding e route_all_simps using Cons.IH [of ?rs] keys_kept_trans by blast
qed simp

lemma watcher_run_keeps:
  "watcher_run cd t0 attempt conns c lea = (r, c', lea', ds) \<Longrightarrow> keys_kept c c'"
proof (induction cd t0 attempt conns c lea arbitrary: r c' lea' ds rule: watcher_run.induct)
  case (2 cd t0 attempt stream t conns c lea)
  define c1 where "c1 = fst (snd (pump_config_events cd t0 (0 < attempt) stream c lea))"
  have k: "keys_kept c c1"
    using route_all_keeps [of "(None, c)"] by (simp add: c1_def pump_config_events_split)
  show ?case
  proof (cases "ws_end stream")
    case Ended
    with "2.prems" k show ?thesis
      by (simp add: pump_config_events_split c1_def)
  next
    case (Errored e)
    with "2.prems" obtain ds' where
      "watcher_run cd t0 (saturating_add attempt 1) conns (config_cache_mark_all_stale t c1)
        (snd (snd (pump_config_events cd t0 (0 < attempt) stream c lea))) = (r, c', lea', ds')"
      by (auto simp: pump_config_events_split c1_def split: prod.splits)
    then have "keys_kept (config_cache_mark_all_stale t c1) c'"
      using "2.IH" [of "fst (pump_config_events cd t0 (0 < attempt) stream c lea)"
          "(c1, snd (snd (pump_config_events cd t0 (0 < attempt) stream c lea)))"] Errored
      by (simp add: pump_config_events_split c1_def)
    then show ?thesis
      using k keys_kept_mark_all_stale keys_kept_trans by blast
  qed
qed simp

lemma pump_secret_loop_stamp:
  "snd (pump_secret_loop cd t0 ns b evs rs lea) = snd (pump_secret_loop cd t0 ns b' evs rs' lea)"
proof (induction evs arbitrary: rs rs' lea)
  case (Cons e evs)
  then show ?case
    by (cases e) (simp only: pump_secret_loop.simps)
qed simp

text \<open>The schedule as a function of the attempt number.\<close>

definition schedule :: "nat \<Rightarrow> u64" where
  "schedule n = (if n = 0 then 1 else if n = 1 then 2 else if n = 2 then 4 else if n = 3 then 8
     else if n = 4 then 16 else 30)"

lemma backoff_delay_schedule_eq: "backoff_delay a = schedule (unat a)"
proof (cases "unat a < 6")
  case True
  then have "unat a = 0 \<or> unat a = 1 \<or> unat a = 2 \<or> unat a = 3 \<or> unat a = 4 \<or> unat a = 5"
    by arith
  then show ?thesis
    by (auto simp: backoff_delay_def BACKOFF_STEPS_SECS_def schedule_def)
next
  case False
  then show ?thesis
    by (simp add: backoff_delay_def BACKOFF_STEPS_SECS_def schedule_def)
qed

lemma schedule_props:
  "1 \<le> schedule n" "schedule n \<le> 30" "n \<le> m \<Longrightarrow> schedule n \<le> schedule m" "schedule n = 30 \<longleftrightarrow> 5 \<le> n"
  "unat (schedule n * 1000) = 1000 * unat (schedule n)"
  by (auto simp: schedule_def)

section \<open>Properties\<close>

text \<open>Property C10. After a watch connection, a lookup returns the newest snapshot the connection
  carried for that key, or what the cache held before if it carried none. This holds event by
  event, and equally when the relist of a reconnect is buffered and committed as one batch,
  provided the relist frames are closed and carry no live event.\<close>

theorem pump_config_newest_wins:
  assumes "batch \<Longrightarrow> framed False (ws_events stream)"
    and "batch \<Longrightarrow> \<not> frame_open False (ws_events stream)"
  shows "config_cache_get (fst (snd (pump_config_events cd t0 batch stream c lea))) ns nm =
    (case newest (stream_snapshots cd (ws_events stream)) ns nm of
       Some s \<Rightarrow> Some s | None \<Rightarrow> config_cache_get c ns nm)"
  using get_route_all_framed [OF assms] by (simp add: pump_config_events_split)

definition demo_stream :: "dynamic_object watch_stream" where
  "demo_stream = \<lparr>ws_events = [(1, Init), (2, InitApply (demo_object ''a'' 1 ''10'')),
     (3, InitApply (demo_object ''a'' 2 ''11'')), (4, InitDone), (5, Delete (demo_object ''a'' 2 ''12''))],
     ws_end = Errored ''gone''\<rparr>"

lemmas demo_stream_simps = demo_stream_def demo_codecs_def demo_object_def stream_snapshots_def
  parse_config_object_def newest_def from_spec_def List.map_filter_simps

theorem pump_config_newest_wins_witness:
  "map_option cs_schema_version (config_cache_get
     (fst (snd (pump_config_events demo_codecs 0 True demo_stream (with_capacity ''config'' 0) 0)))
     ''ns'' ''a'') = Some 2"
  using pump_config_newest_wins [of True demo_stream demo_codecs 0 "with_capacity ''config'' 0" 0
      "''ns''" "''a''"]
  by (simp add: demo_stream_simps)


definition demo_secret_stream :: "kube_secret watch_stream" where
  "demo_secret_stream = \<lparr>ws_events = [(1, Init), (2, InitApply (demo_secret ''a'')),
     (4, InitDone), (5, Apply (demo_secret ''b''))], ws_end = Ended\<rparr>"


text \<open>Property C15. The Config watcher keeps the last-known-good value through everything: whatever
  events, malformed objects, deletions, relists, stream errors and reconnects occur, every key
  that could be looked up before can still be looked up.\<close>

theorem watcher_retains_last_known_good:
  assumes "watcher_run cd t0 attempt conns c lea = (returned, c', lea', delays)"
    and "config_cache_get c ns nm = Some s"
  shows "\<exists>s'. config_cache_get c' ns nm = Some s'"
  using watcher_run_keeps [OF assms(1)] assms(2) by (auto simp: keys_kept_def)

definition demo_config :: config_snapshot where
  "demo_config = from_spec 0 ''a'' ''ns'' \<lparr>spec_schema_version = 1, spec_content = JNull\<rparr> ''7''"

lemma demo_config_get: "config_cache_get (config_cache_new demo_config) ''ns'' ''a'' = Some demo_config"
  by (simp add: demo_config_def config_cache_new_def from_map_def config_cache_defs cow_get_def
      from_spec_def)

theorem watcher_retains_last_known_good_witness:
  "\<exists>s'. config_cache_get (fst (snd (watcher_run demo_codecs 0 0 [(demo_stream, 9)]
     (config_cache_new demo_config) 0))) ''ns'' ''a'' = Some s'"
proof -
  obtain r c' l ds where run:
    "watcher_run demo_codecs 0 0 [(demo_stream, 9)] (config_cache_new demo_config) 0 = (r, c', l, ds)"
    by (cases "watcher_run demo_codecs 0 0 [(demo_stream, 9)] (config_cache_new demo_config) 0")
  from watcher_retains_last_known_good [OF run demo_config_get] run show ?thesis
    by (simp del: watcher_run.simps)
qed

text \<open>A connection that breaks leaves every entry marked stale as of that moment, the
  loop has not returned, and it sleeps the delay of this attempt; a connection that ends cleanly
  ends the loop at once and marks nothing.\<close>

lemma watcher_run_error_marks_stale:
  assumes "watcher_run cd t0 attempt [(stream, t)] c lea = (returned, c', lea', delays)"
  shows "(case ws_end stream of
     Ended \<Rightarrow> returned \<and> delays = [] \<and> c' = fst (snd (pump_config_events cd t0 (0 < attempt) stream c lea))
   | Errored e \<Rightarrow> \<not> returned \<and> delays = [backoff_delay attempt] \<and>
       (\<forall>ns nm s. config_cache_get c' ns nm = Some s \<longrightarrow> cs_stale_since s = Some t))"
  using assms
  by (cases "ws_end stream")
    (auto simp: pump_config_events_split config_cache_defs dest: config_cache.all_stale)

text \<open>The reconnect delay is between 1 and 30 seconds, never decreases from one
  attempt to the next, is 30 seconds from the sixth attempt on, and the backoff reported with an
  attempt is the sleep that preceded it, in milliseconds without wrap-around.\<close>

lemma backoff_delay_schedule:
  "1 \<le> backoff_delay a \<and> backoff_delay a \<le> 30 \<and>
   backoff_delay a \<le> backoff_delay (saturating_add a 1) \<and>
   (backoff_delay a = 30 \<longleftrightarrow> 5 \<le> a) \<and>
   unat (preceding_backoff_ms a) = (if a = 0 then 0 else 1000 * unat (backoff_delay (a - 1)))"
proof -
  have "unat a \<le> unat (saturating_add a 1)"
    using unsigned_less [of a, where 'a = nat] by (simp add: unat_saturating_add)
  then have "backoff_delay a \<le> backoff_delay (saturating_add a 1)"
    by (simp add: backoff_delay_schedule_eq schedule_props(3))
  moreover have "unat (preceding_backoff_ms a) =
      (if a = 0 then 0 else 1000 * unat (backoff_delay (a - 1)))"
    by (simp add: preceding_backoff_ms_def backoff_delay_schedule_eq schedule_props(5))
  moreover have "backoff_delay a = 30 \<longleftrightarrow> 5 \<le> a"
    by (simp add: backoff_delay_schedule_eq schedule_props(4) word_le_nat_alt)
  ultimately show ?thesis
    by (simp add: backoff_delay_schedule_eq schedule_props(1,2))
qed

end
