(* ===== verification/Object_Mirror.thy ===== *)
theory Object_Mirror
  imports Watchers
begin

text \<open>
  The structure shared by the policy watchers (\<open>acl.rs\<close>, \<open>quota.rs\<close>): a running mirror of the live
  custom resources, rebuilt into a published table on every mutating event, and a flag raised when
  the first list completes. The contract of an event handler is a locale; its lemma says that the
  mirror holds for every object name what the newest event of that name decided.
\<close>

record 't watched =
  wt_table :: 't
  wt_synced :: bool

definition object_key :: "dynamic_object \<Rightarrow> string" where
  "object_key obj = unwrap_or_default (meta_name (obj_metadata obj))"

text \<open>The loop of a pump over the events of one connection.\<close>

fun pump_mirror ::
  "('ev \<Rightarrow> 'm \<times> bool \<Rightarrow> bool \<times> 'm \<times> bool) \<Rightarrow> ('m \<Rightarrow> 't) \<Rightarrow> 'ev list \<Rightarrow> 'm \<Rightarrow> 't watched \<Rightarrow>
   'm \<times> 't watched" where
  "pump_mirror handle publish [] objects st = (objects, st)"
| "pump_mirror handle publish (ev # evs) objects st =
     (case handle ev (objects, wt_synced st) of (changed, objects', synced') \<Rightarrow>
        pump_mirror handle publish evs objects'
          (if changed then st\<lparr>wt_synced := synced', wt_table := publish objects'\<rparr>
           else st\<lparr>wt_synced := synced'\<rparr>))"

text \<open>The reconnect loop of \<open>AclWatcher::run\<close> and \<open>QuotaWatcher::run\<close>, over the connections the API
  server serves; an exhausted list is a watcher waiting for its next connection.\<close>

fun mirror_run ::
  "('c \<Rightarrow> 'st \<Rightarrow> pump_outcome \<times> 'st) \<Rightarrow> usize \<Rightarrow> 'c list \<Rightarrow> 'st \<Rightarrow> bool \<times> 'st \<times> u64 list" where
  "mirror_run pump attempt [] st = (False, st, [])"
| "mirror_run pump attempt (conn # conns) st =
     (case pump conn st of (out, st') \<Rightarrow>
        (case out of
           StreamEnded \<Rightarrow> (True, st', [])
         | StreamErrored e \<Rightarrow>
             (case mirror_run pump (saturating_add attempt 1) conns st' of
                (r, st'', ds) \<Rightarrow> (r, st'', backoff_delay attempt # ds))))"

definition stream_outcome :: "stream_end \<Rightarrow> pump_outcome" where
  "stream_outcome e = (case e of Ended \<Rightarrow> StreamEnded | Errored m \<Rightarrow> StreamErrored m)"

text \<open>The live object of a name after a sequence of events.\<close>

fun live_step ::
  "(dynamic_object \<Rightarrow> 'e option) \<Rightarrow> string \<Rightarrow> 'e option \<Rightarrow> dynamic_object watch_event \<Rightarrow> 'e option" where
  "live_step parse key cur (Apply obj) = (if object_key obj = key then parse obj else cur)"
| "live_step parse key cur (InitApply obj) = (if object_key obj = key then parse obj else cur)"
| "live_step parse key cur (Delete obj) = (if object_key obj = key then None else cur)"
| "live_step parse key cur Init = cur"
| "live_step parse key cur InitDone = cur"

definition live ::
  "(dynamic_object \<Rightarrow> 'e option) \<Rightarrow> dynamic_object watch_event list \<Rightarrow> string \<Rightarrow> 'e option" where
  "live parse evs key = foldl (live_step parse key) None evs"

fun mutating :: "'o watch_event \<Rightarrow> bool" where
  "mutating (Apply obj) = True"
| "mutating (InitApply obj) = True"
| "mutating (Delete obj) = True"
| "mutating Init = False"
| "mutating InitDone = False"

locale mirror_handler =
  fixes handle :: "dynamic_object watch_event \<Rightarrow> (string, 'e) hmap \<times> bool \<Rightarrow>
      bool \<times> (string, 'e) hmap \<times> bool"
    and parse :: "dynamic_object \<Rightarrow> 'e option"
  assumes changed: "fst (handle ev (objects, sy)) = mutating ev"
    and mirror: "hm_get (fst (snd (handle ev (objects, sy)))) key =
      live_step parse key (hm_get objects key) ev"
    and wf: "hm_wf objects \<Longrightarrow> hm_wf (fst (snd (handle ev (objects, sy))))"
    and synced: "snd (snd (handle ev (objects, sy))) = (sy \<or> ev = InitDone)"
    and unchanged: "\<not> mutating ev \<Longrightarrow> fst (snd (handle ev (objects, sy))) = objects"
begin

lemma pump_spec:
  assumes "hm_wf objects"
  shows "hm_wf (fst (pump_mirror handle publish evs objects st)) \<and>
    (\<forall>key. hm_get (fst (pump_mirror handle publish evs objects st)) key =
       foldl (live_step parse key) (hm_get objects key) evs) \<and>
    wt_table (snd (pump_mirror handle publish evs objects st)) =
      (if list_ex mutating evs then publish (fst (pump_mirror handle publish evs objects st))
       else wt_table st) \<and>
    (\<not> list_ex mutating evs \<longrightarrow> fst (pump_mirror handle publish evs objects st) = objects) \<and>
    wt_synced (snd (pump_mirror handle publish evs objects st)) = (wt_synced st \<or> InitDone \<in> set evs)"
  using assms
proof (induction evs arbitrary: objects st)
  case (Cons ev evs)
  obtain ch obs sy where h: "handle ev (objects, wt_synced st) = (ch, obs, sy)"
    by (cases "handle ev (objects, wt_synced st)")
  have hs: "ch = mutating ev" "\<And>key. hm_get obs key = live_step parse key (hm_get objects key) ev"
      "hm_wf obs" "sy = (wt_synced st \<or> ev = InitDone)" "\<not> mutating ev \<Longrightarrow> obs = objects"
    using changed [of ev objects "wt_synced st"] mirror [of ev objects "wt_synced st"]
      wf [of objects ev "wt_synced st"] synced [of ev objects "wt_synced st"]
      unchanged [of ev objects "wt_synced st"] Cons.prems
    by (simp_all add: h)
  let ?st = "if ch then st\<lparr>wt_synced := sy, wt_table := publish obs\<rparr> else st\<lparr>wt_synced := sy\<rparr>"
  have run: "pump_mirror handle publish (ev # evs) objects st = pump_mirror handle publish evs obs ?st"
    by (simp add: h)
  note IH = Cons.IH [OF hs(3), of ?st]
  have st: "wt_synced ?st = (wt_synced st \<or> ev = InitDone)"
    "wt_table ?st = (if mutating ev then publish obs else wt_table st)"
    using hs(1,4) by auto
  show ?case
    unfolding run using IH st hs(2,5) by (auto simp: hs(1))
qed simp

text \<open>One connection, which starts from an empty mirror.\<close>

lemma connection:
  fixes publish evs st
  defines "res \<equiv> pump_mirror handle publish evs [] st"
  shows "hm_wf (fst res)"
    and "hm_get (fst res) key = live parse evs key"
    and "wt_table (snd res) = (if list_ex mutating evs then publish (fst res) else wt_table st)"
    and "wt_synced (snd res) = (wt_synced st \<or> InitDone \<in> set evs)"
  using pump_spec [of "[]" publish evs st] by (simp_all add: res_def live_def)

end

end
