(* ===== verification/Acl_Authz.thy ===== *)
theory Acl_Authz
  imports Object_Mirror
begin

text \<open>
  Authorization: the identity taken from the client certificate (\<open>grpc/identity.rs\<close>), the ACL
  table and the watcher that rebuilds it (\<open>acl.rs\<close>), and the decision function every handler calls
  (\<open>grpc/authz.rs\<close>). X.509 parsing and the decoding of a \<open>ConfigACL\<close> spec are parameters.
\<close>

section \<open>Client identity\<close>

record client_identity =
  ci_id :: string
  ci_anonymous :: bool

definition ANONYMOUS :: string where
  "ANONYMOUS = ''anonymous''"

definition identity_anonymous :: client_identity where
  "identity_anonymous = \<lparr>ci_id = ANONYMOUS, ci_anonymous = True\<rparr>"

definition identity_named :: "string \<Rightarrow> client_identity" where
  "identity_named s = \<lparr>ci_id = s, ci_anonymous = False\<rparr>"

text \<open>What \<open>x509_parser\<close> reports of a certificate: the general names of its SAN extension (\<open>None\<close>
  when absent or malformed), and its common names (\<open>None\<close> for one that is not a string).\<close>

datatype general_name = URI string | OtherName

record x509_cert =
  cert_san :: "general_name list option"
  cert_common_names :: "string option list"

fun first_uri :: "general_name list \<Rightarrow> string option" where
  "first_uri [] = None"
| "first_uri (URI u # ns) = (if trim u \<noteq> [] then Some (trim u) else first_uri ns)"
| "first_uri (OtherName # ns) = first_uri ns"

definition identity_from_der :: "(string \<Rightarrow> x509_cert option) \<Rightarrow> string \<Rightarrow> client_identity" where
  "identity_from_der parse_x509 der = (case parse_x509 der of
       None \<Rightarrow> identity_anonymous
     | Some cert \<Rightarrow>
         (case Option.bind (cert_san cert) first_uri of
            Some u \<Rightarrow> identity_named u
          | None \<Rightarrow> (case cert_common_names cert of
              Some cn # _ \<Rightarrow> if trim cn \<noteq> [] then identity_named (trim cn) else identity_anonymous
            | _ \<Rightarrow> identity_anonymous)))"

definition extract_identity ::
  "(string \<Rightarrow> x509_cert option) \<Rightarrow> string list option \<Rightarrow> client_identity" where
  "extract_identity parse_x509 peer_certs = (case peer_certs of
       None \<Rightarrow> identity_anonymous
     | Some [] \<Rightarrow> identity_anonymous
     | Some (leaf # _) \<Rightarrow> identity_from_der parse_x509 leaf)"

section \<open>Verbs, modes and patterns\<close>

datatype verb = Read | Write

fun verb_as_str :: "verb \<Rightarrow> string" where
  "verb_as_str Read = ''read''"
| "verb_as_str Write = ''write''"

definition verb_parse :: "string \<Rightarrow> verb option" where
  "verb_parse s = (let t = to_ascii_lowercase (trim s)
     in if t = ''read'' then Some Read else if t = ''write'' then Some Write else None)"

datatype authz_mode = Disabled | Permissive | Enforce

definition authz_mode_parse :: "string \<Rightarrow> authz_mode" where
  "authz_mode_parse s = (let t = to_ascii_lowercase (trim s)
     in if t = ''permissive'' then Permissive else if t = ''enforce'' then Enforce else Disabled)"

definition authz_mode_from_env :: "string option \<Rightarrow> authz_mode" where
  "authz_mode_from_env var = (case var of Some v \<Rightarrow> authz_mode_parse v | None \<Rightarrow> Disabled)"

definition segment_matches :: "string \<Rightarrow> string \<Rightarrow> bool" where
  "segment_matches pat v \<longleftrightarrow> pat = ''*'' \<or> pat = v"

definition pattern_matches :: "string \<Rightarrow> string \<Rightarrow> string \<Rightarrow> bool" where
  "pattern_matches pattern ns nm = (case split_once (CHR ''/'') pattern of
       None \<Rightarrow> False
     | Some (pat_ns, pat_name) \<Rightarrow> segment_matches pat_ns ns \<and> segment_matches pat_name nm)"

section \<open>ACL table\<close>

record acl_rule =
  rule_verbs :: "verb list"
  rule_patterns :: "string list"

definition rule_grants :: "acl_rule \<Rightarrow> verb \<Rightarrow> string \<Rightarrow> string \<Rightarrow> bool" where
  "rule_grants r v ns nm \<longleftrightarrow>
     v \<in> set (rule_verbs r) \<and> list_ex (\<lambda>p. pattern_matches p ns nm) (rule_patterns r)"

record rule_spec =
  rspec_verbs :: "string list"
  rspec_patterns :: "string list"

record acl_spec =
  aspec_identity :: string
  aspec_rules :: "rule_spec list"

definition lower :: "rule_spec \<Rightarrow> acl_rule option" where
  "lower rs =
     (let verbs = List.map_filter verb_parse (rspec_verbs rs);
          patterns = filter (\<lambda>p. CHR ''/'' \<in> set p) (rspec_patterns rs)
      in if verbs = [] \<or> patterns = [] then None
         else Some \<lparr>rule_verbs = verbs, rule_patterns = patterns\<rparr>)"

type_synonym acl_table = "(string, acl_rule list) hmap"

definition acl_grants :: "acl_table \<Rightarrow> string \<Rightarrow> verb \<Rightarrow> string \<Rightarrow> string \<Rightarrow> bool" where
  "acl_grants table ident v ns nm = (case hm_get table ident of
       Some rules \<Rightarrow> list_ex (\<lambda>r. rule_grants r v ns nm) rules
     | None \<Rightarrow> False)"

definition identity_count :: "acl_table \<Rightarrow> nat" where
  "identity_count table = length table"

section \<open>ACL watcher\<close>

record acl_entry =
  ae_identity :: string
  ae_rules :: "acl_rule list"

type_synonym acl_decoder = "json \<Rightarrow> string + acl_spec"

definition parse_acl_object :: "acl_decoder \<Rightarrow> dynamic_object \<Rightarrow> acl_entry option" where
  "parse_acl_object dec obj = (case json_get ''spec'' (obj_data obj) of None \<Rightarrow> None
     | Some v \<Rightarrow> (case dec v of Inl _ \<Rightarrow> None
       | Inr spec \<Rightarrow>
           let ident = trim (aspec_identity spec)
           in if ident = [] then None
              else Some \<lparr>ae_identity = ident, ae_rules = List.map_filter lower (aspec_rules spec)\<rparr>))"

text \<open>The mirror of live objects and the sync flag; the result says whether to publish.\<close>

type_synonym acl_mirror = "(string, acl_entry) hmap"

definition acl_apply :: "acl_decoder \<Rightarrow> dynamic_object \<Rightarrow> acl_mirror \<Rightarrow> acl_mirror" where
  "acl_apply dec obj objects = (case parse_acl_object dec obj of
       Some entry \<Rightarrow> hm_insert (object_key obj) entry objects
     | None \<Rightarrow> hm_remove (object_key obj) objects)"

fun handle_acl_event ::
  "acl_decoder \<Rightarrow> dynamic_object watch_event \<Rightarrow> acl_mirror \<times> bool \<Rightarrow> bool \<times> acl_mirror \<times> bool" where
  "handle_acl_event dec (Apply obj) (objects, synced) = (True, acl_apply dec obj objects, synced)"
| "handle_acl_event dec (InitApply obj) (objects, synced) = (True, acl_apply dec obj objects, synced)"
| "handle_acl_event dec (Delete obj) (objects, synced) = (True, hm_remove (object_key obj) objects, synced)"
| "handle_acl_event dec Init (objects, synced) = (False, objects, synced)"
| "handle_acl_event dec InitDone (objects, synced) = (False, objects, True)"

definition acl_add :: "acl_table \<Rightarrow> acl_entry \<Rightarrow> acl_table" where
  "acl_add next_map e =
     hm_insert (ae_identity e)
       ((case hm_get next_map (ae_identity e) of None \<Rightarrow> [] | Some rs \<Rightarrow> rs) @ ae_rules e) next_map"

definition acl_publish :: "acl_mirror \<Rightarrow> acl_table" where
  "acl_publish objects = foldl acl_add [] (hm_values objects)"

definition pump_acl_events ::
  "acl_decoder \<Rightarrow> dynamic_object watch_stream \<Rightarrow> acl_table watched \<Rightarrow> pump_outcome \<times> acl_table watched" where
  "pump_acl_events dec stream st =
     (stream_outcome (ws_end stream),
      snd (pump_mirror (handle_acl_event dec) acl_publish (map snd (ws_events stream)) [] st))"

definition acl_run ::
  "acl_decoder \<Rightarrow> dynamic_object watch_stream list \<Rightarrow> acl_table watched \<Rightarrow>
   bool \<times> acl_table watched \<times> u64 list" where
  "acl_run dec conns st = mirror_run (pump_acl_events dec) 0 conns st"

section \<open>Decision\<close>

definition unsynced_status :: status where
  "unsynced_status = Status Unavailable (''authorization cache not yet synced '' @ emdash @ '' retry shortly'')"

definition denial_status :: "client_identity \<Rightarrow> verb \<Rightarrow> string \<Rightarrow> string \<Rightarrow> status" where
  "denial_status ident v ns nm =
     Status PermissionDenied (''identity '' @ [CHR 0x27] @ ci_id ident @ [CHR 0x27] @ '' not authorized for '' @
       verb_as_str v @ '' '' @ ns @ ''/'' @ nm)"

definition authz_check ::
  "authz_mode \<Rightarrow> acl_table \<Rightarrow> bool \<Rightarrow> client_identity \<Rightarrow> verb \<Rightarrow> string \<Rightarrow> string \<Rightarrow> unit rpc" where
  "authz_check mode table synced ident v ns nm =
     (if mode = Disabled then Inr ()
      else if mode = Enforce \<and> \<not> synced then Inl unsynced_status
      else if \<not> ci_anonymous ident \<and> acl_grants table (ci_id ident) v ns nm then Inr ()
      else (case mode of
              Permissive \<Rightarrow> Inr ()
            | Enforce \<Rightarrow> Inl (denial_status ident v ns nm)
            | Disabled \<Rightarrow> Inr ()))"

section \<open>Lemmas\<close>

lemma pattern_matches_iff:
  "pattern_matches p ns nm \<longleftrightarrow>
     (\<exists>pns pnm. p = pns @ CHR ''/'' # pnm \<and> CHR ''/'' \<notin> set pns \<and>
        (pns = ''*'' \<or> pns = ns) \<and> (pnm = ''*'' \<or> pnm = nm))"
proof (cases "split_once (CHR ''/'') p")
  case None
  then have "CHR ''/'' \<notin> set p"
    by (simp add: split_once_None_iff)
  with None show ?thesis
    by (auto simp: pattern_matches_def)
next
  case (Some ab)
  then obtain a b where ab: "ab = (a, b)" "p = a @ CHR ''/'' # b" "CHR ''/'' \<notin> set a"
    by (cases ab) (auto simp: split_once_Some_iff)
  have "\<And>c d. p = c @ CHR ''/'' # d \<and> CHR ''/'' \<notin> set c \<longleftrightarrow> c = a \<and> d = b"
    using ab append_sep_inject [of "CHR ''/''"] by blast
  with Some ab show ?thesis
    by (simp add: pattern_matches_def segment_matches_def) blast
qed

text \<open>What the entries of a list grant, together.\<close>

definition entry_grants :: "acl_entry \<Rightarrow> string \<Rightarrow> verb \<Rightarrow> string \<Rightarrow> string \<Rightarrow> bool" where
  "entry_grants e ident v ns nm \<longleftrightarrow>
     ae_identity e = ident \<and> (\<exists>r \<in> set (ae_rules e). rule_grants r v ns nm)"

lemma acl_grants_Nil: "\<not> acl_grants [] ident v ns nm"
  by (simp add: acl_grants_def)

lemma acl_grants_add:
  "acl_grants (acl_add t e) ident v ns nm \<longleftrightarrow>
     acl_grants t ident v ns nm \<or> entry_grants e ident v ns nm"
  by (auto simp: acl_grants_def acl_add_def entry_grants_def list_ex_iff split: option.splits)

lemma acl_grants_foldl_add:
  "acl_grants (foldl acl_add t es) ident v ns nm \<longleftrightarrow>
     acl_grants t ident v ns nm \<or> (\<exists>e \<in> set es. entry_grants e ident v ns nm)"
  by (induction es arbitrary: t) (auto simp: acl_grants_add)

lemma acl_grants_publish:
  "hm_wf objects \<Longrightarrow> acl_grants (acl_publish objects) ident v ns nm \<longleftrightarrow>
     (\<exists>key e. hm_get objects key = Some e \<and> entry_grants e ident v ns nm)"
  by (simp add: acl_publish_def acl_grants_foldl_add acl_grants_Nil Bex_def hm_values_iff) blast

interpretation acl_mirror: mirror_handler "handle_acl_event dec" "parse_acl_object dec"
proof unfold_locales
  fix ev :: "dynamic_object watch_event" and objects :: acl_mirror and sy :: bool
  show "fst (handle_acl_event dec ev (objects, sy)) = mutating ev"
    by (cases ev) auto
  show "hm_get (fst (snd (handle_acl_event dec ev (objects, sy)))) key =
      live_step (parse_acl_object dec) key (hm_get objects key) ev" for key
    by (cases ev) (auto simp: acl_apply_def split: option.splits)
  show "hm_wf objects \<Longrightarrow> hm_wf (fst (snd (handle_acl_event dec ev (objects, sy))))"
    by (cases ev) (auto simp: acl_apply_def split: option.splits)
  show "snd (snd (handle_acl_event dec ev (objects, sy))) = (sy \<or> ev = InitDone)"
    by (cases ev) auto
  show "\<not> mutating ev \<Longrightarrow> fst (snd (handle_acl_event dec ev (objects, sy))) = objects"
    by (cases ev) auto
qed

lemma acl_grants_after_connection:
  "acl_grants (wt_table (snd (pump_acl_events dec stream st))) ident v ns nm \<longleftrightarrow>
     (if list_ex mutating (map snd (ws_events stream))
      then \<exists>key e. live (parse_acl_object dec) (map snd (ws_events stream)) key = Some e \<and>
        entry_grants e ident v ns nm
      else acl_grants (wt_table st) ident v ns nm)"
  using acl_mirror.connection [where dec = dec and publish = acl_publish
      and evs = "map snd (ws_events stream)" and st = st]
  by (simp add: pump_acl_events_def acl_grants_publish)

lemma acl_synced_after_connection:
  "wt_synced (snd (pump_acl_events dec stream st)) \<longleftrightarrow>
     wt_synced st \<or> InitDone \<in> snd ` set (ws_events stream)"
  using acl_mirror.connection(4) [of dec acl_publish "map snd (ws_events stream)" st]
  by (simp add: pump_acl_events_def)

text \<open>A named identity is never blank, and only the fallback is marked anonymous.\<close>

lemma first_uri_ne: "first_uri ns = Some u \<Longrightarrow> u \<noteq> []"
  by (induction ns rule: first_uri.induct) (auto split: if_splits)

lemma extract_identity_cases:
  "extract_identity px certs = identity_anonymous \<or>
     (\<exists>s. s \<noteq> [] \<and> extract_identity px certs = identity_named s)"
  by (auto simp: extract_identity_def identity_from_der_def dest: first_uri_ne
      split: option.splits list.splits bind_splits)

section \<open>Properties\<close>

text \<open>Property C6. In enforce mode a call is allowed exactly when the ACL cache has synced, the
  caller is not anonymous, and the table holds a rule for the caller's identity that lists the
  verb and a pattern \<open>ns/name\<close> whose two segments are each the wildcard or the exact value.\<close>

theorem authz_enforce_exact:
  "authz_check Enforce table synced ident v ns nm = Inr () \<longleftrightarrow>
     synced \<and> \<not> ci_anonymous ident \<and>
     (\<exists>rules r pns pnm. hm_get table (ci_id ident) = Some rules \<and> r \<in> set rules \<and>
        v \<in> set (rule_verbs r) \<and> (pns @ CHR ''/'' # pnm) \<in> set (rule_patterns r) \<and>
        CHR ''/'' \<notin> set pns \<and> (pns = ''*'' \<or> pns = ns) \<and> (pnm = ''*'' \<or> pnm = nm))"
proof -
  have "acl_grants table (ci_id ident) v ns nm \<longleftrightarrow>
     (\<exists>rules r pns pnm. hm_get table (ci_id ident) = Some rules \<and> r \<in> set rules \<and>
        v \<in> set (rule_verbs r) \<and> (pns @ CHR ''/'' # pnm) \<in> set (rule_patterns r) \<and>
        CHR ''/'' \<notin> set pns \<and> (pns = ''*'' \<or> pns = ns) \<and> (pnm = ''*'' \<or> pnm = nm))"
    by (auto simp: acl_grants_def rule_grants_def list_ex_iff pattern_matches_iff split: option.splits)
  then show ?thesis
    by (simp add: authz_check_def)
qed

text \<open>Errors of the decision: disabled and permissive modes never refuse; enforce mode
  refuses with UNAVAILABLE before the first sync and with PERMISSION_DENIED after it; and what a
  denied caller is told is the same whatever the table holds, so denials cannot be used to
  enumerate the policy.\<close>

lemma authz_refusals:
  "authz_check Disabled table synced ident v ns nm = Inr () \<and>
   authz_check Permissive table synced ident v ns nm = Inr () \<and>
   authz_check Enforce table False ident v ns nm = Inl unsynced_status \<and>
   st_code unsynced_status = Unavailable \<and>
   st_code (denial_status ident v ns nm) = PermissionDenied \<and>
   authz_check Enforce table True ident v ns nm \<in> {Inr (), Inl (denial_status ident v ns nm)}"
  by (simp add: authz_check_def unsynced_status_def denial_status_def)


text \<open>A reconnect does not retain the last-known-good policy while it relists: after
  the first object of the new list, whatever the table held before is gone and only that object
  grants, although the sync flag stays up, so enforce mode denies the others meanwhile.\<close>

lemma acl_relist_forgets_previous_table:
  "(acl_grants (wt_table (snd (pump_acl_events dec
       \<lparr>ws_events = [(t, Init), (t', InitApply obj)], ws_end = e\<rparr> st))) ident v ns nm \<longleftrightarrow>
     (\<exists>entry. parse_acl_object dec obj = Some entry \<and> entry_grants entry ident v ns nm)) \<and>
   wt_synced (snd (pump_acl_events dec
       \<lparr>ws_events = [(t, Init), (t', InitApply obj)], ws_end = e\<rparr> st)) = wt_synced st"
  by (auto simp: acl_grants_after_connection acl_synced_after_connection live_def split: if_splits)

end
