(* ===== verification/Quota.thy ===== *)
theory Quota
  imports Acl_Authz
begin

text \<open>
  Tenant quotas (\<open>quota.rs\<close>): the budget table and its watcher, the effective limits, the
  per-identity subscriber counts with their RAII guards, and the apply token bucket on binary64
  tokens.
\<close>

section \<open>Modes and budgets\<close>

datatype quota_mode = QDisabled | QPermissive | QEnforce

definition quota_mode_parse :: "string \<Rightarrow> quota_mode" where
  "quota_mode_parse s = (let t = to_ascii_lowercase (trim s)
     in if t = ''permissive'' then QPermissive else if t = ''enforce'' then QEnforce else QDisabled)"

definition quota_mode_from_env :: "string option \<Rightarrow> quota_mode" where
  "quota_mode_from_env var = (case var of Some v \<Rightarrow> quota_mode_parse v | None \<Rightarrow> QDisabled)"

record tenant_quota =
  max_subscribers :: u32
  max_applies_per_second :: u32
  max_applies_burst :: u32
  cache_memory_budget_bytes :: u64

definition tighter :: "'a::len word \<Rightarrow> 'a word \<Rightarrow> 'a word" where
  "tighter a b = (if a = 0 then b else if b = 0 then a else min a b)"

definition most_restrictive :: "tenant_quota \<Rightarrow> tenant_quota \<Rightarrow> tenant_quota" where
  "most_restrictive q p =
     \<lparr>max_subscribers = tighter (max_subscribers q) (max_subscribers p),
      max_applies_per_second = tighter (max_applies_per_second q) (max_applies_per_second p),
      max_applies_burst = tighter (max_applies_burst q) (max_applies_burst p),
      cache_memory_budget_bytes = tighter (cache_memory_budget_bytes q) (cache_memory_budget_bytes p)\<rparr>"

record quota_spec =
  qs_identity :: string
  qs_quota :: tenant_quota

type_synonym quota_decoder = "json \<Rightarrow> string + quota_spec"
type_synonym quota_table = "(string, tenant_quota) hmap"

definition quota_for :: "quota_table \<Rightarrow> string \<Rightarrow> tenant_quota option" where
  "quota_for table ident = hm_get table ident"

section \<open>Watcher\<close>

record quota_entry =
  qe_identity :: string
  qe_quota :: tenant_quota

definition parse_quota_object :: "quota_decoder \<Rightarrow> dynamic_object \<Rightarrow> quota_entry option" where
  "parse_quota_object dec obj = (case json_get ''spec'' (obj_data obj) of None \<Rightarrow> None
     | Some v \<Rightarrow> (case dec v of Inl _ \<Rightarrow> None
       | Inr spec \<Rightarrow>
           let ident = trim (qs_identity spec)
           in if ident = [] then None else Some \<lparr>qe_identity = ident, qe_quota = qs_quota spec\<rparr>))"

type_synonym quota_mirror = "(string, quota_entry) hmap"

definition quota_apply :: "quota_decoder \<Rightarrow> dynamic_object \<Rightarrow> quota_mirror \<Rightarrow> quota_mirror" where
  "quota_apply dec obj objects = (case parse_quota_object dec obj of
       Some entry \<Rightarrow> hm_insert (object_key obj) entry objects
     | None \<Rightarrow> hm_remove (object_key obj) objects)"

fun handle_quota_event ::
  "quota_decoder \<Rightarrow> dynamic_object watch_event \<Rightarrow> quota_mirror \<times> bool \<Rightarrow> bool \<times> quota_mirror \<times> bool" where
  "handle_quota_event dec (Apply obj) (objects, synced) = (True, quota_apply dec obj objects, synced)"
| "handle_quota_event dec (InitApply obj) (objects, synced) = (True, quota_apply dec obj objects, synced)"
| "handle_quota_event dec (Delete obj) (objects, synced) = (True, hm_remove (object_key obj) objects, synced)"
| "handle_quota_event dec Init (objects, synced) = (False, objects, synced)"
| "handle_quota_event dec InitDone (objects, synced) = (False, objects, True)"

definition quota_add :: "quota_table \<Rightarrow> quota_entry \<Rightarrow> quota_table" where
  "quota_add next_map e = hm_insert (qe_identity e)
     (case hm_get next_map (qe_identity e) of
        Some q \<Rightarrow> most_restrictive q (qe_quota e) | None \<Rightarrow> qe_quota e) next_map"

definition quota_publish :: "quota_mirror \<Rightarrow> quota_table" where
  "quota_publish objects = foldl quota_add [] (hm_values objects)"

definition pump_quota_events ::
  "quota_decoder \<Rightarrow> dynamic_object watch_stream \<Rightarrow> quota_table watched \<Rightarrow>
   pump_outcome \<times> quota_table watched" where
  "pump_quota_events dec stream st =
     (stream_outcome (ws_end stream),
      snd (pump_mirror (handle_quota_event dec) quota_publish (map snd (ws_events stream)) [] st))"

definition quota_run ::
  "quota_decoder \<Rightarrow> dynamic_object watch_stream list \<Rightarrow> quota_table watched \<Rightarrow>
   bool \<times> quota_table watched \<times> u64 list" where
  "quota_run dec conns st = mirror_run (pump_quota_events dec) 0 conns st"

section \<open>Effective limits\<close>

definition effective_subscriber_limit :: "quota_table \<Rightarrow> bool \<Rightarrow> u32 \<Rightarrow> string \<Rightarrow> u32" where
  "effective_subscriber_limit table synced default_max ident =
     (if synced then (case quota_for table ident of Some q \<Rightarrow> max_subscribers q | None \<Rightarrow> default_max)
      else default_max)"

definition effective_apply_rate :: "quota_table \<Rightarrow> bool \<Rightarrow> u32 \<Rightarrow> string \<Rightarrow> u32 \<times> u32" where
  "effective_apply_rate table synced default_rate ident =
     (let (rate, burst) =
        (if synced then
           (case quota_for table ident of
              Some q \<Rightarrow> (max_applies_per_second q, max_applies_burst q) | None \<Rightarrow> (default_rate, 0))
         else (default_rate, 0))
      in if rate = 0 then (0, 0) else (rate, if 0 < burst then burst else max rate 1))"

definition effective_cache_budget :: "quota_table \<Rightarrow> bool \<Rightarrow> u64 \<Rightarrow> string \<Rightarrow> u64" where
  "effective_cache_budget table synced default_budget ident =
     (if synced then
        (case quota_for table ident of Some q \<Rightarrow> cache_memory_budget_bytes q | None \<Rightarrow> default_budget)
      else default_budget)"

section \<open>Subscriber accounting\<close>

text \<open>The counts and the series of the \<open>konfig_tenant_subscribers\<close> gauge.\<close>

record subscriber_counts =
  sc_inner :: "(string, u32) hmap"
  sc_gauge :: "(string, u32) hmap"

definition subscriber_counts_new :: subscriber_counts where
  "subscriber_counts_new = \<lparr>sc_inner = [], sc_gauge = []\<rparr>"

definition sc_current :: "subscriber_counts \<Rightarrow> string \<Rightarrow> u32" where
  "sc_current c ident = (case hm_get (sc_inner c) ident of Some n \<Rightarrow> n | None \<Rightarrow> 0)"

definition set_tenant_subscribers :: "string \<Rightarrow> u32 \<Rightarrow> subscriber_counts \<Rightarrow> subscriber_counts" where
  "set_tenant_subscribers ident n c = c\<lparr>sc_gauge := hm_insert ident n (sc_gauge c)\<rparr>"

definition clear_tenant_subscribers :: "string \<Rightarrow> subscriber_counts \<Rightarrow> subscriber_counts" where
  "clear_tenant_subscribers ident c = c\<lparr>sc_gauge := hm_remove ident (sc_gauge c)\<rparr>"

text \<open>\<open>entry(..).or_insert(0)\<close> creates the entry even when the call is then refused.\<close>

definition try_increment ::
  "string \<Rightarrow> u32 \<Rightarrow> subscriber_counts \<Rightarrow> (u32 + u32) \<times> subscriber_counts" where
  "try_increment ident limit c =
     (let e = sc_current c ident; c0 = c\<lparr>sc_inner := hm_insert ident e (sc_inner c)\<rparr>
      in if limit \<noteq> 0 \<and> limit \<le> e then (Inl e, c0)
         else let n = e + 1
              in (Inr n, set_tenant_subscribers ident n (c0\<lparr>sc_inner := hm_insert ident n (sc_inner c0)\<rparr>)))"

definition increment_unchecked :: "string \<Rightarrow> subscriber_counts \<Rightarrow> u32 \<times> subscriber_counts" where
  "increment_unchecked ident c =
     (let n = sc_current c ident + 1
      in (n, set_tenant_subscribers ident n (c\<lparr>sc_inner := hm_insert ident n (sc_inner c)\<rparr>)))"

text \<open>\<open>Allowed\<close> carries the guard: the identity whose slot its drop releases.\<close>

datatype admit = Allowed string u32 u32 bool | Denied u32 u32

definition sc_admit ::
  "string \<Rightarrow> quota_mode \<Rightarrow> u32 \<Rightarrow> subscriber_counts \<Rightarrow> admit \<times> subscriber_counts" where
  "sc_admit ident mode limit c = (case mode of
       QEnforce \<Rightarrow> (case try_increment ident limit c of
           (Inr current, c') \<Rightarrow> (Allowed ident current limit False, c')
         | (Inl current, c') \<Rightarrow> (Denied current limit, c'))
     | _ \<Rightarrow> (case increment_unchecked ident c of (current, c') \<Rightarrow>
           (Allowed ident current limit (mode = QPermissive \<and> limit \<noteq> 0 \<and> limit < current), c')))"

text \<open>\<open>release\<close> in its two critical sections: the decrement, and the removal of an entry that is
  still zero.\<close>

definition release_decrement :: "string \<Rightarrow> subscriber_counts \<Rightarrow> bool \<times> subscriber_counts" where
  "release_decrement ident c = (case hm_get (sc_inner c) ident of
       Some e \<Rightarrow> let e' = saturating_sub e 1
                 in (e' = 0, c\<lparr>sc_inner := hm_insert ident e' (sc_inner c)\<rparr>)
     | None \<Rightarrow> (False, c))"

definition remove_if_zero :: "string \<Rightarrow> subscriber_counts \<Rightarrow> subscriber_counts" where
  "remove_if_zero ident c =
     (if hm_get (sc_inner c) ident = Some 0 then c\<lparr>sc_inner := hm_remove ident (sc_inner c)\<rparr> else c)"

definition sc_release :: "string \<Rightarrow> subscriber_counts \<Rightarrow> subscriber_counts" where
  "sc_release ident c = (case release_decrement ident c of (now_zero, c') \<Rightarrow>
     if now_zero then clear_tenant_subscribers ident (remove_if_zero ident c')
     else set_tenant_subscribers ident (sc_current c' ident) c')"

section \<open>Apply token bucket\<close>

record bucket =
  bk_tokens :: rat
  bk_last :: instant

type_synonym apply_limiter = "(string, bucket) hmap"

text \<open>\<open>f64::from(u32)\<close> is exact; \<open>Duration::as_secs_f64\<close> rounds.\<close>

definition f64_from :: "u32 \<Rightarrow> rat" where
  "f64_from n = of_nat (unat n)"

definition as_secs_f64 :: "nat \<Rightarrow> rat" where
  "as_secs_f64 ns = f64_round (f64_round (of_nat (ns div 1000000000)) +
     f64_round (of_nat (ns mod 1000000000) / 1000000000))"

definition refill :: "u32 \<Rightarrow> u32 \<Rightarrow> instant \<Rightarrow> bucket \<Rightarrow> rat" where
  "refill rate burst now b =
     min (f64_round (bk_tokens b + f64_round (as_secs_f64 (now - bk_last b) * f64_from rate)))
       (f64_from burst)"

definition try_acquire_at ::
  "string \<Rightarrow> u32 \<Rightarrow> u32 \<Rightarrow> u32 \<Rightarrow> instant \<Rightarrow> apply_limiter \<Rightarrow> bool \<times> apply_limiter" where
  "try_acquire_at ident rate burst cost now lmt =
     (let b = (case hm_get lmt ident of Some b \<Rightarrow> b
                | None \<Rightarrow> \<lparr>bk_tokens = f64_from burst, bk_last = now\<rparr>);
          t = refill rate burst now b
      in if f64_from cost \<le> t
         then (True, hm_insert ident \<lparr>bk_tokens = f64_round (t - f64_from cost), bk_last = now\<rparr> lmt)
         else (False, hm_insert ident \<lparr>bk_tokens = t, bk_last = now\<rparr> lmt))"

datatype apply_decision = DAllowed bool | DDenied

definition limiter_admit ::
  "string \<Rightarrow> quota_mode \<Rightarrow> u32 \<Rightarrow> u32 \<Rightarrow> u32 \<Rightarrow> instant \<Rightarrow> apply_limiter \<Rightarrow> apply_decision \<times> apply_limiter" where
  "limiter_admit ident mode rate burst cost now lmt =
     (case try_acquire_at ident rate burst cost now lmt of (ok, lmt') \<Rightarrow>
        ((case mode of QEnforce \<Rightarrow> if ok then DAllowed False else DDenied | _ \<Rightarrow> DAllowed (\<not> ok)), lmt'))"

datatype apply_outcome = OAllowed | OOverBudget u32 u32 | ODenied u32 u32

definition apply_admission ::
  "quota_table \<Rightarrow> bool \<Rightarrow> quota_mode \<Rightarrow> u32 \<Rightarrow> string \<Rightarrow> u32 \<Rightarrow> instant \<Rightarrow> apply_limiter \<Rightarrow>
   apply_outcome \<times> apply_limiter" where
  "apply_admission table synced mode default_rate ident cost now lmt =
     (if mode = QDisabled then (OAllowed, lmt)
      else case effective_apply_rate table synced default_rate ident of (rate, burst) \<Rightarrow>
        if rate = 0 then (OAllowed, lmt)
        else case limiter_admit ident mode rate burst cost now lmt of (d, lmt') \<Rightarrow>
          ((case d of DAllowed ob \<Rightarrow> if ob then OOverBudget rate burst else OAllowed
              | DDenied \<Rightarrow> ODenied rate burst), lmt'))"

section \<open>The tightest budget\<close>

definition tightest :: "'a::len word set \<Rightarrow> 'a word" where
  "tightest S = (if S - {0} = {} then 0 else Min (S - {0}))"

lemma tightest_single [simp]: "tightest {a} = a"
  by (auto simp: tightest_def)

lemma tighter_tightest: "tighter (tightest S) b = tightest (insert b S)"
proof (cases "b = 0 \<or> S - {0} = {}")
  case True
  then consider "b = 0" | "b \<noteq> 0" "S - {0} = {}" by blast
  then show ?thesis
  proof cases
    case 1
    then show ?thesis by (simp add: tighter_def tightest_def insert_Diff_if)
  next
    case 2
    then show ?thesis by (simp only: tighter_def tightest_def insert_Diff_if) simp
  qed
next
  case False
  then have "Min (S - {0}) \<in> S - {0}"
    by (intro Min_in) auto
  with False show ?thesis
    by (auto simp: tighter_def tightest_def insert_Diff_if min.commute)
qed

lemma foldl_tighter: "foldl tighter a bs = tightest (insert a (set bs))"
proof (induction bs rule: rev_induct)
  case (snoc b bs)
  then show ?case
    by (simp add: tighter_tightest insert_commute)
qed simp

definition combined :: "tenant_quota set \<Rightarrow> tenant_quota" where
  "combined Q =
     \<lparr>max_subscribers = tightest (max_subscribers ` Q),
      max_applies_per_second = tightest (max_applies_per_second ` Q),
      max_applies_burst = tightest (max_applies_burst ` Q),
      cache_memory_budget_bytes = tightest (cache_memory_budget_bytes ` Q)\<rparr>"

lemma most_restrictive_combined: "most_restrictive (combined Q) q = combined (insert q Q)"
  by (simp add: most_restrictive_def combined_def tighter_tightest)

lemma combined_single [simp]: "combined {q} = q"
  by (simp add: combined_def)

lemma get_foldl_quota_add:
  "hm_get (foldl quota_add [] es) ident =
     (let Q = qe_quota ` {e \<in> set es. qe_identity e = ident}
      in if Q = {} then None else Some (combined Q))"
proof (induction es rule: rev_induct)
  case (snoc e es)
  let ?E = "{x \<in> set es. qe_identity x = ident}"
  show ?case
  proof (cases "qe_identity e = ident")
    case True
    then have "{x \<in> set (es @ [e]). qe_identity x = ident} = insert e ?E"
      by auto
    with True snoc show ?thesis
      by (cases "?E = {}") (simp_all only: foldl_append foldl.simps quota_add_def hm_get_insert Let_def
          image_insert image_empty most_restrictive_combined combined_single if_True if_False
          insert_not_empty option.case image_is_empty HOL.simp_thms)
  next
    case False
    then have "{x \<in> set (es @ [e]). qe_identity x = ident} = ?E"
      by auto
    with False snoc show ?thesis
      by (simp only: foldl_append foldl.simps quota_add_def hm_get_insert if_False) simp
  qed
qed simp

lemma quota_for_publish:
  assumes "hm_wf objects"
  shows "quota_for (quota_publish objects) ident =
    (let Q = {qe_quota e |key e. hm_get objects key = Some e \<and> qe_identity e = ident}
     in if Q = {} then None else Some (combined Q))"
proof -
  have "qe_quota ` {e \<in> set (hm_values objects). qe_identity e = ident} =
      {qe_quota e |key e. hm_get objects key = Some e \<and> qe_identity e = ident}"
    using hm_values_iff [OF assms] by auto
  then show ?thesis
    by (simp only: quota_for_def quota_publish_def get_foldl_quota_add)
qed

interpretation quota_mirror: mirror_handler "handle_quota_event dec" "parse_quota_object dec"
proof unfold_locales
  fix ev :: "dynamic_object watch_event" and objects :: quota_mirror and sy :: bool
  show "fst (handle_quota_event dec ev (objects, sy)) = mutating ev"
    by (cases ev) auto
  show "hm_get (fst (snd (handle_quota_event dec ev (objects, sy)))) key =
      live_step (parse_quota_object dec) key (hm_get objects key) ev" for key
    by (cases ev) (auto simp: quota_apply_def split: option.splits)
  show "hm_wf objects \<Longrightarrow> hm_wf (fst (snd (handle_quota_event dec ev (objects, sy))))"
    by (cases ev) (auto simp: quota_apply_def split: option.splits)
  show "snd (snd (handle_quota_event dec ev (objects, sy))) = (sy \<or> ev = InitDone)"
    by (cases ev) auto
  show "\<not> mutating ev \<Longrightarrow> fst (snd (handle_quota_event dec ev (objects, sy))) = objects"
    by (cases ev) auto
qed

section \<open>Concurrent streams\<close>

text \<open>
  Handlers and dropped guards interleave at the granularity of the map's per-key locks: an
  admission is one critical section, a release is a decrement and later, if that reached zero, the
  removal of the entry. \<open>sb_live\<close> (ghost) counts the guards alive per identity, \<open>sb_reaping\<close> lists the
  releases between their two sections. The guard on an admission bounds the number of streams a
  process can hold.
\<close>

record sub_sys =
  sb_counts :: subscriber_counts
  sb_live :: "string \<Rightarrow> nat"
  sb_reaping :: "string list"

definition sub_start :: sub_sys where
  "sub_start = \<lparr>sb_counts = subscriber_counts_new, sb_live = (\<lambda>_. 0), sb_reaping = []\<rparr>"

inductive sub_step :: "quota_mode \<Rightarrow> (string \<Rightarrow> u32) \<Rightarrow> sub_sys \<Rightarrow> sub_sys \<Rightarrow> bool" for mode limit where
  admitted: "sc_admit i mode (limit i) (sb_counts s) = (Allowed g n l ob, c') \<Longrightarrow>
     unat (sc_current (sb_counts s) i) < 2 ^ 32 - 1 \<Longrightarrow>
     sub_step mode limit s (s\<lparr>sb_counts := c', sb_live := (sb_live s)(i := sb_live s i + 1)\<rparr>)"
| refused: "sc_admit i mode (limit i) (sb_counts s) = (Denied n l, c') \<Longrightarrow>
     sub_step mode limit s (s\<lparr>sb_counts := c'\<rparr>)"
| dropped: "0 < sb_live s i \<Longrightarrow> release_decrement i (sb_counts s) = (z, c') \<Longrightarrow>
     sub_step mode limit s (s\<lparr>sb_counts := (if z then c' else set_tenant_subscribers i (sc_current c' i) c'),
       sb_live := (sb_live s)(i := sb_live s i - 1),
       sb_reaping := (if z then i # sb_reaping s else sb_reaping s)\<rparr>)"
| reaped: "i \<in> set (sb_reaping s) \<Longrightarrow>
     sub_step mode limit s
       (s\<lparr>sb_counts := clear_tenant_subscribers i (remove_if_zero i (sb_counts s)),
          sb_reaping := remove1 i (sb_reaping s)\<rparr>)"

inductive sub_reach :: "quota_mode \<Rightarrow> (string \<Rightarrow> u32) \<Rightarrow> sub_sys \<Rightarrow> bool" for mode limit where
  start: "sub_reach mode limit sub_start"
| step: "sub_reach mode limit s \<Longrightarrow> sub_step mode limit s s' \<Longrightarrow> sub_reach mode limit s'"

definition sub_inv :: "quota_mode \<Rightarrow> (string \<Rightarrow> u32) \<Rightarrow> sub_sys \<Rightarrow> bool" where
  "sub_inv mode limit s \<longleftrightarrow> (\<forall>i.
     unat (sc_current (sb_counts s) i) = sb_live s i \<and>
     (hm_get (sc_inner (sb_counts s)) i = Some 0 \<longrightarrow> i \<in> set (sb_reaping s)) \<and>
     (mode = QEnforce \<and> limit i \<noteq> 0 \<longrightarrow> sb_live s i \<le> unat (limit i)))"

lemma sc_current_simps [simp]:
  "sc_current (c\<lparr>sc_inner := hm_insert i n m\<rparr>) j = (if j = i then n else sc_current (c\<lparr>sc_inner := m\<rparr>) j)"
  "sc_current (set_tenant_subscribers i n c) j = sc_current c j"
  "sc_current (clear_tenant_subscribers i c) j = sc_current c j"
  "sc_inner (set_tenant_subscribers i n c) = sc_inner c"
  "sc_inner (clear_tenant_subscribers i c) = sc_inner c"
  by (simp_all add: sc_current_def set_tenant_subscribers_def clear_tenant_subscribers_def)

lemma sc_current_same [simp]: "sc_current (c\<lparr>sc_inner := sc_inner c\<rparr>) j = sc_current c j"
  by (simp add: sc_current_def)

lemma unat_u32_Suc: "unat (n :: u32) < 2 ^ 32 - 1 \<Longrightarrow> unat (n + 1) = unat n + 1"
  by (rule unat_Suc_word) simp

text \<open>The effect of an admission: one more stream, below the limit in enforce mode.\<close>

lemma sc_admit_allowed:
  assumes "sc_admit i mode l c = (Allowed g n l' ob, c')"
  shows "sc_inner c' = hm_insert i (sc_current c i + 1) (sc_inner c) \<or>
      sc_inner c' = hm_insert i (sc_current c i + 1) (hm_insert i (sc_current c i) (sc_inner c))"
    and "mode = QEnforce \<Longrightarrow> l \<noteq> 0 \<Longrightarrow> sc_current c i < l"
    and "g = i"
  using assms
  by (auto simp: sc_admit_def try_increment_def increment_unchecked_def Let_def
      split: quota_mode.splits if_splits)

lemma sc_admit_denied:
  assumes "sc_admit i mode l c = (Denied n l', c')"
  shows "sc_inner c' = hm_insert i (sc_current c i) (sc_inner c)" "0 < sc_current c i"
  using assms
  by (auto simp: sc_admit_def try_increment_def increment_unchecked_def Let_def word_gt_0
      split: quota_mode.splits if_splits)

lemma sub_inv_step: "sub_step mode limit s s' \<Longrightarrow> sub_inv mode limit s \<Longrightarrow> sub_inv mode limit s'"
proof (induction rule: sub_step.induct)
  case (admitted i s g n l ob c')
  note eff = sc_admit_allowed [OF admitted.hyps(1)]
  have suc: "unat (sc_current (sb_counts s) i + 1) = unat (sc_current (sb_counts s) i) + 1"
    using admitted.hyps(2) by (rule unat_u32_Suc)
  then have nz: "sc_current (sb_counts s) i + 1 \<noteq> 0"
    by (metis Suc_eq_plus1 nat.distinct(1) unsigned_0)
  have get: "hm_get (sc_inner c') j = (if j = i then Some (sc_current (sb_counts s) i + 1)
      else hm_get (sc_inner (sb_counts s)) j)" for j
    using eff(1) by auto
  show ?case
    using admitted.prems eff(2) suc nz
    by (auto simp: sub_inv_def sc_current_def get word_less_nat_alt split: option.splits)
next
  case (refused i s n l c')
  have get: "hm_get (sc_inner c') j = (if j = i then Some (sc_current (sb_counts s) i)
      else hm_get (sc_inner (sb_counts s)) j)" for j
    using sc_admit_denied(1) [OF refused.hyps] by simp
  show ?case
    using refused.prems sc_admit_denied(2) [OF refused.hyps]
    by (auto simp: sub_inv_def sc_current_def get split: option.splits)
next
  case (dropped s i z c')
  then obtain e where e: "hm_get (sc_inner (sb_counts s)) i = Some e" "unat e = sb_live s i"
    by (force simp: sub_inv_def sc_current_def split: option.splits)
  with dropped.hyps(2) have c': "z \<longleftrightarrow> saturating_sub e 1 = 0"
    "sc_inner c' = hm_insert i (saturating_sub e 1) (sc_inner (sb_counts s))"
    by (auto simp: release_decrement_def Let_def)
  have u: "unat (saturating_sub e 1) = sb_live s i - 1"
    using e by (simp add: unat_saturating_sub)
  have "mode = QEnforce \<Longrightarrow> limit i \<noteq> 0 \<Longrightarrow> sb_live s i \<le> unat (limit i)"
    using dropped.prems by (simp add: sub_inv_def)
  then have "mode = QEnforce \<Longrightarrow> limit i \<noteq> 0 \<Longrightarrow> sb_live s i - Suc 0 \<le> unat (limit i)"
    by simp
  then show ?case
    using dropped.prems e(1) u c'
    by (auto simp: sub_inv_def sc_current_def unat_eq_0 split: option.splits if_splits)
next
  case (reaped i s)
  let ?c = "remove_if_zero i (sb_counts s)"
  have cur: "sc_current ?c j = sc_current (sb_counts s) j" for j
    by (simp add: sc_current_def remove_if_zero_def)
  have zero: "hm_get (sc_inner ?c) j = Some 0 \<Longrightarrow> j \<noteq> i \<and> hm_get (sc_inner (sb_counts s)) j = Some 0" for j
    by (auto simp: remove_if_zero_def split: if_splits)
  show ?case
    using reaped.prems zero by (auto simp: sub_inv_def cur)
qed

lemma sub_reach_inv: "sub_reach mode limit s \<Longrightarrow> sub_inv mode limit s"
proof (induction rule: sub_reach.induct)
  case start
  show ?case
    by (simp add: sub_inv_def sub_start_def subscriber_counts_new_def sc_current_def)
qed (rule sub_inv_step)

section \<open>The token bucket\<close>

lemma as_secs_f64_0 [simp]: "as_secs_f64 0 = 0"
  by (simp add: as_secs_f64_def f64_round_def)

lemma f64_from_nonneg [simp]: "0 \<le> f64_from n"
  by (simp only: f64_from_def of_nat_0_le_iff)

lemma of_nat_le_f64_from: "of_nat k \<le> f64_from n \<longleftrightarrow> k \<le> unat n"
  by (simp only: f64_from_def of_nat_le_iff)

lemma f64_from_le_of_nat: "f64_from n \<le> of_nat k \<longleftrightarrow> unat n \<le> k"
  by (simp only: f64_from_def of_nat_le_iff)

lemma refill_bounds: "0 \<le> refill rate burst now b" "refill rate burst now b \<le> f64_from burst"
  by (simp_all add: refill_def f64_round_nonneg)

lemma u32_lt_2_53: "int (unat (n :: u32)) < 2 ^ 53"
proof -
  have "unat n < 2 ^ 32"
    using unsigned_less [of n, where 'a = nat] by simp
  then have "unat n < 2 ^ 53"
    by (rule less_trans) simp
  then show ?thesis
    by (metis of_nat_less_iff of_nat_numeral of_nat_power)
qed

text \<open>At one instant whole tokens stay whole: the bucket behaves like an integer counter.\<close>

lemma refill_same_instant:
  assumes "bk_last b = now" "bk_tokens b = of_nat k" "k \<le> unat burst"
  shows "refill rate burst now b = of_nat k"
proof -
  have "int k < 2 ^ 53"
    using assms(3) u32_lt_2_53 [of burst] by linarith
  then have "f64_round (of_nat k) = of_nat k"
    using f64_round_int [of "int k"] by simp
  moreover have "f64_round 0 = 0"
    by (simp add: f64_round_def)
  ultimately show ?thesis
    using assms by (simp add: refill_def of_nat_le_f64_from min_absorb1)
qed

fun acquire_seq ::
  "string \<Rightarrow> u32 \<Rightarrow> u32 \<Rightarrow> instant \<Rightarrow> u32 list \<Rightarrow> apply_limiter \<Rightarrow> bool list \<times> apply_limiter" where
  "acquire_seq ident rate burst now [] lmt = ([], lmt)"
| "acquire_seq ident rate burst now (c # cs) lmt =
     (case try_acquire_at ident rate burst c now lmt of (ok, lmt') \<Rightarrow>
        (case acquire_seq ident rate burst now cs lmt' of (oks, lmt'') \<Rightarrow> (ok # oks, lmt'')))"

text \<open>The reference: a counter that pays each request it can afford in full.\<close>

fun greedy :: "nat \<Rightarrow> nat list \<Rightarrow> bool list" where
  "greedy n [] = []"
| "greedy n (c # cs) = (if c \<le> n then True # greedy (n - c) cs else False # greedy n cs)"

fun admitted_total :: "bool list \<Rightarrow> nat list \<Rightarrow> nat" where
  "admitted_total (ok # oks) (c # cs) = (if ok then c else 0) + admitted_total oks cs"
| "admitted_total _ _ = 0"

lemma greedy_total: "admitted_total (greedy n cs) cs \<le> n"
  by (induction n cs rule: greedy.induct) auto

lemma acquire_seq_greedy:
  assumes "hm_get lmt ident = Some b" "bk_last b = now" "bk_tokens b = of_nat k" "k \<le> unat burst"
  shows "fst (acquire_seq ident rate burst now cs lmt) = greedy k (map unat cs)"
  using assms
proof (induction cs arbitrary: lmt b k)
  case (Cons c cs)
  have r: "refill rate burst now b = of_nat k"
    using Cons.prems by (intro refill_same_instant) auto
  have exact: "f64_round (of_nat k - f64_from c) = of_nat (k - unat c)" if "unat c \<le> k"
  proof -
    have "int (k - unat c) < 2 ^ 53"
      using Cons.prems(4) u32_lt_2_53 [of burst] by linarith
    then have "f64_round (of_nat (k - unat c)) = of_nat (k - unat c)"
      using f64_round_int [of "int (k - unat c)"] by (simp only: of_int_of_nat_eq of_nat_0_le_iff)
    moreover have "of_nat k - f64_from c = of_nat (k - unat c)"
      using that by (simp only: f64_from_def of_nat_diff)
    ultimately show ?thesis by simp
  qed
  show ?case
  proof (cases "unat c \<le> k")
    case True
    let ?b = "\<lparr>bk_tokens = of_nat (k - unat c), bk_last = now\<rparr>"
    have "fst (acquire_seq ident rate burst now cs (hm_insert ident ?b lmt)) =
        greedy (k - unat c) (map unat cs)"
      using Cons.prems by (intro Cons.IH [of _ ?b]) auto
    with True show ?thesis
      using Cons.prems(1) by (simp add: try_acquire_at_def r exact f64_from_le_of_nat Let_def case_prod_beta)
  next
    case False
    let ?b = "\<lparr>bk_tokens = of_nat k, bk_last = now\<rparr>"
    have "fst (acquire_seq ident rate burst now cs (hm_insert ident ?b lmt)) = greedy k (map unat cs)"
      using Cons.prems by (intro Cons.IH [of _ ?b]) auto
    with False show ?thesis
      using Cons.prems(1) by (simp add: try_acquire_at_def r f64_from_le_of_nat Let_def case_prod_beta)
  qed
qed simp

text \<open>A fresh identity starts with a full bucket.\<close>

lemma hm_insert_twice: "hm_insert k v (hm_insert k w m) = hm_insert k v m"
  by (induction m) (auto simp: hm_insert_def)

lemma acquire_fresh:
  assumes "hm_get lmt ident = None"
  shows "try_acquire_at ident rate burst cost now lmt =
    try_acquire_at ident rate burst cost now
      (hm_insert ident \<lparr>bk_tokens = f64_from burst, bk_last = now\<rparr> lmt)"
  using assms by (simp add: try_acquire_at_def hm_insert_twice Let_def)

lemma acquire_seq_fresh:
  assumes "hm_get lmt ident = None"
  shows "fst (acquire_seq ident rate burst now cs lmt) = greedy (unat burst) (map unat cs)"
proof (cases cs)
  case (Cons c cs')
  let ?b = "\<lparr>bk_tokens = f64_from burst, bk_last = now\<rparr>"
  have "fst (acquire_seq ident rate burst now cs lmt) =
      fst (acquire_seq ident rate burst now cs (hm_insert ident ?b lmt))"
    using acquire_fresh [OF assms] by (simp add: Cons)
  also have "\<dots> = greedy (unat burst) (map unat cs)"
    by (rule acquire_seq_greedy [of _ _ ?b]) (simp_all add: f64_from_def del: of_nat_unat)
  finally show ?thesis .
qed simp

section \<open>Properties\<close>

text \<open>After a watch connection that changed anything, the budget of an identity is,
  on each axis independently, the smallest non-zero bound that any live \<open>TenantQuota\<close> object for
  it declares (zero, unlimited, if none does); an identity no live object names has no budget; and
  the iteration order of the object map does not matter.\<close>

lemma quota_table_tightest:
  "quota_for (wt_table (snd (pump_quota_events dec stream st))) ident =
     (if list_ex mutating (map snd (ws_events stream))
      then let Q = {qe_quota e |key e.
             live (parse_quota_object dec) (map snd (ws_events stream)) key = Some e \<and> qe_identity e = ident}
           in if Q = {} then None
              else Some \<lparr>max_subscribers = tightest (max_subscribers ` Q),
                max_applies_per_second = tightest (max_applies_per_second ` Q),
                max_applies_burst = tightest (max_applies_burst ` Q),
                cache_memory_budget_bytes = tightest (cache_memory_budget_bytes ` Q)\<rparr>
      else quota_for (wt_table st) ident)"
proof -
  let ?evs = "map snd (ws_events stream)"
  let ?m = "fst (pump_mirror (handle_quota_event dec) quota_publish ?evs [] st)"
  note conn = quota_mirror.connection [where dec = dec and publish = quota_publish
      and evs = ?evs and st = st]
  have "quota_for (quota_publish ?m) ident =
      (let Q = {qe_quota e |key e. live (parse_quota_object dec) ?evs key = Some e \<and> qe_identity e = ident}
       in if Q = {} then None else Some (combined Q))"
    using quota_for_publish [OF conn(1), of ident] unfolding conn(2) .
  then show ?thesis
    unfolding pump_quota_events_def snd_conv conn(3) combined_def by simp
qed

text \<open>Property C3. However admissions, refusals and dropped guards of many streams interleave, the
  count of an identity is exactly its number of live streams; in enforce mode that number never
  exceeds a non-zero limit; and once its streams are gone and their releases complete, no entry
  for the identity is left behind.\<close>

theorem subscriber_slots_exact:
  assumes "sub_reach mode limit s"
  shows "unat (sc_current (sb_counts s) i) = sb_live s i \<and>
    (mode = QEnforce \<and> limit i \<noteq> 0 \<longrightarrow> sb_live s i \<le> unat (limit i)) \<and>
    (sb_live s i = 0 \<and> i \<notin> set (sb_reaping s) \<longrightarrow> hm_get (sc_inner (sb_counts s)) i = None)"
proof -
  have inv: "unat (sc_current (sb_counts s) i) = sb_live s i"
      "hm_get (sc_inner (sb_counts s)) i = Some 0 \<Longrightarrow> i \<in> set (sb_reaping s)"
      "mode = QEnforce \<Longrightarrow> limit i \<noteq> 0 \<Longrightarrow> sb_live s i \<le> unat (limit i)"
    using sub_reach_inv [OF assms] by (auto simp: sub_inv_def)
  have "hm_get (sc_inner (sb_counts s)) i = None" if "sb_live s i = 0" "i \<notin> set (sb_reaping s)"
    using that inv(1,2)
    by (cases "hm_get (sc_inner (sb_counts s)) i") (auto simp: sc_current_def unat_eq_zero)
  with inv show ?thesis by simp
qed

definition demo_sub :: sub_sys where
  "demo_sub = sub_start\<lparr>sb_counts := snd (sc_admit ''t'' QEnforce 1 subscriber_counts_new),
     sb_live := (\<lambda>_. 0)(''t'' := 1)\<rparr>"

lemma demo_sub_reach: "sub_reach QEnforce (\<lambda>_. 1) demo_sub"
proof (rule sub_reach.step [OF sub_reach.start])
  have a: "sc_admit ''t'' QEnforce 1 (sb_counts sub_start) =
      (Allowed ''t'' 1 1 False, snd (sc_admit ''t'' QEnforce 1 subscriber_counts_new))"
    by (simp add: sc_admit_def try_increment_def sub_start_def subscriber_counts_new_def sc_current_def Let_def)
  show "sub_step QEnforce (\<lambda>_. 1) sub_start demo_sub"
    using sub_step.admitted [where mode = QEnforce and limit = "\<lambda>_. 1", OF a]
    by (simp add: demo_sub_def sub_start_def subscriber_counts_new_def sc_current_def)
qed

theorem subscriber_slots_exact_witness:
  "unat (sc_current (sb_counts demo_sub) ''t'') = 1 \<and> sb_live demo_sub ''t'' \<le> unat (1 :: u32)"
  using subscriber_slots_exact [OF demo_sub_reach, of "''t''"] by (simp add: demo_sub_def)

text \<open>Admission in enforce mode refuses a stream exactly when a non-zero limit is
  already reached, and a refusal changes no count; admission followed by the drop of its guard
  restores the count of every identity.\<close>

lemma admit_then_release:
  assumes "sc_admit i QEnforce l c = (d, c')" "unat (sc_current c i) < 2 ^ 32 - 1"
  shows "((\<exists>n. d = Denied n l) \<longleftrightarrow> l \<noteq> 0 \<and> l \<le> sc_current c i) \<and>
    ((\<exists>n. d = Denied n l) \<longrightarrow> sc_current c' j = sc_current c j) \<and>
    ((\<exists>n. d = Allowed i n l False) \<longrightarrow> sc_current (sc_release i c') j = sc_current c j)"
proof (cases "l \<noteq> 0 \<and> l \<le> sc_current c i")
  case True
  with assms(1) show ?thesis
    by (auto simp: sc_admit_def try_increment_def Let_def)
next
  case False
  then have c': "sc_inner c' = hm_insert i (sc_current c i + 1) (sc_inner c)"
      "\<exists>n. d = Allowed i n l False"
    using assms(1) by (auto simp: sc_admit_def try_increment_def Let_def hm_insert_twice)
  have "saturating_sub (sc_current c i + 1) 1 = sc_current c i"
    using assms(2) by (simp add: word_unat_eq_iff unat_saturating_sub unat_u32_Suc)
  with c' have "sc_current (sc_release i c') j = sc_current c j"
    by (simp add: sc_release_def release_decrement_def remove_if_zero_def sc_current_def Let_def)
  with False c'(2) show ?thesis
    by auto
qed

text \<open>Property C20. At any one instant a fresh bucket admits exactly what an integer counter of
  \<open>burst\<close> tokens would: binary64 rounding never grants or loses a token, so the total cost
  admitted is at most the burst.\<close>

theorem token_bucket_burst_exact:
  assumes "hm_get lmt ident = None"
  shows "fst (acquire_seq ident rate burst now costs lmt) = greedy (unat burst) (map unat costs) \<and>
    admitted_total (fst (acquire_seq ident rate burst now costs lmt)) (map unat costs) \<le> unat burst"
  using acquire_seq_fresh [OF assms] greedy_total by simp

theorem token_bucket_burst_exact_witness:
  "fst (acquire_seq ''t'' 5 3 1000 [1, 2, 1] []) = [True, True, False]"
  using token_bucket_burst_exact [of "[]" "''t''" 5 3 1000 "[1, 2, 1]"] by simp

text \<open>Whatever the rate, the elapsed time and the rounding, after an acquisition the
  bucket of the caller holds between zero and \<open>burst\<close> tokens, is stamped with the current instant,
  and no other bucket has changed; a request that costs more than the burst is never admitted.\<close>

lemma token_bucket_bounds:
  assumes "try_acquire_at ident rate burst cost now lmt = (ok, lmt')"
  shows "\<exists>b. hm_get lmt' ident = Some b \<and> 0 \<le> bk_tokens b \<and> bk_tokens b \<le> f64_from burst \<and>
    bk_last b = now \<and> (ok \<longrightarrow> cost \<le> burst) \<and> (\<forall>i. i \<noteq> ident \<longrightarrow> hm_get lmt' i = hm_get lmt i)"
proof -
  define b where "b = (case hm_get lmt ident of Some b \<Rightarrow> b
    | None \<Rightarrow> \<lparr>bk_tokens = f64_from burst, bk_last = now\<rparr>)"
  define t where "t = refill rate burst now b"
  have t: "0 \<le> t" "t \<le> f64_from burst"
    using refill_bounds by (auto simp: t_def)
  have ok: "ok \<longleftrightarrow> f64_from cost \<le> t"
    and l: "lmt' = hm_insert ident \<lparr>bk_tokens = (if ok then f64_round (t - f64_from cost) else t),
      bk_last = now\<rparr> lmt"
    using assms by (auto simp: try_acquire_at_def Let_def t_def b_def split: if_splits)
  have "f64_round (t - f64_from cost) \<le> f64_from burst"
    using f64_round_le_int [of "t - f64_from cost" "int (unat burst)"] u32_lt_2_53 [of burst] t
    by (simp add: f64_from_def of_nat_nat diff_le_eq le_add_diff_inverse add_increasing2 del: of_nat_unat)
  moreover have "ok \<longrightarrow> cost \<le> burst"
    using t ok by (auto simp: f64_from_def word_le_nat_alt simp del: of_nat_unat dest: order_trans)
  ultimately show ?thesis
    using t f64_round_nonneg by (auto simp: l)
qed

text \<open>Until the quota watcher has completed its first list, no limit depends on the
  quota table: subscriber limit, cache budget and apply admission are those of the server flags,
  so a partial table can neither refuse nor exempt a tenant in the boot window; and with quotas
  disabled an apply is always allowed and no bucket is touched.\<close>

lemma quota_unsynced_ignores_table:
  "effective_subscriber_limit table False dflt i = dflt \<and>
   effective_cache_budget table False dflt_budget i = dflt_budget \<and>
   apply_admission table False mode rate i cost now lmt = apply_admission [] True mode rate i cost now lmt \<and>
   apply_admission table synced QDisabled rate i cost now lmt = (OAllowed, lmt)"
  by (simp add: effective_subscriber_limit_def effective_cache_budget_def apply_admission_def
      effective_apply_rate_def quota_for_def)

end
