(* ===== verification/Tenant_Cache.thy ===== *)
theory Tenant_Cache
  imports Quota
begin

text \<open>
  Per-tenant byte accounting with least-recently-served eviction (\<open>tenant_cache.rs\<close>). Byte counts
  and ticks are machine words; the recency index is a \<open>BTreeMap\<close> from ticks to keys, so its first
  entry is the victim.
\<close>

section \<open>Views\<close>

type_synonym ledger_key = "string \<times> string \<times> string"

record slot =
  slot_bytes :: usize
  slot_tick :: u64

record tenant_view =
  tv_by_key :: "(ledger_key, slot) hmap"
  tv_by_tick :: "(u64, ledger_key) btmap"
  tv_total :: usize
  tv_next_tick :: u64

definition tenant_view_default :: tenant_view where
  "tenant_view_default = \<lparr>tv_by_key = [], tv_by_tick = [], tv_total = 0, tv_next_tick = 0\<rparr>"

definition view_forget :: "ledger_key \<Rightarrow> tenant_view \<Rightarrow> tenant_view" where
  "view_forget key v = (case hm_get (tv_by_key v) key of
       Some prev \<Rightarrow> v\<lparr>tv_by_tick := bt_remove (slot_tick prev) (tv_by_tick v),
                       tv_total := tv_total v - slot_bytes prev\<rparr>
     | None \<Rightarrow> v)"

definition view_touch :: "ledger_key \<Rightarrow> usize \<Rightarrow> tenant_view \<Rightarrow> tenant_view" where
  "view_touch key bytes v0 =
     (let v = view_forget key v0; tick = tv_next_tick v
      in v\<lparr>tv_next_tick := tick + 1,
           tv_by_tick := bt_insert tick key (tv_by_tick v),
           tv_by_key := hm_insert key \<lparr>slot_bytes = bytes, slot_tick = tick\<rparr> (tv_by_key v),
           tv_total := tv_total v + bytes\<rparr>)"

definition evict_one :: "tenant_view \<Rightarrow> tenant_view" where
  "evict_one v = (case tv_by_tick v of
       [] \<Rightarrow> v
     | (tick, key) # rest \<Rightarrow>
         let v' = v\<lparr>tv_by_tick := bt_remove tick (tv_by_tick v)\<rparr>
         in (case hm_get (tv_by_key v') key of
               Some sl \<Rightarrow> v'\<lparr>tv_by_key := hm_remove key (tv_by_key v'), tv_total := tv_total v' - slot_bytes sl\<rparr>
             | None \<Rightarrow> v'))"

function evict_loop :: "usize \<Rightarrow> tenant_view \<Rightarrow> u64 \<Rightarrow> tenant_view \<times> u64" where
  "evict_loop budget v evicted =
     (if budget < tv_total v \<and> 1 < length (tv_by_key v) \<and> tv_by_tick v \<noteq> []
      then evict_loop budget (evict_one v) (evicted + 1) else (v, evicted))"
  by pat_completeness auto
termination
  by (relation "measure (\<lambda>(budget, v, evicted). length (tv_by_tick v))")
    (auto simp: evict_one_def Let_def split: list.splits option.splits)

declare evict_loop.simps [simp del]

definition evict_to :: "u64 \<Rightarrow> tenant_view \<Rightarrow> u64 \<times> tenant_view" where
  "evict_to budget v =
     (if budget = 0 then (0, v) else (case evict_loop budget v 0 of (v', n) \<Rightarrow> (n, v')))"

section \<open>Ledger\<close>

text \<open>The views, and the two metrics: the byte gauge and the eviction counter of each identity.\<close>

record ledger =
  lg_views :: "(string, tenant_view) hmap"
  lg_bytes_gauge :: "(string, usize) hmap"
  lg_evictions :: "(string, u64) hmap"

definition ledger_new :: ledger where
  "ledger_new = \<lparr>lg_views = [], lg_bytes_gauge = [], lg_evictions = []\<rparr>"

definition view_of :: "ledger \<Rightarrow> string \<Rightarrow> tenant_view" where
  "view_of lg ident = (case hm_get (lg_views lg) ident of Some v \<Rightarrow> v | None \<Rightarrow> tenant_view_default)"

definition evictions_of :: "ledger \<Rightarrow> string \<Rightarrow> u64" where
  "evictions_of lg ident = (case hm_get (lg_evictions lg) ident of Some n \<Rightarrow> n | None \<Rightarrow> 0)"

definition ledger_record ::
  "string \<Rightarrow> string \<Rightarrow> string \<Rightarrow> string \<Rightarrow> usize \<Rightarrow> u64 option \<Rightarrow> ledger \<Rightarrow> ledger" where
  "ledger_record ident kind ns nm bytes evict_budget lg =
     (let v = view_touch (kind, ns, nm) bytes (view_of lg ident);
          (evicted, v') = (case evict_budget of Some budget \<Rightarrow> evict_to budget v | None \<Rightarrow> (0, v));
          lg' = lg\<lparr>lg_views := hm_insert ident v' (lg_views lg),
                   lg_bytes_gauge := hm_insert ident (tv_total v') (lg_bytes_gauge lg)\<rparr>
      in if 0 < evicted
         then lg'\<lparr>lg_evictions := hm_insert ident (evictions_of lg ident + evicted) (lg_evictions lg)\<rparr>
         else lg')"

section \<open>Accountant and stream adapter\<close>

record cache_accountant =
  ca_identity :: string
  ca_mode :: quota_mode
  ca_budget :: u64
  ca_kind :: string

type_synonym cost = "(string \<times> string \<times> usize) option"

definition accountant_record :: "cache_accountant \<Rightarrow> string \<Rightarrow> string \<Rightarrow> usize \<Rightarrow> ledger \<Rightarrow> ledger" where
  "accountant_record a ns nm bytes lg =
     ledger_record (ca_identity a) (ca_kind a) ns nm bytes
       (if ca_mode a = QEnforce then Some (ca_budget a) else None) lg"

definition record_cost :: "cache_accountant \<Rightarrow> cost \<Rightarrow> ledger \<Rightarrow> ledger" where
  "record_cost a c lg = (case c of Some (ns, nm, bytes) \<Rightarrow> accountant_record a ns nm bytes lg | None \<Rightarrow> lg)"

definition config_cost :: "config_msg \<Rightarrow> cost" where
  "config_cost c = Some (cm_namespace c, cm_name c,
     of_nat (length (cm_content_json c) + length (cm_namespace c) + length (cm_name c)))"

definition config_event_cost :: "config_event \<Rightarrow> cost" where
  "config_event_cost e = (case ce_config e of None \<Rightarrow> None | Some c \<Rightarrow> Some (cm_namespace c, cm_name c,
     of_nat (length (cm_content_json c) + length (cm_namespace c) + length (cm_name c))))"

definition secret_cost :: "secret_msg \<Rightarrow> cost" where
  "secret_cost s = Some (sm_namespace s, sm_name s,
     of_nat (length (sm_data_json s) + length (sm_namespace s) + length (sm_name s)))"

definition secret_event_cost :: "secret_event \<Rightarrow> cost" where
  "secret_event_cost e = (case se_secret e of None \<Rightarrow> None | Some s \<Rightarrow> Some (sm_namespace s, sm_name s,
     of_nat (length (sm_data_json s) + length (sm_namespace s) + length (sm_name s))))"

text \<open>\<open>AccountedStream::poll_next\<close>: the item passes through; a delivered \<open>Ok\<close> is attributed.\<close>

definition accounted_poll ::
  "cache_accountant option \<Rightarrow> ('t \<Rightarrow> cost) \<Rightarrow> 't rpc \<Rightarrow> ledger \<Rightarrow> 't rpc \<times> ledger" where
  "accounted_poll acct cost item lg =
     (item, (case (acct, item) of (Some a, Inr x) \<Rightarrow> record_cost a (cost x) lg | _ \<Rightarrow> lg))"

fun accounted_stream ::
  "cache_accountant option \<Rightarrow> ('t \<Rightarrow> cost) \<Rightarrow> 't rpc list \<Rightarrow> ledger \<Rightarrow> 't rpc list \<times> ledger" where
  "accounted_stream acct cost [] lg = ([], lg)"
| "accounted_stream acct cost (x # xs) lg =
     (case accounted_poll acct cost x lg of (y, lg') \<Rightarrow>
        (case accounted_stream acct cost xs lg' of (ys, lg'') \<Rightarrow> (y # ys, lg'')))"

section \<open>The invariant of a view\<close>

definition hm_sum :: "('v \<Rightarrow> 'n::ab_group_add) \<Rightarrow> ('k, 'v) hmap \<Rightarrow> 'n" where
  "hm_sum f m = sum_list (map (f \<circ> snd) m)"

lemma hm_sum_insert:
  "hm_wf m \<Longrightarrow> hm_sum f (hm_insert k v m) =
     hm_sum f m - (case hm_get m k of None \<Rightarrow> 0 | Some w \<Rightarrow> f w) + f v"
proof (induction m)
  case (Cons p m)
  then show ?case
    by (cases p) (auto simp: hm_sum_def hm_insert_def hm_get_def hm_wf_def algebra_simps)
qed (simp add: hm_sum_def hm_insert_def)

lemma hm_remove_absent: "hm_get m k = None \<Longrightarrow> hm_remove k m = m"
  by (simp add: hm_remove_def hm_get_None_iff delete_notin_dom)

lemma hm_remove_Cons: "hm_remove k ((j, v) # m) = (if j = k then hm_remove k m else (j, v) # hm_remove k m)"
  by (simp add: hm_remove_def)

lemma hm_sum_remove:
  "hm_wf m \<Longrightarrow> hm_sum f (hm_remove k m) = hm_sum f m - (case hm_get m k of None \<Rightarrow> 0 | Some w \<Rightarrow> f w)"
proof (induction m)
  case (Cons p m)
  obtain j v where p: "p = (j, v)"
    by (cases p)
  with Cons.prems have "hm_get m j = None" "hm_wf m"
    by (simp_all add: hm_wf_def hm_get_None_iff image_iff)
  then show ?case
    using Cons.IH by (auto simp: p hm_remove_Cons hm_remove_absent hm_sum_def hm_get_Cons)
qed (simp add: hm_sum_def hm_remove_def)

definition view_inv :: "tenant_view \<Rightarrow> bool" where
  "view_inv v \<longleftrightarrow> hm_wf (tv_by_key v) \<and> bt_wf (tv_by_tick v) \<and>
     (\<forall>t k. bt_get (tv_by_tick v) t = Some k \<longleftrightarrow> (\<exists>b. hm_get (tv_by_key v) k = Some \<lparr>slot_bytes = b, slot_tick = t\<rparr>)) \<and>
     (\<forall>t k. bt_get (tv_by_tick v) t = Some k \<longrightarrow> t < tv_next_tick v) \<and>
     tv_total v = hm_sum slot_bytes (tv_by_key v)"

lemma view_inv_default: "view_inv tenant_view_default"
  by (simp add: view_inv_def tenant_view_default_def hm_sum_def)

lemma view_invD:
  assumes "view_inv v"
  shows "hm_wf (tv_by_key v)" "bt_wf (tv_by_tick v)"
    "\<And>t k. bt_get (tv_by_tick v) t = Some k \<longleftrightarrow> (\<exists>b. hm_get (tv_by_key v) k = Some \<lparr>slot_bytes = b, slot_tick = t\<rparr>)"
    "\<And>t k. bt_get (tv_by_tick v) t = Some k \<Longrightarrow> t < tv_next_tick v"
    "tv_total v = hm_sum slot_bytes (tv_by_key v)"
  using assms by (auto simp: view_inv_def)

text \<open>Both touching and evicting a key first take it out of the recency index; this is the index
  and the bytes of the remaining keys.\<close>

lemma index_without:
  assumes "view_inv v" "hm_get (tv_by_key v) key = Some sl"
  shows "bt_get (bt_remove (slot_tick sl) (tv_by_tick v)) t = Some k \<longleftrightarrow>
    k \<noteq> key \<and> (\<exists>b. hm_get (tv_by_key v) k = Some \<lparr>slot_bytes = b, slot_tick = t\<rparr>)"
proof -
  note inv = view_invD [OF assms(1)]
  have self: "bt_get (tv_by_tick v) (slot_tick sl) = Some key"
    using inv(3) [of "slot_tick sl" key] assms(2) by (cases sl) simp
  have "slot_tick sl \<noteq> t" if "k \<noteq> key" "bt_get (tv_by_tick v) t = Some k"
    using that self by auto
  moreover have "slot_tick sl = t" if "hm_get (tv_by_key v) key = Some \<lparr>slot_bytes = b, slot_tick = t\<rparr>" for b
    using that assms(2) by simp
  ultimately show ?thesis
    using inv(2,3) by auto
qed

lemma view_inv_touch:
  assumes inv: "view_inv v" and no_wrap: "unat (tv_next_tick v) + 1 < 2 ^ 64"
  shows "view_inv (view_touch key bytes v)"
    and "hm_get (tv_by_key (view_touch key bytes v)) k =
      (if k = key then Some \<lparr>slot_bytes = bytes, slot_tick = tv_next_tick v\<rparr> else hm_get (tv_by_key v) k)"
proof -
  let ?n = "tv_next_tick v"
  note i = view_invD [OF inv]
  define f where "f = view_forget key v"
  have f: "tv_by_key f = tv_by_key v" "tv_next_tick f = ?n" "bt_wf (tv_by_tick f)"
      "tv_total f = tv_total v - (case hm_get (tv_by_key v) key of None \<Rightarrow> 0 | Some s \<Rightarrow> slot_bytes s)"
    using i(2) by (auto simp: f_def view_forget_def split: option.splits)
  have idx: "bt_get (tv_by_tick f) t = Some k \<longleftrightarrow>
      k \<noteq> key \<and> (\<exists>b. hm_get (tv_by_key v) k = Some \<lparr>slot_bytes = b, slot_tick = t\<rparr>)" for t k
    using index_without [OF inv] i(3) by (cases "hm_get (tv_by_key v) key") (auto simp: f_def view_forget_def)
  have old: "t < ?n" if "bt_get (tv_by_tick f) t = Some k" for t k
    using that idx i(3,4) by blast
  have lt: "t < ?n + 1" if "t \<le> ?n" for t
    using that no_wrap by (simp add: word_less_nat_alt word_le_nat_alt unat_Suc_word)
  let ?T = "view_touch key bytes v"
  have T: "tv_by_key ?T = hm_insert key \<lparr>slot_bytes = bytes, slot_tick = ?n\<rparr> (tv_by_key v)"
      "tv_by_tick ?T = bt_insert ?n key (tv_by_tick f)" "tv_next_tick ?T = ?n + 1"
      "tv_total ?T = tv_total f + bytes"
    by (simp_all add: view_touch_def Let_def f f_def [symmetric])
  then show "hm_get (tv_by_key ?T) k =
      (if k = key then Some \<lparr>slot_bytes = bytes, slot_tick = ?n\<rparr> else hm_get (tv_by_key v) k)"
    by simp
  have "bt_get (tv_by_tick ?T) t = Some k \<longleftrightarrow>
      (\<exists>b. hm_get (tv_by_key ?T) k = Some \<lparr>slot_bytes = b, slot_tick = t\<rparr>)" for t k
  proof (cases "t = ?n")
    case True
    have "bt_get (tv_by_tick f) ?n \<noteq> Some k"
      using old by fastforce
    with True show ?thesis
      by (auto simp: T idx)
  next
    case False
    then show ?thesis by (auto simp: T idx)
  qed
  moreover have "t < tv_next_tick ?T" if "bt_get (tv_by_tick ?T) t = Some k" for t k
  proof -
    have "t = ?n \<or> bt_get (tv_by_tick f) t = Some k"
      using that by (auto simp: T split: if_splits)
    then have "t \<le> ?n"
      using old [of t k] less_imp_le by blast
    then show ?thesis
      by (simp add: T lt)
  qed
  moreover have "tv_total ?T = hm_sum slot_bytes (tv_by_key ?T)"
    by (simp add: T f hm_sum_insert i(1,5))
  ultimately show "view_inv ?T"
    unfolding view_inv_def using i(1) f(3) by (simp add: T)
qed

lemma bt_remove_head: "bt_remove t ((t, k) # m) = m"
  by simp

lemma view_inv_evict_one:
  assumes inv: "view_inv v" and hd: "tv_by_tick v = (t, key) # rest"
  shows "view_inv (evict_one v)" "tv_by_tick (evict_one v) = rest"
    "tv_by_key (evict_one v) = hm_remove key (tv_by_key v)" "tv_next_tick (evict_one v) = tv_next_tick v"
proof -
  note i = view_invD [OF inv]
  have "bt_get (tv_by_tick v) t = Some key"
    by (simp add: hd bt_get_def)
  then obtain b where sl: "hm_get (tv_by_key v) key = Some \<lparr>slot_bytes = b, slot_tick = t\<rparr>"
    using i(3) by blast
  have e: "evict_one v = v\<lparr>tv_by_tick := rest, tv_by_key := hm_remove key (tv_by_key v),
      tv_total := tv_total v - b\<rparr>"
    by (simp add: evict_one_def hd sl Let_def)
  then show "tv_by_tick (evict_one v) = rest" "tv_by_key (evict_one v) = hm_remove key (tv_by_key v)"
      "tv_next_tick (evict_one v) = tv_next_tick v"
    by simp_all
  have idx: "bt_get rest u = Some k \<longleftrightarrow>
      k \<noteq> key \<and> (\<exists>b. hm_get (tv_by_key v) k = Some \<lparr>slot_bytes = b, slot_tick = u\<rparr>)" for u k
    using index_without [OF inv sl, of u k] by (simp add: hd)
  have "bt_wf rest"
    using i(2) by (simp add: hd bt_wf_Cons)
  moreover have "tv_total v - b = hm_sum slot_bytes (hm_remove key (tv_by_key v))"
    by (simp add: hm_sum_remove i(1,5) sl)
  moreover have "u < tv_next_tick v" if "bt_get rest u = Some k" for u k
    using that idx i(3,4) by blast
  ultimately show "view_inv (evict_one v)"
    unfolding view_inv_def by (auto simp: e i(1) idx)
qed

lemma view_inv_lengths:
  assumes "view_inv v"
  shows "length (tv_by_key v) = length (tv_by_tick v)"
proof -
  note i = view_invD [OF assms]
  have dt: "distinct (map fst (tv_by_tick v))"
    using i(2) by (simp add: bt_wf_def strict_sorted_iff)
  have get: "bt_get (tv_by_tick v) t = Some k \<longleftrightarrow> (t, k) \<in> set (tv_by_tick v)" for t k
    using dt by (simp add: bt_get_def)
  have "inj_on snd (set (tv_by_tick v))"
  proof (rule inj_onI, clarify)
    fix t u k k' assume "(t, k) \<in> set (tv_by_tick v)" "(u, k') \<in> set (tv_by_tick v)" "snd (t, k) = snd (u, k')"
    then show "t = u \<and> k = k'"
      using i(3) by (auto simp flip: get)
  qed
  then have ds: "distinct (map snd (tv_by_tick v))"
    using dt by (simp add: distinct_map)
  have "set (map snd (tv_by_tick v)) = set (map fst (tv_by_key v))"
  proof
    show "set (map snd (tv_by_tick v)) \<subseteq> set (map fst (tv_by_key v))"
    proof
      fix k assume "k \<in> set (map snd (tv_by_tick v))"
      then obtain t where "bt_get (tv_by_tick v) t = Some k"
        by (auto simp: get)
      then have "hm_get (tv_by_key v) k \<noteq> None"
        using i(3) [of t k] by auto
      then show "k \<in> set (map fst (tv_by_key v))"
        by (simp add: hm_get_None_iff)
    qed
    show "set (map fst (tv_by_key v)) \<subseteq> set (map snd (tv_by_tick v))"
    proof
      fix k assume "k \<in> set (map fst (tv_by_key v))"
      then obtain sl where "hm_get (tv_by_key v) k = Some sl"
        using hm_get_None_iff [of "tv_by_key v" k] by (cases "hm_get (tv_by_key v) k") simp_all
      then have "bt_get (tv_by_tick v) (slot_tick sl) = Some k"
        using i(3) [of "slot_tick sl" k] by (cases sl) simp
      then show "k \<in> set (map snd (tv_by_tick v))"
        by (simp add: get) (metis image_eqI snd_conv)
    qed
  qed
  then show ?thesis
    using ds i(1) distinct_card [of "map snd (tv_by_tick v)"] distinct_card [of "map fst (tv_by_key v)"]
    by (simp add: hm_wf_def)
qed

section \<open>Eviction\<close>

text \<open>The loop evicts a prefix of the recency order, no longer than needed, and stops with a view
  within budget or with one entry.\<close>

lemma evict_loop_spec:
  assumes "view_inv v" "tv_by_key v \<noteq> []" "evict_loop budget v e = (v', e')"
  shows "view_inv v' \<and> (tv_total v' \<le> budget \<or> length (tv_by_key v') = 1) \<and>
    tv_by_key v' \<noteq> [] \<and> tv_next_tick v' = tv_next_tick v \<and>
    (\<exists>n < length (tv_by_tick v). e' = e + of_nat n \<and> tv_by_tick v' = drop n (tv_by_tick v) \<and>
      (\<forall>k. hm_get (tv_by_key v') k =
        (if k \<in> snd ` set (take n (tv_by_tick v)) then None else hm_get (tv_by_key v) k)))"
  using assms
proof (induction budget v e arbitrary: v' e' rule: evict_loop.induct)
  case (1 budget v e)
  note len = view_inv_lengths [OF "1.prems"(1)]
  show ?case
  proof (cases "budget < tv_total v \<and> 1 < length (tv_by_key v) \<and> tv_by_tick v \<noteq> []")
    case False
    with "1.prems"(3) have "v' = v" "e' = e"
      by (auto simp: evict_loop.simps)
    moreover have "tv_total v \<le> budget \<or> length (tv_by_key v) = 1"
      using False "1.prems"(2) len
      by (cases "tv_by_key v"; cases "tv_by_tick v") auto
    ultimately show ?thesis
      using "1.prems"(1,2) len by (auto intro!: exI [of _ 0])
  next
    case True
    then obtain t key rest where hd: "tv_by_tick v = (t, key) # rest"
      by (cases "tv_by_tick v") auto
    note one = view_inv_evict_one [OF "1.prems"(1) hd]
    have ne: "tv_by_key (evict_one v) \<noteq> []"
      using True view_inv_lengths [OF one(1)] len one(2) hd by (cases rest) auto
    have run: "evict_loop budget (evict_one v) (e + 1) = (v', e')"
      using True "1.prems"(3) by (subst (asm) evict_loop.simps) simp
    note IH = "1.IH" [OF True one(1) ne run]
    then obtain n where n: "n < length rest" "e' = e + 1 + of_nat n" "tv_by_tick v' = drop n rest"
        "\<And>k. hm_get (tv_by_key v') k =
          (if k \<in> snd ` set (take n rest) then None else hm_get (hm_remove key (tv_by_key v)) k)"
      by (auto simp: one(2,3))
    then have "Suc n < length (tv_by_tick v) \<and> e' = e + of_nat (Suc n) \<and>
        tv_by_tick v' = drop (Suc n) (tv_by_tick v) \<and>
        (\<forall>k. hm_get (tv_by_key v') k =
          (if k \<in> snd ` set (take (Suc n) (tv_by_tick v)) then None else hm_get (tv_by_key v) k))"
      by (simp add: hd algebra_simps)
    then have ex: "\<exists>n < length (tv_by_tick v). e' = e + of_nat n \<and> tv_by_tick v' = drop n (tv_by_tick v) \<and>
      (\<forall>k. hm_get (tv_by_key v') k =
        (if k \<in> snd ` set (take n (tv_by_tick v)) then None else hm_get (tv_by_key v) k))"
      by (rule exI)
    have "tv_next_tick v' = tv_next_tick v"
      using IH unfolding one(4) by (elim conjE)
    with IH ex show ?thesis
      by (intro conjI) (elim conjE, assumption)+
  qed
qed

text \<open>The tick just handed out is the last of the recency order.\<close>

lemma bt_insert_max:
  "(\<And>t. t \<in> fst ` set m \<Longrightarrow> t < n) \<Longrightarrow> bt_insert n k m = m @ [(n, k)]"
  by (induction n k m rule: bt_insert.induct) force+

lemma last_touched:
  assumes "view_inv v" "unat (tv_next_tick v) + 1 < 2 ^ 64"
  shows "last (tv_by_tick (view_touch key bytes v)) = (tv_next_tick v, key) \<and>
    tv_by_tick (view_touch key bytes v) \<noteq> []"
proof -
  note i = view_invD [OF assms(1)]
  have "t < tv_next_tick v" if "t \<in> fst ` set (tv_by_tick (view_forget key v))" for t
  proof -
    have "t \<in> fst ` set (tv_by_tick v)"
      using that bt_set_remove by (fastforce simp: view_forget_def split: option.splits)
    then have "bt_get (tv_by_tick v) t \<noteq> None"
      by (simp add: bt_get_None_iff)
    then show ?thesis
      using i(4) by auto
  qed
  moreover have "tv_next_tick (view_forget key v) = tv_next_tick v"
    by (simp add: view_forget_def split: option.splits)
  ultimately show ?thesis
    by (simp add: view_touch_def Let_def bt_insert_max)
qed

text \<open>Serving one entry under a budget.\<close>

lemma serve_spec:
  assumes inv: "view_inv v" and no_wrap: "unat (tv_next_tick v) + 1 < 2 ^ 64" and b: "budget \<noteq> 0"
    and run: "evict_to budget (view_touch key bytes v) = (n, v')"
  shows "view_inv v'" "tv_total v' \<le> budget \<or> tv_by_key v' = [(key, \<lparr>slot_bytes = bytes, slot_tick = tv_next_tick v\<rparr>)]"
    "hm_get (tv_by_key v') key = Some \<lparr>slot_bytes = bytes, slot_tick = tv_next_tick v\<rparr>"
proof -
  let ?T = "view_touch key bytes v"
  note t = view_inv_touch [OF inv no_wrap, of key bytes]
  have ne: "tv_by_key ?T \<noteq> []"
    using t(2) [of key] by auto
  have loop: "evict_loop budget ?T 0 = (v', n)"
    using run b by (auto simp: evict_to_def split: prod.splits)
  note spec = evict_loop_spec [OF t(1) ne loop]
  then show inv': "view_inv v'" by blast
  obtain d where d: "d < length (tv_by_tick ?T)" "tv_by_tick v' = drop d (tv_by_tick ?T)"
    using spec by blast
  then have "last (tv_by_tick v') = (tv_next_tick v, key)" "tv_by_tick v' \<noteq> []"
    using last_touched [OF inv no_wrap, of key bytes] by simp_all
  then have "(tv_next_tick v, key) \<in> set (tv_by_tick v')"
    by (metis last_in_set)
  then have "bt_get (tv_by_tick v') (tv_next_tick v) = Some key"
    using view_invD(2) [OF inv'] by (simp add: bt_get_def bt_wf_def strict_sorted_iff)
  then obtain b' where b': "hm_get (tv_by_key v') key = Some \<lparr>slot_bytes = b', slot_tick = tv_next_tick v\<rparr>"
    using view_invD(3) [OF inv'] by blast
  moreover have "hm_get (tv_by_key v') key = hm_get (tv_by_key ?T) key \<or> hm_get (tv_by_key v') key = None"
    using spec by (metis (no_types, lifting))
  ultimately show kept: "hm_get (tv_by_key v') key = Some \<lparr>slot_bytes = bytes, slot_tick = tv_next_tick v\<rparr>"
    using t(2) [of key] by simp
  show "tv_total v' \<le> budget \<or> tv_by_key v' = [(key, \<lparr>slot_bytes = bytes, slot_tick = tv_next_tick v\<rparr>)]"
  proof (cases "tv_total v' \<le> budget")
    case False
    with spec obtain p where "tv_by_key v' = [p]"
      by (auto simp: length_Suc_conv)
    with kept show ?thesis
      by (cases p) (auto simp: hm_get_Cons split: if_splits)
  qed simp
qed

section \<open>The ledger\<close>

text \<open>Every view satisfies the invariant; fewer than \<open>2\<^sup>6\<^sup>4\<close> serves have happened.\<close>

definition ledger_inv :: "ledger \<Rightarrow> bool" where
  "ledger_inv lg \<longleftrightarrow> (\<forall>i. view_inv (view_of lg i))"

lemma view_of_record:
  "view_of (ledger_record ident kind ns nm bytes bud lg) i =
     (if i = ident
      then snd (case bud of Some budget \<Rightarrow> evict_to budget (view_touch (kind, ns, nm) bytes (view_of lg ident))
             | None \<Rightarrow> (0, view_touch (kind, ns, nm) bytes (view_of lg ident)))
      else view_of lg i)"
  by (auto simp: ledger_record_def Let_def view_of_def case_prod_beta split: option.split)

lemma ledger_inv_record:
  assumes "ledger_inv lg" "unat (tv_next_tick (view_of lg ident)) + 1 < 2 ^ 64"
  shows "ledger_inv (ledger_record ident kind ns nm bytes bud lg)"
proof -
  have v: "view_inv (view_of lg ident)"
    using assms(1) by (simp add: ledger_inv_def)
  note t = view_inv_touch(1) [OF v assms(2), of "(kind, ns, nm)" bytes]
  have "view_inv (snd (evict_to b (view_touch (kind, ns, nm) bytes (view_of lg ident))))" for b
    using t serve_spec(1) [OF v assms(2), of b "(kind, ns, nm)" bytes]
    by (cases "b = 0") (simp add: evict_to_def, metis prod.collapse)
  with t show ?thesis
    using assms(1) by (auto simp: ledger_inv_def view_of_record split: option.splits)
qed

section \<open>Properties\<close>


definition demo_view :: tenant_view where
  "demo_view = view_touch (''config'', ''ns'', ''b'') 7 (view_touch (''config'', ''ns'', ''a'') 5 tenant_view_default)"

lemma demo_view_inv: "view_inv demo_view"
  unfolding demo_view_def
  by (intro view_inv_touch(1) view_inv_default)
    (simp_all add: view_touch_def view_forget_def tenant_view_default_def Let_def)

lemma demo_view_eq: "demo_view =
    \<lparr>tv_by_key = [((''config'', ''ns'', ''a''), \<lparr>slot_bytes = 5, slot_tick = 0\<rparr>),
       ((''config'', ''ns'', ''b''), \<lparr>slot_bytes = 7, slot_tick = 1\<rparr>)],
     tv_by_tick = [(0, (''config'', ''ns'', ''a'')), (1, (''config'', ''ns'', ''b''))],
     tv_total = 12, tv_next_tick = 2\<rparr>"
  by (simp add: demo_view_def view_touch_def view_forget_def tenant_view_default_def Let_def
      hm_insert_def hm_get_def)


text \<open>Serving an entry to a tenant in enforce mode with a non-zero budget leaves that
  tenant within its budget, or with the entry just served as its only one; the entry just served
  is always kept, at the byte cost of this serve; the views of other tenants do not change; and
  the published gauge is the tenant's total.\<close>

lemma serve_within_budget:
  assumes "ledger_inv lg" "unat (tv_next_tick (view_of lg (ca_identity a))) + 1 < 2 ^ 64"
    and "ca_mode a = QEnforce" "ca_budget a \<noteq> 0"
    and "lg' = accountant_record a ns nm bytes lg"
  shows "(tv_total (view_of lg' (ca_identity a)) \<le> ca_budget a \<or>
      map fst (tv_by_key (view_of lg' (ca_identity a))) = [(ca_kind a, ns, nm)]) \<and>
    map_option slot_bytes (hm_get (tv_by_key (view_of lg' (ca_identity a))) (ca_kind a, ns, nm)) = Some bytes \<and>
    (\<forall>i. i \<noteq> ca_identity a \<longrightarrow> view_of lg' i = view_of lg i) \<and>
    hm_get (lg_bytes_gauge lg') (ca_identity a) = Some (tv_total (view_of lg' (ca_identity a)))"
proof -
  let ?v = "view_of lg (ca_identity a)" and ?k = "(ca_kind a, ns, nm)"
  obtain n v' where run: "evict_to (ca_budget a) (view_touch ?k bytes ?v) = (n, v')"
    by (cases "evict_to (ca_budget a) (view_touch ?k bytes ?v)")
  have v: "view_inv ?v"
    using assms(1) by (simp add: ledger_inv_def)
  note s = serve_spec [OF v assms(2,4) run]
  have view: "view_of lg' i = (if i = ca_identity a then v' else view_of lg i)" for i
    using assms(3,5) run by (simp add: accountant_record_def view_of_record)
  have "hm_get (lg_bytes_gauge lg') (ca_identity a) = Some (tv_total v')"
    using assms(3,5) run by (simp add: accountant_record_def ledger_record_def Let_def)
  with s(2,3) show ?thesis
    by (auto simp: view)
qed

end
