(* ===== verification/Subscribe_Filter.thy ===== *)
theory Subscribe_Filter
  imports Konfig_Types
begin

text \<open>
  Filtering of subscriptions (\<open>grpc/subscribe/filter.rs\<close>): the hand-written parser of Kubernetes
  label selectors and the predicate that combines the \<open>names\<close> and \<open>label_selector\<close> of a request.
  The matcher of the kube crate is a parameter. The nesting depth of parentheses is an integer
  here and an \<open>i32\<close> in the code, which a request below gRPC's message size limit cannot overflow.
\<close>

section \<open>Selectors\<close>

type_synonym labels = "(string, string) btmap"

datatype expression =
    In string "string list"
  | NotIn string "string list"
  | Equal string string
  | NotEqual string string
  | Exists string
  | DoesNotExist string

type_synonym selector = "expression list"
type_synonym matcher = "selector \<Rightarrow> labels \<Rightarrow> bool"

definition invalid :: "string \<Rightarrow> status" where
  "invalid m = Status InvalidArgument (''invalid label_selector: '' @ m)"

definition unbalanced :: status where
  "unbalanced = invalid ''unbalanced parentheses''"

section \<open>Parser\<close>

text \<open>The loop over the characters: the current piece, the depth, the rest of the input.\<close>

fun split_loop :: "string \<Rightarrow> int \<Rightarrow> string \<Rightarrow> (string list) rpc" where
  "split_loop piece depth [] = (if depth \<noteq> 0 then Inl unbalanced else Inr [piece])"
| "split_loop piece depth (ch # rest) =
     (if ch = CHR ''('' then split_loop (piece @ [ch]) (depth + 1) rest
      else if ch = CHR '')'' then
        (if depth - 1 < 0 then Inl unbalanced else split_loop (piece @ [ch]) (depth - 1) rest)
      else if ch = CHR '','' \<and> depth = 0 then
        rbind (split_loop [] depth rest) (\<lambda>parts. Inr (piece # parts))
      else split_loop (piece @ [ch]) depth rest)"

definition split_top_level_requirements :: "string \<Rightarrow> (string list) rpc" where
  "split_top_level_requirements input = split_loop [] 0 input"

definition parse_key :: "string \<Rightarrow> string rpc" where
  "parse_key key = (let k = trim key in if k = [] then Inl (invalid ''empty key'') else Inr k)"

definition parse_value :: "string \<Rightarrow> string rpc" where
  "parse_value value = (let v = trim value in if v = [] then Inl (invalid ''empty value'') else Inr v)"

text \<open>A \<open>BTreeSet\<close> is its sorted list of elements.\<close>

fun value_set_loop :: "string list \<Rightarrow> string list \<Rightarrow> (string list) rpc" where
  "value_set_loop [] acc = Inr acc"
| "value_set_loop (v # vs) acc =
     (if trim v = [] then Inl (invalid ''empty value in set'')
      else value_set_loop vs (insort_insert (trim v) acc))"

definition parse_value_set :: "string \<Rightarrow> (string list) rpc" where
  "parse_value_set values_str =
     rbind (value_set_loop (split_on CHR '','' values_str) [])
       (\<lambda>s. if s = [] then Inl (invalid ''empty value set'') else Inr s)"

datatype set_op = SIn | SNotIn

text \<open>\<open>rsplit_once(char::is_whitespace)\<close>: around the last white-space character.\<close>

fun rsplit_once_ws :: "string \<Rightarrow> (string \<times> string) option" where
  "rsplit_once_ws [] = None"
| "rsplit_once_ws (c # s) =
     (case rsplit_once_ws s of
        Some (a, b) \<Rightarrow> Some (c # a, b)
      | None \<Rightarrow> if 0 < ws_len (c # s) then Some ([], drop (ws_len (c # s)) (c # s)) else None)"

definition split_set_head :: "string \<Rightarrow> (string \<times> set_op) rpc" where
  "split_set_head head = (case rsplit_once_ws head of
       None \<Rightarrow> Inl (invalid ''missing in/notin operator'')
     | Some (key_part, op_token) \<Rightarrow>
         let t = trim op_token in
         if t = ''in'' then rbind (parse_key key_part) (\<lambda>k. Inr (k, SIn))
         else if t = ''notin'' then rbind (parse_key key_part) (\<lambda>k. Inr (k, SNotIn))
         else Inl (invalid (''unknown set operator '' @ [CHR 0x27] @ t @ [CHR 0x27])))"

fun find_char :: "char \<Rightarrow> string \<Rightarrow> nat option" where
  "find_char c [] = None"
| "find_char c (x # xs) = (if x = c then Some 0 else map_option Suc (find_char c xs))"

fun rfind_char :: "char \<Rightarrow> string \<Rightarrow> nat option" where
  "rfind_char c [] = None"
| "rfind_char c (x # xs) = (case rfind_char c xs of
       Some i \<Rightarrow> Some (Suc i) | None \<Rightarrow> if x = c then Some 0 else None)"

definition slice :: "nat \<Rightarrow> nat \<Rightarrow> string \<Rightarrow> string" where
  "slice i j s = take (j - i) (drop i s)"

definition parse_set_requirement :: "string \<Rightarrow> nat \<Rightarrow> expression rpc" where
  "parse_set_requirement req open_at =
     (let head = trim (take open_at req) in
      case rfind_char CHR '')'' req of
        None \<Rightarrow> Inl unbalanced
      | Some close_at \<Rightarrow>
          if close_at < open_at then Inl unbalanced
          else rbind (split_set_head head) (\<lambda>(key, op).
               rbind (parse_value_set (slice (open_at + 1) close_at req)) (\<lambda>values.
               Inr (case op of SIn \<Rightarrow> In key values | SNotIn \<Rightarrow> NotIn key values))))"

definition parse_pair :: "(string \<Rightarrow> string \<Rightarrow> expression) \<Rightarrow> string \<times> string \<Rightarrow> expression rpc" where
  "parse_pair mk kv = rbind (parse_key (fst kv)) (\<lambda>k. rbind (parse_value (snd kv)) (\<lambda>v. Inr (mk k v)))"

definition parse_existence :: "string \<Rightarrow> expression rpc" where
  "parse_existence req = (case req of
       c # rest \<Rightarrow> if c = CHR ''!'' then rbind (parse_key rest) (\<lambda>k. Inr (DoesNotExist k))
                    else rbind (parse_key req) (\<lambda>k. Inr (Exists k))
     | [] \<Rightarrow> rbind (parse_key req) (\<lambda>k. Inr (Exists k)))"

definition parse_requirement :: "string \<Rightarrow> expression rpc" where
  "parse_requirement req =
     (if req = [] then Inl (invalid ''empty requirement'')
      else case find_char CHR ''('' req of
        Some open_at \<Rightarrow> parse_set_requirement req open_at
      | None \<Rightarrow> (case split_once2 CHR ''='' CHR ''='' req of
          Some kv \<Rightarrow> parse_pair Equal kv
        | None \<Rightarrow> (case split_once2 CHR ''!'' CHR ''='' req of
            Some kv \<Rightarrow> parse_pair NotEqual kv
          | None \<Rightarrow> (case split_once CHR ''='' req of
              Some kv \<Rightarrow> parse_pair Equal kv
            | None \<Rightarrow> parse_existence req))))"

fun parse_requirements :: "string list \<Rightarrow> selector rpc" where
  "parse_requirements [] = Inr []"
| "parse_requirements (req # reqs) =
     rbind (parse_requirement (trim req)) (\<lambda>e. rbind (parse_requirements reqs) (\<lambda>es. Inr (e # es)))"

definition parse_label_selector :: "string \<Rightarrow> selector rpc" where
  "parse_label_selector input =
     (let trimmed = trim input in
      if trimmed = [] then Inr []
      else rbind (split_top_level_requirements trimmed) parse_requirements)"

section \<open>The filter of a subscription\<close>

record subscribe_filter =
  sf_names :: "string list option"
  sf_selector :: selector

definition filter_new :: "string list \<Rightarrow> string \<Rightarrow> subscribe_filter rpc" where
  "filter_new names label_selector =
     (let ns = (if names = [] then None else Some names) in
      rbind (parse_label_selector label_selector) (\<lambda>sel. Inr \<lparr>sf_names = ns, sf_selector = sel\<rparr>))"

definition filter_allow :: "matcher \<Rightarrow> subscribe_filter \<Rightarrow> string \<Rightarrow> labels \<Rightarrow> bool" where
  "filter_allow matches f config_name ls \<longleftrightarrow>
     (case sf_names f of None \<Rightarrow> True | Some names \<Rightarrow> config_name \<in> set names) \<and> matches (sf_selector f) ls"

definition config_event_name :: "config_event \<Rightarrow> string option" where
  "config_event_name ev = map_option cm_name (ce_config ev)"

definition filter_allows_event :: "matcher \<Rightarrow> subscribe_filter \<Rightarrow> config_event \<Rightarrow> labels \<Rightarrow> bool" where
  "filter_allows_event matches f ev ls =
     (case config_event_name ev of Some nm \<Rightarrow> filter_allow matches f nm ls | None \<Rightarrow> False)"


section \<open>Canonical selectors\<close>

text \<open>The documented syntax of a selector whose keys and values are built from the characters
  Kubernetes allows in labels, and the documented meaning of its requirements.\<close>

definition label_char :: "char \<Rightarrow> bool" where
  "label_char c \<longleftrightarrow> (97 \<le> byte c \<and> byte c \<le> 122) \<or> (65 \<le> byte c \<and> byte c \<le> 90) \<or>
     (45 \<le> byte c \<and> byte c \<le> 57) \<or> byte c = 95"

definition token :: "string \<Rightarrow> bool" where
  "token s \<longleftrightarrow> s \<noteq> [] \<and> list_all label_char s"

definition value_set :: "string list \<Rightarrow> bool" where
  "value_set vs \<longleftrightarrow> vs \<noteq> [] \<and> sorted_wrt (<) vs \<and> list_all token vs"

fun wf_expr :: "expression \<Rightarrow> bool" where
  "wf_expr (In k vs) = (token k \<and> value_set vs)"
| "wf_expr (NotIn k vs) = (token k \<and> value_set vs)"
| "wf_expr (Equal k v) = (token k \<and> token v)"
| "wf_expr (NotEqual k v) = (token k \<and> token v)"
| "wf_expr (Exists k) = token k"
| "wf_expr (DoesNotExist k) = token k"

fun print_expr :: "expression \<Rightarrow> string" where
  "print_expr (In k vs) = k @ '' in ('' @ join_str '','' vs @ '')''"
| "print_expr (NotIn k vs) = k @ '' notin ('' @ join_str '','' vs @ '')''"
| "print_expr (Equal k v) = k @ ''='' @ v"
| "print_expr (NotEqual k v) = k @ ''!='' @ v"
| "print_expr (Exists k) = k"
| "print_expr (DoesNotExist k) = ''!'' @ k"

definition print_selector :: "selector \<Rightarrow> string" where
  "print_selector sel = join_str '','' (map print_expr sel)"

fun expr_holds :: "expression \<Rightarrow> labels \<Rightarrow> bool" where
  "expr_holds (In k vs) ls = (\<exists>v \<in> set vs. bt_get ls k = Some v)"
| "expr_holds (NotIn k vs) ls = (\<forall>v \<in> set vs. bt_get ls k \<noteq> Some v)"
| "expr_holds (Equal k v) ls = (bt_get ls k = Some v)"
| "expr_holds (NotEqual k v) ls = (bt_get ls k \<noteq> Some v)"
| "expr_holds (Exists k) ls = (bt_get ls k \<noteq> None)"
| "expr_holds (DoesNotExist k) ls = (bt_get ls k = None)"

definition matcher_documented :: "matcher \<Rightarrow> bool" where
  "matcher_documented matches \<longleftrightarrow> (\<forall>sel ls. matches sel ls = list_all (\<lambda>e. expr_holds e ls) sel)"

section \<open>Trimming and splitting of canonical text\<close>

definition graph_char :: "char \<Rightarrow> bool" where
  "graph_char c \<longleftrightarrow> 33 \<le> byte c \<and> byte c \<le> 126"

lemma label_char_graph: "label_char c \<Longrightarrow> graph_char c"
  by (auto simp: label_char_def graph_char_def)

lemma label_char_neq:
  "label_char c \<Longrightarrow> c \<noteq> CHR ''('' \<and> c \<noteq> CHR '')'' \<and> c \<noteq> CHR '','' \<and> c \<noteq> CHR ''='' \<and> c \<noteq> CHR ''!'' \<and> c \<noteq> CHR '' ''"
  by (auto simp: label_char_def)

lemma ws_len_graph: "graph_char c \<Longrightarrow> ws_len (c # s) = 0"
  by (auto simp: graph_char_def ws_len_def ws1_def ws2_def ws3_def split: list.splits)

lemma ws_len_rev_graph: "graph_char c \<Longrightarrow> ws_len_rev (c # s) = 0"
  by (auto simp: graph_char_def ws_len_rev_def ws1_def ws2_def ws3_def split: list.splits)

lemma trim_start_graph: "s \<noteq> [] \<Longrightarrow> graph_char (hd s) \<Longrightarrow> trim_start s = s"
  by (cases s) (auto simp: trim_start_def strip_by_stop ws_len_graph)

lemma trim_end_graph: "s \<noteq> [] \<Longrightarrow> graph_char (last s) \<Longrightarrow> trim_end s = s"
  by (cases s rule: rev_cases) (auto simp: trim_end_def strip_by_stop ws_len_rev_graph)

lemma trim_end_space: "trim_end (s @ '' '') = trim_end s"
  by (simp add: trim_end_def strip_by_step ws_len_rev_def ws1_def)

lemma trim_graph: "s \<noteq> [] \<Longrightarrow> graph_char (hd s) \<Longrightarrow> graph_char (last s) \<Longrightarrow> trim s = s"
  by (simp add: trim_def trim_start_graph trim_end_graph)

lemma trim_graph_space: "s \<noteq> [] \<Longrightarrow> graph_char (hd s) \<Longrightarrow> graph_char (last s) \<Longrightarrow> trim (s @ '' '') = s"
  by (simp add: trim_def trim_start_graph trim_end_graph trim_end_space)

lemma token_edges: "token s \<Longrightarrow> s \<noteq> [] \<and> graph_char (hd s) \<and> graph_char (last s)"
  by (auto simp: token_def list_all_iff label_char_graph)

lemma token_trim: "token s \<Longrightarrow> trim s = s"
  by (simp add: token_edges trim_graph)

lemma token_free:
  "token s \<Longrightarrow> CHR ''('' \<notin> set s \<and> CHR '')'' \<notin> set s \<and> CHR '','' \<notin> set s \<and> CHR ''='' \<notin> set s \<and> CHR ''!'' \<notin> set s"
  using label_char_neq by (auto simp: token_def list_all_iff)

lemma parse_key_token: "token k \<Longrightarrow> parse_key k = Inr k"
  by (simp add: parse_key_def token_trim token_edges)

lemma parse_value_token: "token v \<Longrightarrow> parse_value v = Inr v"
  by (simp add: parse_value_def token_trim token_edges)

lemma split_on_join:
  "vs \<noteq> [] \<Longrightarrow> \<forall>v \<in> set vs. c \<notin> set v \<Longrightarrow> split_on c (join_str [c] vs) = vs"
proof (induction vs rule: induct_list012)
  case (2 v)
  then have "c \<notin> set v" by simp
  then show ?case by (induction v) auto
next
  case (3 v w vs)
  have "split_on c (u @ c # s) = u # split_on c s" if "c \<notin> set u" for u s
    using that by (induction u) auto
  with 3 show ?case by simp
qed simp

lemma insort_insert_last: "\<forall>y \<in> set acc. y < x \<Longrightarrow> insort_insert x acc = acc @ [x]"
proof -
  assume less: "\<forall>y \<in> set acc. y < x"
  then have "insort x acc = acc @ [x]" by (induction acc) auto
  with less show ?thesis by (auto simp: insort_insert_key_def)
qed

lemma value_set_loop_sorted:
  "list_all token vs \<Longrightarrow> sorted_wrt (<) (acc @ vs) \<Longrightarrow> value_set_loop vs acc = Inr (acc @ vs)"
proof (induction vs arbitrary: acc)
  case (Cons v vs)
  then have "insort_insert v acc = acc @ [v]"
    by (intro insort_insert_last) (auto simp: sorted_wrt_append)
  with Cons show ?case
    by (simp add: token_trim token_edges)
qed simp

lemma parse_value_set_join: "value_set vs \<Longrightarrow> parse_value_set (join_str '','' vs) = Inr vs"
  by (auto simp: parse_value_set_def value_set_def split_on_join value_set_loop_sorted
      list_all_iff token_free)


section \<open>Requirements and their lists\<close>

lemma find_char_app: "c \<notin> set a \<Longrightarrow> find_char c (a @ c # b) = Some (length a)"
  by (induction a) auto

lemma find_char_None: "c \<notin> set s \<Longrightarrow> find_char c s = None"
  by (induction s) auto

lemma rfind_char_snoc: "rfind_char c (a @ [c]) = Some (length a)"
  by (induction a) auto

lemma rsplit_once_ws_token: "list_all label_char s \<Longrightarrow> rsplit_once_ws s = None"
  by (induction s) (auto simp: ws_len_graph label_char_graph)

lemma rsplit_once_ws_space: "list_all label_char b \<Longrightarrow> rsplit_once_ws (a @ CHR '' '' # b) = Some (a, b)"
proof (induction a)
  case Nil
  then show ?case
    by (simp add: rsplit_once_ws_token) (simp add: ws_len_def ws1_def)
qed simp

lemma split_once2_None: "c \<notin> set s \<Longrightarrow> split_once2 c d s = None"
  by (induction c d s rule: split_once2.induct) auto

lemma split_once2_once: "c \<notin> set a \<Longrightarrow> c \<notin> set b \<Longrightarrow> split_once2 c c (a @ c # b) = None"
proof (induction a)
  case Nil
  then show ?case by (cases b) (auto simp: split_once2_None)
next
  case (Cons x a)
  then show ?case by (cases "a @ c # b") auto
qed

lemma split_once2_app: "c \<notin> set a \<Longrightarrow> split_once2 c d (a @ c # d # b) = Some (a, b)"
proof (induction a)
  case (Cons x a)
  then show ?case by (cases "a @ c # d # b") auto
qed simp

lemma split_set_head_canonical:
  assumes "token k"
  shows "split_set_head (k @ '' in'') = Inr (k, SIn)" "split_set_head (k @ '' notin'') = Inr (k, SNotIn)"
proof -
  have t: "token ''in''" "token ''notin''" by (simp_all add: token_def label_char_def)
  show "split_set_head (k @ '' in'') = Inr (k, SIn)"
    using rsplit_once_ws_space [of "''in''" k] t(1) assms
    by (simp add: split_set_head_def token_trim parse_key_token token_def [of "''in''"] Let_def)
  show "split_set_head (k @ '' notin'') = Inr (k, SNotIn)"
    using rsplit_once_ws_space [of "''notin''" k] t(2) assms
    by (simp add: split_set_head_def token_trim parse_key_token token_def [of "''notin''"] Let_def)
qed

lemma parse_set_requirement_canonical:
  assumes "value_set vs" "head \<noteq> []" "graph_char (hd head)" "graph_char (last head)"
    and "CHR ''('' \<notin> set head" "split_set_head head = Inr (k, op)"
  shows "parse_requirement (head @ '' ('' @ join_str '','' vs @ '')'') =
    Inr (case op of SIn \<Rightarrow> In k vs | SNotIn \<Rightarrow> NotIn k vs)"
proof -
  let ?r = "head @ '' ('' @ join_str '','' vs @ '')''"
  have open_at: "find_char CHR ''('' ?r = Some (length head + 1)"
    using find_char_app [of "CHR ''(''" "head @ '' ''" "join_str '','' vs @ '')''"] assms by simp
  have close_at: "rfind_char CHR '')'' ?r = Some (length head + 2 + length (join_str '','' vs))"
    using rfind_char_snoc [of "CHR '')''" "head @ '' ('' @ join_str '','' vs"] by simp
  have "trim (take (length head + 1) ?r) = head"
    using trim_graph_space [of head] assms by simp
  moreover have "slice (length head + 1 + 1) (length head + 2 + length (join_str '','' vs)) ?r = join_str '','' vs"
    by (simp add: slice_def)
  ultimately show ?thesis
    using assms open_at close_at
    by (simp add: parse_requirement_def parse_set_requirement_def parse_value_set_join Let_def)
qed

lemma parse_requirement_print: "wf_expr e \<Longrightarrow> parse_requirement (print_expr e) = Inr e"
proof (cases e)
  case (In k vs)
  assume "wf_expr e"
  with In show ?thesis
    using parse_set_requirement_canonical [of vs "k @ '' in''" k SIn] token_edges [of k]
    by (auto simp: split_set_head_canonical token_free graph_char_def)
next
  case (NotIn k vs)
  assume "wf_expr e"
  with NotIn show ?thesis
    using parse_set_requirement_canonical [of vs "k @ '' notin''" k SNotIn] token_edges [of k]
    by (auto simp: split_set_head_canonical token_free graph_char_def)
next
  case (Equal k v)
  assume "wf_expr e"
  with Equal show ?thesis
    using token_free [of k] token_free [of v] split_once_Some_iff [of "CHR ''=''" "k @ CHR ''='' # v" k v]
    by (simp add: parse_requirement_def parse_pair_def find_char_None split_once2_once split_once2_None
        parse_key_token parse_value_token)
next
  case (NotEqual k v)
  assume "wf_expr e"
  with NotEqual show ?thesis
    using token_free [of k] token_free [of v] split_once2_once [of "CHR ''=''" "k @ ''!''" v]
    by (simp add: parse_requirement_def parse_pair_def find_char_None split_once2_app
        parse_key_token parse_value_token)
next
  case (Exists k)
  assume "wf_expr e"
  with Exists show ?thesis
    using token_free [of k] token_edges [of k] split_once_None_iff [of "CHR ''=''" k]
    by (auto simp: parse_requirement_def parse_existence_def find_char_None split_once2_None
        parse_key_token split: list.splits)
next
  case (DoesNotExist k)
  assume "wf_expr e"
  with DoesNotExist show ?thesis
    using token_free [of k] split_once_None_iff [of "CHR ''=''" k]
      split_once2_None [of "CHR ''=''" "CHR ''!'' # k"]
    by (cases k) (auto simp: parse_requirement_def parse_existence_def find_char_None split_once2_None
        parse_key_token)
qed

lemma split_loop_skip:
  "\<forall>c \<in> set s. c \<noteq> CHR ''('' \<and> c \<noteq> CHR '')'' \<and> (c = CHR '','' \<longrightarrow> d \<noteq> 0) \<Longrightarrow>
     split_loop p d (s @ rest) = split_loop (p @ s) d rest"
  by (induction s arbitrary: p) auto

lemma join_str_chars: "c \<in> set (join_str sep vs) \<Longrightarrow> c \<in> set sep \<or> (\<exists>v \<in> set vs. c \<in> set v)"
  by (induction sep vs rule: join_str.induct) auto

lemma split_loop_set:
  assumes "token k" "value_set vs" "\<forall>c \<in> set op. c \<noteq> CHR ''('' \<and> c \<noteq> CHR '')'' \<and> c \<noteq> CHR '',''"
  shows "split_loop p 0 (k @ op @ ''('' @ join_str '','' vs @ '')'' @ rest) =
    split_loop (p @ k @ op @ ''('' @ join_str '','' vs @ '')'') 0 rest"
proof -
  have head: "\<forall>c \<in> set (k @ op). c \<noteq> CHR ''('' \<and> c \<noteq> CHR '')'' \<and> (c = CHR '','' \<longrightarrow> (0::int) \<noteq> 0)"
    using assms token_free [of k] by auto
  have inner: "\<forall>c \<in> set (join_str '','' vs). c \<noteq> CHR ''('' \<and> c \<noteq> CHR '')'' \<and> (c = CHR '','' \<longrightarrow> (1::int) \<noteq> 0)"
    using assms(2) token_free by (fastforce simp: value_set_def list_all_iff dest!: join_str_chars)
  show ?thesis
    using split_loop_skip [OF head, of p "''('' @ join_str '','' vs @ '')'' @ rest"]
      split_loop_skip [OF inner, of "p @ k @ op @ ''(''" "'')'' @ rest"]
    by simp
qed

lemma split_loop_print:
  assumes "wf_expr e"
  shows "split_loop p 0 (print_expr e @ rest) = split_loop (p @ print_expr e) 0 rest"
proof -
  have flat: "split_loop p 0 (print_expr e @ rest) = split_loop (p @ print_expr e) 0 rest"
    if "\<forall>c \<in> set (print_expr e). c \<noteq> CHR ''('' \<and> c \<noteq> CHR '')'' \<and> c \<noteq> CHR '',''"
    using that by (intro split_loop_skip) auto
  show ?thesis
  proof (cases e)
    case (In k vs)
    with assms split_loop_set [of k vs "'' in ''" p rest] show ?thesis by simp
  next
    case (NotIn k vs)
    with assms split_loop_set [of k vs "'' notin ''" p rest] show ?thesis by simp
  qed (use assms flat token_free in \<open>auto\<close>)
qed

lemma split_printed:
  "sel \<noteq> [] \<Longrightarrow> list_all wf_expr sel \<Longrightarrow>
     split_loop [] 0 (join_str '','' (map print_expr sel)) = Inr (map print_expr sel)"
proof (induction sel rule: induct_list012)
  case (2 e)
  then show ?case using split_loop_print [of e "[]" "[]"] by simp
next
  case (3 e e' sel)
  then show ?case using split_loop_print [of e "[]"] by simp
qed simp

lemma print_expr_edges:
  "wf_expr e \<Longrightarrow> print_expr e \<noteq> [] \<and> graph_char (hd (print_expr e)) \<and> graph_char (last (print_expr e))"
  by (cases e) (auto simp: token_edges graph_char_def hd_append dest: token_edges)


lemma print_selector_edges:
  "sel \<noteq> [] \<Longrightarrow> list_all wf_expr sel \<Longrightarrow>
     print_selector sel \<noteq> [] \<and> graph_char (hd (print_selector sel)) \<and> graph_char (last (print_selector sel))"
proof (induction sel rule: induct_list012)
  case (2 e)
  then show ?case by (simp add: print_selector_def print_expr_edges)
next
  case (3 e e' sel)
  then show ?case using print_expr_edges [of e] by (simp add: print_selector_def)
qed simp

lemma parse_requirements_print:
  "list_all wf_expr sel \<Longrightarrow> parse_requirements (map print_expr sel) = Inr sel"
  by (induction sel) (simp_all add: print_expr_edges trim_graph parse_requirement_print)

lemma parse_print_selector: "list_all wf_expr sel \<Longrightarrow> parse_label_selector (print_selector sel) = Inr sel"
proof (cases "sel = []")
  case True
  then show ?thesis by (simp add: parse_label_selector_def print_selector_def)
next
  case False
  assume "list_all wf_expr sel"
  with False show ?thesis
    using print_selector_edges [of sel] split_printed [of sel]
    by (simp add: parse_label_selector_def trim_graph split_top_level_requirements_def
        parse_requirements_print print_selector_def)
qed

section \<open>What every accepted selector looks like\<close>

definition shaped :: "expression \<Rightarrow> bool" where
  "shaped e \<longleftrightarrow> (case e of
       In k vs \<Rightarrow> k \<noteq> [] \<and> vs \<noteq> [] \<and> sorted_wrt (<) vs \<and> [] \<notin> set vs
     | NotIn k vs \<Rightarrow> k \<noteq> [] \<and> vs \<noteq> [] \<and> sorted_wrt (<) vs \<and> [] \<notin> set vs
     | Equal k v \<Rightarrow> k \<noteq> [] \<and> v \<noteq> []
     | NotEqual k v \<Rightarrow> k \<noteq> [] \<and> v \<noteq> []
     | Exists k \<Rightarrow> k \<noteq> []
     | DoesNotExist k \<Rightarrow> k \<noteq> [])"

definition answers :: "('a \<Rightarrow> bool) \<Rightarrow> 'a rpc \<Rightarrow> bool" where
  "answers P r \<longleftrightarrow> (case r of Inl e \<Rightarrow> st_code e = InvalidArgument | Inr a \<Rightarrow> P a)"

lemma answers_simps [simp]:
  "answers P (Inl (invalid m))" "answers P (Inl unbalanced)" "answers P (Inr a) = P a"
  by (simp_all add: answers_def invalid_def unbalanced_def)

lemma answers_rbind: "answers P r \<Longrightarrow> (\<And>a. P a \<Longrightarrow> answers Q (f a)) \<Longrightarrow> answers Q (rbind r f)"
  by (cases r) (auto simp: answers_def)

lemma answers_parse_key: "answers (\<lambda>k. k \<noteq> []) (parse_key s)"
  by (simp add: parse_key_def Let_def)

lemma answers_parse_value: "answers (\<lambda>k. k \<noteq> []) (parse_value s)"
  by (simp add: parse_value_def Let_def)

lemma strict_sorted_insort_insert:
  "sorted_wrt (<) acc \<Longrightarrow> sorted_wrt (<) (insort_insert (x :: 'a::linorder) acc)"
  by (simp add: strict_sorted_iff sorted_insort_insert distinct_insort_insert)

lemma answers_value_set_loop:
  "sorted_wrt (<) acc \<Longrightarrow> [] \<notin> set acc \<Longrightarrow>
     answers (\<lambda>vs. sorted_wrt (<) vs \<and> [] \<notin> set vs) (value_set_loop vs acc)"
  by (induction vs acc rule: value_set_loop.induct)
    (auto simp: strict_sorted_insort_insert set_insort_insert)

lemma answers_parse_value_set:
  "answers (\<lambda>vs. vs \<noteq> [] \<and> sorted_wrt (<) vs \<and> [] \<notin> set vs) (parse_value_set s)"
  unfolding parse_value_set_def by (rule answers_rbind [OF answers_value_set_loop]) auto

lemma answers_split_set_head: "answers (\<lambda>(k, op). k \<noteq> []) (split_set_head s)"
  by (auto simp: split_set_head_def Let_def intro!: answers_rbind [OF answers_parse_key] split: option.splits)

lemma answers_parse_pair:
  "mk \<in> {Equal, NotEqual} \<Longrightarrow> answers shaped (parse_pair mk kv)"
  unfolding parse_pair_def
  by (rule answers_rbind [OF answers_parse_key], rule answers_rbind [OF answers_parse_value])
    (auto simp: shaped_def)

lemma answers_parse_existence: "answers shaped (parse_existence s)"
  by (auto simp: parse_existence_def shaped_def intro!: answers_rbind [OF answers_parse_key] split: list.splits)

lemma answers_parse_set_requirement: "answers shaped (parse_set_requirement req i)"
  by (auto simp: parse_set_requirement_def Let_def shaped_def split: option.splits set_op.splits
      intro!: answers_rbind [OF answers_split_set_head] answers_rbind [OF answers_parse_value_set])

lemma answers_parse_requirement: "answers shaped (parse_requirement req)"
  by (auto simp: parse_requirement_def answers_parse_pair answers_parse_existence
      answers_parse_set_requirement split: option.splits)

lemma answers_parse_requirements: "answers (list_all shaped) (parse_requirements reqs)"
proof (induction reqs)
  case (Cons req reqs)
  then show ?case
    by (auto intro!: answers_rbind [OF answers_parse_requirement] answers_rbind [OF Cons.IH])
qed simp

lemma answers_split_loop: "answers (\<lambda>_. True) (split_loop p d s)"
proof (induction p d s rule: split_loop.induct)
  case (2 p d c s)
  then show ?case by (auto intro!: answers_rbind [of "\<lambda>_. True"])
qed simp

section \<open>Properties\<close>

text \<open>Property C26. The selector parser inverts the documented syntax: every selector over label
  characters, with any mix of the six requirement forms, printed and parsed, is itself.\<close>

theorem selector_round_trip:
  assumes "list_all wf_expr sel"
  shows "parse_label_selector (print_selector sel) = Inr sel"
  using assms by (rule parse_print_selector)

theorem selector_round_trip_witness:
  "parse_label_selector
     (print_selector [In ''env'' [''prod'', ''stg''], NotEqual ''tier'' ''x'', DoesNotExist ''old''])
   = Inr [In ''env'' [''prod'', ''stg''], NotEqual ''tier'' ''x'', DoesNotExist ''old'']"
  using selector_round_trip [of "[In ''env'' [''prod'', ''stg''], NotEqual ''tier'' ''x'', DoesNotExist ''old'']"]
  by (simp add: token_def value_set_def label_char_def)


definition demo_matcher :: matcher where
  "demo_matcher sel ls = list_all (\<lambda>e. expr_holds e ls) sel"

definition demo_filter_event :: "string \<Rightarrow> config_event" where
  "demo_filter_event nm = \<lparr>ce_type = Modified, ce_config = Some \<lparr>cm_namespace = ''ns'', cm_name = nm,
     cm_schema_version = 1, cm_content_json = ''{}'', cm_resource_version = ''7'', cm_age_ms = 0,
     cm_stale_since_ms = -1\<rparr>\<rparr>"

lemma demo_filter:
  "filter_new [''svc''] ''tier=gold'' = Inr \<lparr>sf_names = Some [''svc''], sf_selector = [Equal ''tier'' ''gold'']\<rparr>"
  using parse_print_selector [of "[Equal ''tier'' ''gold'']"]
  by (simp add: filter_new_def print_selector_def token_def label_char_def)


end
