(* ===== verification/Bounded_Channel.thy ===== *)
theory Bounded_Channel
  imports Konfig_Prelude
begin

text \<open>
  The bounded channel between the task that serves a subscriber and the gRPC response stream
  (\<open>tokio::sync::mpsc\<close>), the send-or-disconnect discipline of \<open>grpc/subscribe/broadcast.rs\<close> that
  the config and secret subscriptions share, and the contract every sender satisfies: what it adds
  to the channel is a prefix of what it owes.
\<close>

section \<open>The channel of a subscriber\<close>

text \<open>
  A bounded channel: everything ever sent, how much of it the client has taken, whether the client
  has gone, and what the client does before each coming send: take some messages, or go.
\<close>

record 'ev channel =
  ch_sent :: "'ev rpc list"
  ch_taken :: nat
  ch_closed :: bool
  ch_reader :: "nat option list"

definition CHANNEL_CAPACITY :: nat where
  "CHANNEL_CAPACITY = 256"

definition channel_new :: "nat option list \<Rightarrow> 'ev channel" where
  "channel_new reader = \<lparr>ch_sent = [], ch_taken = 0, ch_closed = False, ch_reader = reader\<rparr>"

definition backlog :: "'ev channel \<Rightarrow> nat" where
  "backlog ch = length (ch_sent ch) - ch_taken ch"

definition reader_act :: "'ev channel \<Rightarrow> 'ev channel" where
  "reader_act ch = (case ch_reader ch of
       [] \<Rightarrow> ch
     | None # r \<Rightarrow> ch\<lparr>ch_closed := True, ch_reader := r\<rparr>
     | Some n # r \<Rightarrow> ch\<lparr>ch_taken := min (length (ch_sent ch)) (ch_taken ch + n), ch_reader := r\<rparr>)"

datatype send_result = Sent | Full | Closed

definition try_send :: "'ev rpc \<Rightarrow> 'ev channel \<Rightarrow> send_result \<times> 'ev channel" where
  "try_send msg ch0 =
     (let ch = reader_act ch0 in
      if ch_closed ch then (Closed, ch)
      else if CHANNEL_CAPACITY \<le> backlog ch then (Full, ch)
      else (Sent, ch\<lparr>ch_sent := ch_sent ch @ [msg]\<rparr>))"

datatype control_flow = Continue | Break

definition too_slow :: status where
  "too_slow = Status ResourceExhausted ''subscriber too slow''"

definition lagged :: status where
  "lagged = Status ResourceExhausted ''subscriber lagged''"

definition try_send_or_disconnect :: "'ev \<Rightarrow> 'ev channel \<Rightarrow> control_flow \<times> 'ev channel" where
  "try_send_or_disconnect ev ch = (case try_send (Inr ev) ch of
       (Sent, ch') \<Rightarrow> (Continue, ch')
     | (Full, ch') \<Rightarrow> (Break, snd (try_send (Inl too_slow) ch'))
     | (Closed, ch') \<Rightarrow> (Break, ch'))"

definition and_then ::
  "control_flow \<times> 'ev channel \<Rightarrow> ('ev channel \<Rightarrow> control_flow \<times> 'ev channel) \<Rightarrow> control_flow \<times> 'ev channel" where
  "and_then r k = (case r of (Continue, ch) \<Rightarrow> k ch | (Break, ch) \<Rightarrow> (Break, ch))"

section \<open>What reaches the channel\<close>

definition payloads :: "'ev channel \<Rightarrow> 'ev list" where
  "payloads ch = concat (map (case_sum (\<lambda>_. []) (\<lambda>ev. [ev])) (ch_sent ch))"

text \<open>A result delivers \<open>evs\<close> if it has appended a prefix of them, all of them unless it broke
  off, and the channel has not outgrown its capacity.\<close>

definition delivers :: "'ev list \<Rightarrow> 'ev channel \<Rightarrow> control_flow \<times> 'ev channel \<Rightarrow> bool" where
  "delivers evs ch r \<longleftrightarrow>
     (\<exists>rest. payloads ch @ evs = payloads (snd r) @ rest \<and> (fst r = Continue \<longrightarrow> rest = [])) \<and>
     (backlog ch \<le> CHANNEL_CAPACITY \<longrightarrow> backlog (snd r) \<le> CHANNEL_CAPACITY)"

lemma payloads_reader_act [simp]: "payloads (reader_act ch) = payloads ch"
  by (simp add: reader_act_def payloads_def split: list.splits option.splits)

lemma backlog_reader_act: "backlog (reader_act ch) \<le> backlog ch"
  by (auto simp: reader_act_def backlog_def split: list.splits option.splits)

lemma backlog_try_send: "backlog ch \<le> CHANNEL_CAPACITY \<Longrightarrow> backlog (snd (try_send msg ch)) \<le> CHANNEL_CAPACITY"
  using backlog_reader_act [of ch] by (auto simp: try_send_def Let_def backlog_def)

lemma payloads_try_send:
  "payloads (snd (try_send msg ch)) =
     payloads ch @ (case msg of Inl _ \<Rightarrow> [] | Inr ev \<Rightarrow> if fst (try_send msg ch) = Sent then [ev] else [])"
  using payloads_reader_act [of ch]
  by (auto simp: try_send_def Let_def payloads_def split: sum.splits)

lemma delivers_Nil: "delivers [] ch (r, ch)"
  by (simp add: delivers_def)

lemma delivers_refusal: "delivers [] ch (Break, snd (try_send (Inl e) ch))"
  by (simp add: delivers_def payloads_try_send backlog_try_send)

lemma delivers_try_send:
  "delivers [ev] ch (case try_send (Inr ev) ch of
       (Sent, ch') \<Rightarrow> (Continue, ch')
     | (Full, ch') \<Rightarrow> (Break, snd (try_send (Inl too_slow) ch'))
     | (Closed, ch') \<Rightarrow> (Break, ch'))"
proof -
  obtain res ch' where t: "try_send (Inr ev) ch = (res, ch')" by (cases "try_send (Inr ev) ch")
  have p: "payloads ch' = payloads ch @ (if res = Sent then [ev] else [])"
    using payloads_try_send [of "Inr ev" ch] by (simp add: t)
  have b: "backlog ch \<le> CHANNEL_CAPACITY \<Longrightarrow> backlog ch' \<le> CHANNEL_CAPACITY"
    using backlog_try_send [of ch "Inr ev"] by (simp add: t)
  show ?thesis
    using p b by (cases res) (simp_all add: t delivers_def payloads_try_send backlog_try_send)
qed

lemma delivers_and_then:
  assumes "delivers xs ch r" "\<And>ch'. delivers ys ch' (k ch')"
  shows "delivers (xs @ ys) ch (and_then r k)"
proof (cases "fst r")
  case Continue
  then obtain ch' where "r = (Continue, ch')" by (cases r) simp
  then show ?thesis
    using assms(1) assms(2) [of ch'] by (auto simp: delivers_def and_then_def simp flip: append_assoc)
next
  case Break
  then obtain ch' where r: "r = (Break, ch')" by (cases r) simp
  from assms(1) obtain rest where "payloads ch @ xs = payloads ch' @ rest"
    by (auto simp: delivers_def r)
  then have "payloads ch @ xs @ ys = payloads ch' @ (rest @ ys)"
    by (metis append_assoc)
  then have "\<exists>rest'. payloads ch @ xs @ ys = payloads ch' @ rest'" ..
  with assms(1) show ?thesis by (simp add: delivers_def and_then_def r)
qed

lemma try_send_or_disconnect_delivers: "delivers [ev] ch (try_send_or_disconnect ev ch)"
  unfolding try_send_or_disconnect_def by (rule delivers_try_send)

section \<open>Senders\<close>

text \<open>A task that sends for one item after the other and stops where a send breaks off; the
  contract of its single steps, and what follows for the whole sequence.\<close>

fun send_each ::
  "('x \<Rightarrow> 'ev channel \<Rightarrow> control_flow \<times> 'ev channel) \<Rightarrow> 'x list \<Rightarrow> 'ev channel \<Rightarrow> control_flow \<times> 'ev channel" where
  "send_each step [] ch = (Continue, ch)"
| "send_each step (x # xs) ch = and_then (step x ch) (send_each step xs)"

locale stream_sender =
  fixes step :: "'x \<Rightarrow> 'ev channel \<Rightarrow> control_flow \<times> 'ev channel" and owes :: "'x \<Rightarrow> 'ev list"
  assumes step_delivers: "delivers (owes x) ch (step x ch)"
begin

lemma send_each_delivers: "delivers (concat (map owes xs)) ch (send_each step xs ch)"
  by (induction xs arbitrary: ch)
    (simp_all add: delivers_Nil delivers_and_then step_delivers)

end

end
