(* ===== verification/Subscribe_Replay.thy ===== *)
theory Subscribe_Replay
  imports Subscribe_Filter Cow_Cache Bounded_Channel
begin

text \<open>
  What one subscriber receives (\<open>grpc/subscribe/replay.rs\<close> and the sending half of
  \<open>grpc/subscribe/broadcast.rs\<close>): the bounded replay buffer of a namespace, resuming from it, the
  snapshot fallback, and the bridge from the live broadcast into the subscriber's bounded channel.

  The task of a subscriber runs concurrently with the namespace watcher and with the client, so
  what it observes of them is an input: the replay buffer at the two moments it is locked, the
  cache when it is listed, the outcomes of the receive operations, and what the client does
  between two sends.
\<close>

section \<open>Replay buffer\<close>

record replay_entry =
  re_resource_version :: string
  re_resource_version_u64 :: u64
  re_event :: config_event
  re_labels :: labels

type_synonym replay_buffer = "replay_entry list"

definition REPLAY_BUFFER_SIZE :: nat where
  "REPLAY_BUFFER_SIZE = 1000"

definition push_replay :: "string \<Rightarrow> config_event \<Rightarrow> labels \<Rightarrow> replay_buffer \<Rightarrow> replay_buffer" where
  "push_replay rv ev ls buf = (case parse_u64 rv of
       None \<Rightarrow> buf
     | Some n \<Rightarrow>
         (let guard = (if REPLAY_BUFFER_SIZE \<le> length buf then tl buf else buf)
          in guard @ [\<lparr>re_resource_version = rv, re_resource_version_u64 = n, re_event = ev, re_labels = ls\<rparr>]))"

text \<open>The standard library's binary search, over the deque as one sequence: the last position not
  above the target is found by halving, then compared.\<close>

function bs_loop :: "('a \<Rightarrow> u64) \<Rightarrow> u64 \<Rightarrow> 'a list \<Rightarrow> nat \<Rightarrow> nat \<Rightarrow> nat" where
  "bs_loop key target xs base n =
     (if n \<le> 1 then base
      else let half = n div 2; mid = base + half
           in bs_loop key target xs (if target < key (xs ! mid) then base else mid) (n - half))"
  by pat_completeness auto
termination
  by (relation "measure (\<lambda>(key, target, xs, base, n). n)") auto

declare bs_loop.simps [simp del]

definition binary_search_by_key :: "('a \<Rightarrow> u64) \<Rightarrow> u64 \<Rightarrow> 'a list \<Rightarrow> nat option" where
  "binary_search_by_key key target xs =
     (if xs = [] then None
      else let base = bs_loop key target xs 0 (length xs)
           in if key (xs ! base) = target then Some base else None)"

section \<open>The bridge from the live broadcast\<close>

record broadcast_frame =
  bf_sent_at :: instant
  bf_event :: config_event
  bf_labels :: labels
  bf_parent_span :: "string option"

text \<open>How each \<open>select!\<close> resolves; an exhausted list is a bridge that is still waiting.\<close>

datatype recv = Drain_signal | Frame broadcast_frame | Lagged u64 | Recv_closed

fun bridge_broadcast :: "matcher \<Rightarrow> subscribe_filter \<Rightarrow> recv list \<Rightarrow> config_event channel \<Rightarrow> control_flow \<times> config_event channel" where
  "bridge_broadcast matches f [] ch = (Continue, ch)"
| "bridge_broadcast matches f (Drain_signal # rs) ch = (Break, ch)"
| "bridge_broadcast matches f (Frame fr # rs) ch =
     (if \<not> filter_allows_event matches f (bf_event fr) (bf_labels fr) then bridge_broadcast matches f rs ch
      else case try_send (Inr (bf_event fr)) ch of
          (Sent, ch') \<Rightarrow> bridge_broadcast matches f rs ch'
        | (Full, ch') \<Rightarrow> (Break, snd (try_send (Inl too_slow) ch'))
        | (Closed, ch') \<Rightarrow> (Break, ch'))"
| "bridge_broadcast matches f (Lagged n # rs) ch = (Break, snd (try_send (Inl lagged) ch))"
| "bridge_broadcast matches f (Recv_closed # rs) ch = (Break, ch)"

section \<open>Resuming\<close>

fun send_snapshots :: "config_event list \<Rightarrow> config_event channel \<Rightarrow> control_flow \<times> config_event channel" where
  "send_snapshots [] ch = (Continue, ch)"
| "send_snapshots (ev # evs) ch = (case try_send_or_disconnect ev ch of
       (Continue, ch') \<Rightarrow> send_snapshots evs ch' | (Break, ch') \<Rightarrow> (Break, ch'))"

fun send_items ::
  "matcher \<Rightarrow> subscribe_filter \<Rightarrow> (config_event \<times> labels) list \<Rightarrow> config_event channel \<Rightarrow> control_flow \<times> config_event channel" where
  "send_items matches f [] ch = (Continue, ch)"
| "send_items matches f ((ev, ls) # items) ch =
     (if \<not> filter_allows_event matches f ev ls then send_items matches f items ch
      else case try_send_or_disconnect ev ch of
          (Continue, ch') \<Rightarrow> send_items matches f items ch' | (Break, ch') \<Rightarrow> (Break, ch'))"

definition replay_item :: "replay_entry \<Rightarrow> config_event \<times> labels" where
  "replay_item e = (re_event e, re_labels e)"

definition resume_lookup :: "string \<Rightarrow> replay_buffer \<Rightarrow> nat option" where
  "resume_lookup resume_rv buf =
     Option.bind (if resume_rv = [] then None else parse_u64 resume_rv)
       (\<lambda>target. binary_search_by_key re_resource_version_u64 target buf)"

definition max_snapshot_rv :: "config_snapshot list \<Rightarrow> u64" where
  "max_snapshot_rv snaps = foldl (\<lambda>m s. case parse_u64 (cs_resource_version s) of
       Some rv \<Rightarrow> if m < rv then rv else m | None \<Rightarrow> m) 0 snaps"

definition snapshot_events ::
  "codecs \<Rightarrow> matcher \<Rightarrow> instant \<Rightarrow> subscribe_filter \<Rightarrow> config_snapshot list \<Rightarrow> config_event list" where
  "snapshot_events cd matches now f snaps =
     map (\<lambda>s. \<lparr>ce_type = Snapshot, ce_config = Some (snapshot_to_proto cd now s)\<rparr>)
       (filter (\<lambda>s. filter_allow matches f (cs_name s) (cs_labels s)) snaps)"

text \<open>\<open>buf\<close> is the buffer at the first lock, \<open>cache\<close> the cache when it is listed, \<open>buf'\<close> the
  buffer at the second lock, \<open>rs\<close> what the bridge receives.\<close>

definition resume_from_buffer ::
  "codecs \<Rightarrow> matcher \<Rightarrow> instant \<Rightarrow> string \<Rightarrow> replay_buffer \<Rightarrow> config_cache \<Rightarrow> replay_buffer \<Rightarrow> string \<Rightarrow>
   subscribe_filter \<Rightarrow> recv list \<Rightarrow> config_event channel \<Rightarrow> control_flow \<times> config_event channel" where
  "resume_from_buffer cd matches now resume_rv buf cache buf' ns f rs ch =
     and_then
       (case resume_lookup resume_rv buf of
          Some idx \<Rightarrow> send_items matches f (map replay_item (drop (idx + 1) buf)) ch
        | None \<Rightarrow>
            (let snapshots = config_cache_all_in_namespace cache ns;
                 max_rv = max_snapshot_rv snapshots
             in and_then (send_snapshots (snapshot_events cd matches now f snapshots) ch)
                  (send_items matches f
                     (map replay_item (filter (\<lambda>e. max_rv < re_resource_version_u64 e) buf')))))
       (bridge_broadcast matches f rs)"


section \<open>The buffer is a window on the history\<close>

definition last_n :: "nat \<Rightarrow> 'a list \<Rightarrow> 'a list" where
  "last_n n xs = drop (length xs - n) xs"

lemma last_n_short: "length xs \<le> n \<Longrightarrow> last_n n xs = xs"
  by (simp add: last_n_def)

lemma last_n_snoc:
  assumes "0 < n"
  shows "(if n \<le> length (last_n n xs) then tl (last_n n xs) else last_n n xs) @ [x] = last_n n (xs @ [x])"
proof (cases "n \<le> length xs")
  case True
  then have "tl (drop (length xs - n) xs) = drop (length xs - n + 1) xs"
    by (metis Suc_eq_plus1 drop_Suc tl_drop)
  with True assms show ?thesis
    by (simp add: last_n_def Suc_diff_le)
next
  case False
  then show ?thesis by (simp add: last_n_def)
qed

definition entry_of :: "string \<times> config_event \<times> labels \<Rightarrow> replay_entry option" where
  "entry_of p = (case p of (rv, ev, ls) \<Rightarrow> map_option (\<lambda>n.
     \<lparr>re_resource_version = rv, re_resource_version_u64 = n, re_event = ev, re_labels = ls\<rparr>) (parse_u64 rv))"

definition push_all :: "(string \<times> config_event \<times> labels) list \<Rightarrow> replay_buffer \<Rightarrow> replay_buffer" where
  "push_all ps buf = foldl (\<lambda>b (rv, ev, ls). push_replay rv ev ls b) buf ps"

lemma push_replay_window:
  "push_replay rv ev ls (last_n REPLAY_BUFFER_SIZE h) =
     last_n REPLAY_BUFFER_SIZE (h @ (case entry_of (rv, ev, ls) of None \<Rightarrow> [] | Some e \<Rightarrow> [e]))"
proof (cases "parse_u64 rv")
  case None
  then show ?thesis by (simp add: push_replay_def entry_of_def)
next
  case (Some n)
  have "0 < REPLAY_BUFFER_SIZE" by (simp add: REPLAY_BUFFER_SIZE_def)
  from Some show ?thesis
    by (simp only: push_replay_def entry_of_def Let_def last_n_snoc [OF \<open>0 < REPLAY_BUFFER_SIZE\<close>]
        option.case option.map prod.case)
qed

lemma push_all_window:
  "push_all ps (last_n REPLAY_BUFFER_SIZE h) = last_n REPLAY_BUFFER_SIZE (h @ List.map_filter entry_of ps)"
proof (induction ps arbitrary: h)
  case Nil
  then show ?case by (simp add: push_all_def)
next
  case (Cons p ps)
  obtain rv ev ls where p: "p = (rv, ev, ls)" by (cases p)
  have "push_all (p # ps) (last_n REPLAY_BUFFER_SIZE h) =
      push_all ps (push_replay rv ev ls (last_n REPLAY_BUFFER_SIZE h))"
    by (simp add: push_all_def p)
  then show ?case
    using Cons.IH by (simp add: push_replay_window p split: option.splits)
qed

section \<open>Searching\<close>

definition increasing :: "('a \<Rightarrow> u64) \<Rightarrow> 'a list \<Rightarrow> bool" where
  "increasing key xs \<longleftrightarrow> sorted_wrt (\<lambda>x y. key x < key y) xs"

lemma increasing_nth: "increasing key xs \<Longrightarrow> i < j \<Longrightarrow> j < length xs \<Longrightarrow> key (xs ! i) < key (xs ! j)"
  using sorted_wrt_nth_less [of "\<lambda>x y. key x < key y" xs i j] by (simp add: increasing_def)

lemma increasing_drop: "increasing key xs \<Longrightarrow> increasing key (drop n xs)"
  by (simp add: increasing_def sorted_wrt_drop)

lemma increasing_take: "increasing key xs \<Longrightarrow> increasing key (take n xs)"
  by (simp add: increasing_def sorted_wrt_take)

text \<open>The contract of a search by key, and what resuming needs of it: the entries behind a hit
  are exactly those with a larger key.\<close>

locale keyed_search =
  fixes key :: "'a \<Rightarrow> u64" and search :: "u64 \<Rightarrow> 'a list \<Rightarrow> nat option"
  assumes sound: "search t xs = Some i \<Longrightarrow> i < length xs \<and> key (xs ! i) = t"
    and found: "increasing key xs \<Longrightarrow> i < length xs \<Longrightarrow> search (key (xs ! i)) xs = Some i"
begin

lemma behind_hit:
  assumes "increasing key xs" "search t xs = Some i"
  shows "drop (i + 1) xs = filter (\<lambda>x. t < key x) xs"
proof -
  have i: "i < length xs" "key (xs ! i) = t" using sound assms(2) by auto
  have "\<not> t < key x" if x: "x \<in> set (take (i + 1) xs)" for x
  proof -
    obtain j where j: "j < i + 1" "x = xs ! j"
      using x by (auto simp: in_set_conv_nth)
    then show ?thesis
      using increasing_nth [OF assms(1), of j i] i by (cases "j = i") auto
  qed
  then have "filter (\<lambda>x. t < key x) (take (i + 1) xs) = []"
    by (auto simp: filter_empty_conv)
  moreover have "t < key x" if "x \<in> set (drop (i + 1) xs)" for x
    using that increasing_nth [OF assms(1), of i] i by (auto simp: in_set_conv_nth)
  then have "filter (\<lambda>x. t < key x) (drop (i + 1) xs) = drop (i + 1) xs"
    by (simp add: filter_id_conv)
  moreover have "filter (\<lambda>x. t < key x) xs =
      filter (\<lambda>x. t < key x) (take (i + 1) xs) @ filter (\<lambda>x. t < key x) (drop (i + 1) xs)"
    by (metis append_take_drop_id filter_append)
  ultimately show ?thesis by simp
qed

lemma miss_iff: "increasing key xs \<Longrightarrow> search t xs = None \<longleftrightarrow> t \<notin> key ` set xs"
proof (cases "search t xs")
  case None
  assume inc: "increasing key xs"
  have "key (xs ! i) \<noteq> t" if "i < length xs" for i
    using found [OF inc that] None by auto
  then have "t \<notin> key ` set xs" by (metis image_iff in_set_conv_nth)
  with None show ?thesis by simp
next
  case (Some i)
  then have "t \<in> key ` set xs" using sound [OF Some] by auto
  with Some show ?thesis by simp
qed

end

lemma bs_loop_bound: "0 < n \<Longrightarrow> bs_loop key t xs base n < base + n"
proof (induction key t xs base n rule: bs_loop.induct)
  case (1 key t xs base n)
  show ?case
  proof (cases "n \<le> 1")
    case True
    with 1 show ?thesis by (simp add: bs_loop.simps)
  next
    case False
    let ?b = "if t < key (xs ! (base + n div 2)) then base else base + n div 2"
    have "bs_loop key t xs ?b (n - n div 2) < ?b + (n - n div 2)"
      using 1(1) [of "n div 2" "base + n div 2"] False by (simp add: Let_def)
    with False show ?thesis
      by (subst bs_loop.simps) (auto simp: Let_def split: if_splits)
  qed
qed

lemma bs_loop_finds:
  "increasing key xs \<Longrightarrow> base \<le> i \<Longrightarrow> i < base + n \<Longrightarrow> base + n \<le> length xs \<Longrightarrow>
     bs_loop key (key (xs ! i)) xs base n = i"
proof (induction n arbitrary: base rule: less_induct)
  case (less n)
  show ?case
  proof (cases "n \<le> 1")
    case True
    with less.prems show ?thesis by (simp add: bs_loop.simps)
  next
    case False
    let ?mid = "base + n div 2"
    have "?mid < length xs" using less.prems False by linarith
    then have cmp: "key (xs ! i) < key (xs ! ?mid) \<longleftrightarrow> i < ?mid"
      using increasing_nth [OF less.prems(1), of i ?mid] increasing_nth [OF less.prems(1), of ?mid i]
        less.prems by (cases i ?mid rule: linorder_cases) auto
    have "bs_loop key (key (xs ! i)) xs (if i < ?mid then base else ?mid) (n - n div 2) = i"
      using less.prems False by (intro less.IH) (auto split: if_splits)
    with False cmp show ?thesis
      by (subst bs_loop.simps) (simp add: Let_def)
  qed
qed

interpretation std_search: keyed_search key "binary_search_by_key key" for key :: "'a \<Rightarrow> u64"
proof
  fix t xs i
  assume "binary_search_by_key key t xs = Some i"
  then show "i < length xs \<and> key (xs ! i) = t"
    using bs_loop_bound [of "length xs" key t xs 0]
    by (auto simp: binary_search_by_key_def Let_def split: if_splits)
next
  fix xs i
  assume "increasing key xs" "i < length xs"
  then show "binary_search_by_key key (key (xs ! i)) xs = Some i"
    using bs_loop_finds [of key xs 0 i "length xs"]
    by (auto simp: binary_search_by_key_def Let_def)
qed


section \<open>What reaches the channel\<close>

definition allowed :: "matcher \<Rightarrow> subscribe_filter \<Rightarrow> (config_event \<times> labels) list \<Rightarrow> config_event list" where
  "allowed matches f items = map fst (filter (\<lambda>(ev, ls). filter_allows_event matches f ev ls) items)"

definition send_item ::
  "matcher \<Rightarrow> subscribe_filter \<Rightarrow> config_event \<times> labels \<Rightarrow> config_event channel \<Rightarrow> control_flow \<times> config_event channel" where
  "send_item matches f item ch = (case item of (ev, ls) \<Rightarrow>
     if filter_allows_event matches f ev ls then try_send_or_disconnect ev ch else (Continue, ch))"

interpretation snapshot_sender: stream_sender try_send_or_disconnect "\<lambda>ev :: config_event. [ev]"
  by unfold_locales (rule try_send_or_disconnect_delivers)

interpretation item_sender: stream_sender "send_item matches f"
    "\<lambda>(ev, ls). if filter_allows_event matches f ev ls then [ev] else []" for matches f
  by unfold_locales
    (auto simp: send_item_def delivers_Nil try_send_or_disconnect_delivers split: prod.splits)

lemma send_snapshots_delivers: "delivers evs ch (send_snapshots evs ch)"
proof -
  have "send_snapshots evs ch = send_each try_send_or_disconnect evs ch"
    by (induction evs arbitrary: ch) (auto simp: and_then_def split: prod.splits control_flow.splits)
  then show ?thesis using snapshot_sender.send_each_delivers [of evs ch] by simp
qed

lemma allowed_concat:
  "allowed matches f items =
     concat (map (\<lambda>(ev, ls). if filter_allows_event matches f ev ls then [ev] else []) items)"
  by (induction items) (auto simp: allowed_def)

lemma send_items_delivers: "delivers (allowed matches f items) ch (send_items matches f items ch)"
proof -
  have "send_items matches f items ch = send_each (send_item matches f) items ch"
    by (induction items arbitrary: ch)
      (auto simp: and_then_def send_item_def split: prod.splits control_flow.splits)
  then show ?thesis using item_sender.send_each_delivers [of matches f items ch] by (simp add: allowed_concat)
qed

fun live_items :: "recv list \<Rightarrow> (config_event \<times> labels) list" where
  "live_items (Frame fr # rs) = (bf_event fr, bf_labels fr) # live_items rs"
| "live_items _ = []"

lemma bridge_broadcast_delivers:
  "delivers (allowed matches f (live_items rs)) ch (bridge_broadcast matches f rs ch)"
proof (induction rs arbitrary: ch)
  case (Cons r rs)
  show ?case
  proof (cases r)
    case (Frame fr)
    show ?thesis
    proof (cases "filter_allows_event matches f (bf_event fr) (bf_labels fr)")
      case True
      have "bridge_broadcast matches f (Frame fr # rs) ch =
          and_then (try_send_or_disconnect (bf_event fr) ch) (bridge_broadcast matches f rs)"
        using True
        by (simp add: and_then_def try_send_or_disconnect_def split: prod.splits send_result.splits)
      with True delivers_and_then [OF try_send_or_disconnect_delivers Cons.IH, of "bf_event fr" ch]
      show ?thesis by (simp add: allowed_def Frame)
    qed (use Cons Frame in \<open>simp add: allowed_def\<close>)
  next
    case (Lagged n)
    then show ?thesis by (simp add: delivers_refusal allowed_def)
  qed (simp_all add: delivers_Nil allowed_def)
qed (simp add: delivers_Nil allowed_def)

section \<open>What a subscriber is owed\<close>

definition catch_up ::
  "codecs \<Rightarrow> matcher \<Rightarrow> instant \<Rightarrow> string \<Rightarrow> replay_buffer \<Rightarrow> config_cache \<Rightarrow> replay_buffer \<Rightarrow> string \<Rightarrow>
   subscribe_filter \<Rightarrow> config_event list" where
  "catch_up cd matches now resume_rv buf cache buf' ns f = (case resume_lookup resume_rv buf of
       Some idx \<Rightarrow> allowed matches f (map replay_item (drop (idx + 1) buf))
     | None \<Rightarrow> let snapshots = config_cache_all_in_namespace cache ns in
         snapshot_events cd matches now f snapshots @
         allowed matches f (map replay_item
           (filter (\<lambda>e. max_snapshot_rv snapshots < re_resource_version_u64 e) buf')))"

lemma resume_delivers:
  "delivers (catch_up cd matches now resume_rv buf cache buf' ns f @ allowed matches f (live_items rs))
     ch (resume_from_buffer cd matches now resume_rv buf cache buf' ns f rs ch)"
  unfolding resume_from_buffer_def
  by (rule delivers_and_then [OF _ bridge_broadcast_delivers])
    (auto simp: catch_up_def Let_def send_items_delivers
      intro!: delivers_and_then send_snapshots_delivers send_items_delivers split: option.split)


text \<open>An event of the history as the watcher pushes it; an entry is genuine if its number is the
  number its text denotes.\<close>

definition push_args :: "replay_entry \<Rightarrow> string \<times> config_event \<times> labels" where
  "push_args e = (re_resource_version e, re_event e, re_labels e)"

definition genuine :: "replay_entry \<Rightarrow> bool" where
  "genuine e \<longleftrightarrow> parse_u64 (re_resource_version e) = Some (re_resource_version_u64 e)"

lemma entry_of_push_args: "genuine e \<Longrightarrow> entry_of (push_args e) = Some e"
  by (simp add: entry_of_def push_args_def genuine_def)

lemma map_filter_genuine: "list_all genuine es \<Longrightarrow> List.map_filter entry_of (map push_args es) = es"
  by (induction es) (simp_all add: entry_of_push_args)

lemma push_all_from_empty: "push_all ps [] = last_n REPLAY_BUFFER_SIZE (List.map_filter entry_of ps)"
  using push_all_window [of ps "[]"] by (simp add: last_n_def)

lemma buffer_of_history:
  "list_all genuine es \<Longrightarrow> push_all (map push_args es) [] = last_n REPLAY_BUFFER_SIZE es"
  by (simp add: push_all_from_empty map_filter_genuine)

lemma resume_lookup_history:
  assumes "list_all genuine es" "increasing re_resource_version_u64 es"
    and "p < length es" "length es \<le> p + REPLAY_BUFFER_SIZE"
  shows "resume_lookup (re_resource_version (es ! p)) (last_n REPLAY_BUFFER_SIZE es) =
    Some (p - (length es - REPLAY_BUFFER_SIZE))"
proof -
  let ?d = "length es - REPLAY_BUFFER_SIZE"
  have g: "parse_u64 (re_resource_version (es ! p)) = Some (re_resource_version_u64 (es ! p))"
    using assms by (simp add: list_all_length genuine_def)
  then have ne: "re_resource_version (es ! p) \<noteq> []"
    by (auto simp: parse_u64_def parse_uint_def)
  have "es ! p = last_n REPLAY_BUFFER_SIZE es ! (p - ?d)"
    using assms by (simp add: last_n_def)
  moreover have "p - ?d < length (last_n REPLAY_BUFFER_SIZE es)"
    using assms by (auto simp: last_n_def)
  ultimately show ?thesis
    using std_search.found [of re_resource_version_u64 "last_n REPLAY_BUFFER_SIZE es" "p - ?d"] assms g ne
    by (simp add: resume_lookup_def last_n_def increasing_drop)
qed

lemma resume_hit_catch_up:
  assumes "list_all genuine es" "increasing re_resource_version_u64 es"
    and "p < length es" "length es \<le> p + REPLAY_BUFFER_SIZE"
  shows "catch_up cd matches now (re_resource_version (es ! p)) (push_all (map push_args es) []) cache buf' ns f =
    allowed matches f (map replay_item (drop (p + 1) es))"
proof -
  have "drop (p - (length es - REPLAY_BUFFER_SIZE) + 1) (last_n REPLAY_BUFFER_SIZE es) = drop (p + 1) es"
    using assms(3,4) by (auto simp: last_n_def intro: arg_cong [where f = "\<lambda>n. drop n es"])
  with resume_lookup_history [OF assms] show ?thesis
    by (simp add: catch_up_def buffer_of_history assms(1))
qed

text \<open>What a stream that goes on carries after a hit.\<close>

lemma resume_hit_payloads:
  assumes "list_all genuine hist" "increasing re_resource_version_u64 hist"
    and "p < b" "b \<le> p + REPLAY_BUFFER_SIZE" "a \<le> b" "b \<le> length hist"
    and "live_items rs = map replay_item (drop a hist)"
    and "resume_from_buffer cd matches now (re_resource_version (hist ! p))
      (push_all (map push_args (take b hist)) []) cache buf' ns f rs ch = (Continue, ch')"
  shows "payloads ch' = payloads ch @ allowed matches f (map replay_item (drop (p + 1) (take b hist))) @
      allowed matches f (map replay_item (drop a hist))"
proof -
  have "catch_up cd matches now (re_resource_version (hist ! p)) (push_all (map push_args (take b hist)) [])
      cache buf' ns f = allowed matches f (map replay_item (drop (p + 1) (take b hist)))"
    using resume_hit_catch_up [of "take b hist" p] assms(1-6)
    by (simp add: increasing_take list_all_iff) (meson in_set_takeD)
  then show ?thesis
    using resume_delivers [of cd matches now "re_resource_version (hist ! p)"
      "push_all (map push_args (take b hist)) []" cache buf' ns f rs ch] assms(7,8)
    by (simp add: delivers_def)
qed

section \<open>Properties\<close>

text \<open>Whatever is pushed, the replay buffer of a namespace is exactly the window of the
  last thousand events whose resource version is numeric, in the order of their arrival; it never
  grows beyond a thousand entries.\<close>

lemma replay_buffer_window:
  "push_all ps [] = last_n REPLAY_BUFFER_SIZE (List.map_filter entry_of ps) \<and>
   length (push_all ps []) \<le> REPLAY_BUFFER_SIZE"
  by (simp add: push_all_from_empty) (simp add: last_n_def)


text \<open>Property C8. A reconnecting subscriber misses nothing: suppose it last saw the event at
  position \<open>p\<close> of the namespace's history, attached to the broadcast when \<open>a\<close> events had been sent,
  and found its resume version in the buffer, read when \<open>b \<ge> a\<close> events had been pushed. As long as
  its stream goes on it carries the allowed events \<open>p+1 .. b-1\<close> from the buffer and those from \<open>a\<close>
  on live, so every allowed event after \<open>p\<close> is delivered.\<close>

theorem resume_hit_misses_nothing:
  assumes "list_all genuine hist" "increasing re_resource_version_u64 hist"
    and "p < b" "b \<le> p + REPLAY_BUFFER_SIZE" "a \<le> b" "b \<le> length hist"
    and "live_items rs = map replay_item (drop a hist)"
    and "resume_from_buffer cd matches now (re_resource_version (hist ! p))
      (push_all (map push_args (take b hist)) []) cache buf' ns f rs ch = (Continue, ch')"
  shows "payloads ch' = payloads ch @ allowed matches f (map replay_item (drop (p + 1) (take b hist))) @
      allowed matches f (map replay_item (drop a hist)) \<and>
    (\<forall>j. p < j \<and> j < length hist \<and> filter_allows_event matches f (re_event (hist ! j)) (re_labels (hist ! j)) \<longrightarrow>
      re_event (hist ! j) \<in> set (drop (length (payloads ch)) (payloads ch')))"
proof -
  note eq = resume_hit_payloads [OF assms]
  have in_allowed: "re_event e \<in> set (allowed matches f (map replay_item es))"
    if "e \<in> set es" "filter_allows_event matches f (re_event e) (re_labels e)" for e es
    using that by (force simp: allowed_def replay_item_def)
  have "hist ! j \<in> set (drop (p + 1) (take b hist)) \<or> hist ! j \<in> set (drop a hist)"
    if "p < j" "j < length hist" for j
  proof (cases "j < b")
    case True
    with that assms(6) show ?thesis
      by (intro disjI1) (auto simp: in_set_conv_nth intro!: exI [of _ "j - (p + 1)"])
  next
    case False
    with that assms(5) show ?thesis
      by (intro disjI2) (auto simp: in_set_conv_nth intro!: exI [of _ "j - a"])
  qed
  with eq in_allowed show ?thesis by fastforce
qed


section \<open>An example\<close>

definition demo_entry :: "u64 \<Rightarrow> replay_entry" where
  "demo_entry v = \<lparr>re_resource_version = show_nat (unat v), re_resource_version_u64 = v,
     re_event = demo_filter_event (show_nat (unat v)), re_labels = []\<rparr>"

definition demo_hist :: "replay_entry list" where
  "demo_hist = [demo_entry 4, demo_entry 7, demo_entry 9]"

definition demo_any :: subscribe_filter where
  "demo_any = \<lparr>sf_names = None, sf_selector = []\<rparr>"

definition demo_live :: "recv list" where
  "demo_live = [Frame \<lparr>bf_sent_at = 0, bf_event = re_event (demo_entry 9), bf_labels = [], bf_parent_span = None\<rparr>]"

definition demo_channel :: "config_event channel" where
  "demo_channel = (channel_new [])\<lparr>ch_sent := [Inr (re_event (demo_entry 7)), Inr (re_event (demo_entry 9))]\<rparr>"

lemma demo_genuine: "genuine (demo_entry v)"
  by (simp add: demo_entry_def genuine_def parse_u64_show)

lemma demo_hist_ok: "list_all genuine demo_hist" "increasing re_resource_version_u64 demo_hist"
  by (simp_all add: demo_hist_def demo_genuine) (simp add: demo_entry_def increasing_def)

lemma demo_any_allows: "filter_allows_event demo_matcher demo_any (re_event (demo_entry v)) ls"
  by (simp add: filter_allows_event_def config_event_name_def filter_allow_def demo_any_def
      demo_matcher_def demo_entry_def demo_filter_event_def)

lemma demo_resume:
  "resume_from_buffer demo_codecs demo_matcher 0 (re_resource_version (demo_hist ! 0))
     (push_all (map push_args (take 2 demo_hist)) []) (config_cache_new (config_snapshot_default 0)) [] ''ns''
     demo_any demo_live (channel_new []) = (Continue, demo_channel)"
proof -
  have ok: "list_all genuine (take 2 demo_hist)" "increasing re_resource_version_u64 (take 2 demo_hist)"
    using demo_hist_ok by (auto simp: increasing_take list_all_iff dest: in_set_takeD)
  have look: "resume_lookup (re_resource_version (demo_hist ! 0)) (take 2 demo_hist) = Some 0"
    using resume_lookup_history [OF ok, of 0] by (simp add: demo_hist_def REPLAY_BUFFER_SIZE_def last_n_def)
  have buf: "push_all (map push_args (take 2 demo_hist)) [] = take 2 demo_hist"
    unfolding buffer_of_history [OF ok(1)]
    by (rule last_n_short) (simp add: REPLAY_BUFFER_SIZE_def demo_hist_def)
  have "drop 1 (take 2 demo_hist) = [demo_entry 7]" by (simp add: demo_hist_def)
  then show ?thesis
    unfolding resume_from_buffer_def buf look
    by (simp add: replay_item_def and_then_def demo_live_def demo_any_allows try_send_or_disconnect_def
        try_send_def reader_act_def channel_new_def backlog_def CHANNEL_CAPACITY_def demo_channel_def)
qed


theorem resume_hit_misses_nothing_witness:
  "re_event (demo_entry 9) \<in> set (drop (length (payloads (channel_new [] :: config_event channel))) (payloads demo_channel)) \<and>
   payloads demo_channel = payloads (channel_new []) @
     allowed demo_matcher demo_any (map replay_item (drop (0 + 1) (take 2 demo_hist))) @
     allowed demo_matcher demo_any (map replay_item (drop 2 demo_hist))"
proof -
  have live: "live_items demo_live = map replay_item (drop 2 demo_hist)"
    by (simp add: demo_live_def demo_hist_def replay_item_def demo_entry_def)
  have ok: "filter_allows_event demo_matcher demo_any (re_event (demo_hist ! 2)) (re_labels (demo_hist ! 2))"
    by (simp add: demo_hist_def demo_any_allows)
  note all = resume_hit_misses_nothing [OF demo_hist_ok _ _ _ _ live demo_resume]
  show ?thesis
    using all ok by (force simp: REPLAY_BUFFER_SIZE_def demo_hist_def)
qed

end
