(* ===== verification/Schema_Registry.thy ===== *)
theory Schema_Registry
  imports Object_Mirror
begin

text \<open>
  The JSON-schema registry (\<open>schema.rs\<close>): the table keyed by namespace and config name, its watcher,
  and validation of applied content. The \<open>jsonschema\<close> crate is a parameter: how a document compiles
  to a validator and which errors a validator reports for a value.
\<close>

section \<open>Registry\<close>

record 'v schema_lib =
  draft7_new :: "json \<Rightarrow> string + 'v"
  iter_errors :: "'v \<Rightarrow> json \<Rightarrow> string list"

record schema_spec =
  sspec_config_name :: string
  sspec_schema :: json

type_synonym schema_decoder = "json \<Rightarrow> string + schema_spec"
type_synonym 'v schema_table = "(string \<times> string, 'v) hmap"

definition compiled_validate :: "'v schema_lib \<Rightarrow> 'v \<Rightarrow> json \<Rightarrow> string list + unit" where
  "compiled_validate lib v content =
     (let errors = iter_errors lib v content in if errors = [] then Inr () else Inl errors)"

definition schema_validate ::
  "'v schema_lib \<Rightarrow> 'v schema_table \<Rightarrow> string \<Rightarrow> string \<Rightarrow> json \<Rightarrow> string list + unit" where
  "schema_validate lib table ns cn content = (case hm_get table (ns, cn) of
       Some v \<Rightarrow> compiled_validate lib v content
     | None \<Rightarrow> Inr ())"

section \<open>Watcher\<close>

record 'v schema_entry =
  sch_key :: "string \<times> string"
  sch_schema :: 'v

definition parse_schema_object ::
  "'v schema_lib \<Rightarrow> schema_decoder \<Rightarrow> dynamic_object \<Rightarrow> 'v schema_entry option" where
  "parse_schema_object lib dec obj =
     (let ns = unwrap_or_default (meta_namespace (obj_metadata obj))
      in if trim ns = [] then None
         else case json_get ''spec'' (obj_data obj) of None \<Rightarrow> None
           | Some sv \<Rightarrow> (case dec sv of Inl _ \<Rightarrow> None
             | Inr spec \<Rightarrow>
                 let cn = trim (sspec_config_name spec)
                 in if cn = [] then None
                    else (case draft7_new lib (sspec_schema spec) of Inl _ \<Rightarrow> None
                      | Inr v \<Rightarrow> Some \<lparr>sch_key = (ns, cn), sch_schema = v\<rparr>)))"

type_synonym 'v schema_mirror = "(string, 'v schema_entry) hmap"

definition schema_apply ::
  "'v schema_lib \<Rightarrow> schema_decoder \<Rightarrow> dynamic_object \<Rightarrow> 'v schema_mirror \<Rightarrow> 'v schema_mirror" where
  "schema_apply lib dec obj objects = (case parse_schema_object lib dec obj of
       Some entry \<Rightarrow> hm_insert (object_key obj) entry objects
     | None \<Rightarrow> hm_remove (object_key obj) objects)"

fun handle_schema_event ::
  "'v schema_lib \<Rightarrow> schema_decoder \<Rightarrow> dynamic_object watch_event \<Rightarrow> 'v schema_mirror \<times> bool \<Rightarrow>
   bool \<times> 'v schema_mirror \<times> bool" where
  "handle_schema_event lib dec (Apply obj) (objects, synced) = (True, schema_apply lib dec obj objects, synced)"
| "handle_schema_event lib dec (InitApply obj) (objects, synced) = (True, schema_apply lib dec obj objects, synced)"
| "handle_schema_event lib dec (Delete obj) (objects, synced) = (True, hm_remove (object_key obj) objects, synced)"
| "handle_schema_event lib dec Init (objects, synced) = (False, objects, synced)"
| "handle_schema_event lib dec InitDone (objects, synced) = (False, objects, True)"

definition schema_publish :: "'v schema_mirror \<Rightarrow> 'v schema_table" where
  "schema_publish objects = foldl (\<lambda>t e. hm_insert (sch_key e) (sch_schema e) t) [] (hm_values objects)"

definition pump_schema_events ::
  "'v schema_lib \<Rightarrow> schema_decoder \<Rightarrow> dynamic_object watch_stream \<Rightarrow> 'v schema_table watched \<Rightarrow>
   pump_outcome \<times> 'v schema_table watched" where
  "pump_schema_events lib dec stream st =
     (stream_outcome (ws_end stream),
      snd (pump_mirror (handle_schema_event lib dec) schema_publish (map snd (ws_events stream)) [] st))"

definition schema_run ::
  "'v schema_lib \<Rightarrow> schema_decoder \<Rightarrow> dynamic_object watch_stream list \<Rightarrow> 'v schema_table watched \<Rightarrow>
   bool \<times> 'v schema_table watched \<times> u64 list" where
  "schema_run lib dec conns st = mirror_run (pump_schema_events lib dec) 0 conns st"

section \<open>Lemmas\<close>

interpretation schema_mirror: mirror_handler "handle_schema_event lib dec" "parse_schema_object lib dec"
proof unfold_locales
  fix ev :: "dynamic_object watch_event" and objects :: "'a schema_mirror" and sy :: bool
  show "fst (handle_schema_event lib dec ev (objects, sy)) = mutating ev"
    by (cases ev) auto
  show "hm_get (fst (snd (handle_schema_event lib dec ev (objects, sy)))) key =
      live_step (parse_schema_object lib dec) key (hm_get objects key) ev" for key
    by (cases ev) (auto simp: schema_apply_def split: option.splits)
  show "hm_wf objects \<Longrightarrow> hm_wf (fst (snd (handle_schema_event lib dec ev (objects, sy))))"
    by (cases ev) (auto simp: schema_apply_def split: option.splits)
  show "snd (snd (handle_schema_event lib dec ev (objects, sy))) = (sy \<or> ev = InitDone)"
    by (cases ev) auto
  show "\<not> mutating ev \<Longrightarrow> fst (snd (handle_schema_event lib dec ev (objects, sy))) = objects"
    by (cases ev) auto
qed

lemma get_foldl_publish:
  "hm_get (foldl (\<lambda>t e. hm_insert (sch_key e) (sch_schema e) t) t0 es) key =
     (case find (\<lambda>e. sch_key e = key) (rev es) of Some e \<Rightarrow> Some (sch_schema e) | None \<Rightarrow> hm_get t0 key)"
proof (induction es rule: rev_induct)
  case (snoc e es)
  then show ?case by (auto split: option.split)
qed simp

text \<open>A published schema comes from a live object for the key, and a live object means some schema
  is published.\<close>

lemma schema_publish_get:
  assumes "hm_wf objects"
  shows "(case hm_get (schema_publish objects) key of
      Some v \<Rightarrow> \<exists>obj e. hm_get objects obj = Some e \<and> sch_key e = key \<and> sch_schema e = v
    | None \<Rightarrow> \<forall>obj e. hm_get objects obj = Some e \<longrightarrow> sch_key e \<noteq> key)"
proof (cases "find (\<lambda>e. sch_key e = key) (rev (hm_values objects))")
  case None
  then have "\<forall>e \<in> set (hm_values objects). sch_key e \<noteq> key"
    by (auto simp: find_None_iff)
  then show ?thesis
    using None hm_values_iff [OF assms] by (auto simp: schema_publish_def get_foldl_publish)
next
  case (Some e)
  then have "sch_key e = key" "e \<in> set (hm_values objects)"
    by (auto simp: find_Some_iff) (metis length_rev nth_mem set_rev)
  then show ?thesis
    using Some hm_values_iff [OF assms] by (auto simp: schema_publish_def get_foldl_publish)
qed

text \<open>The validators of the live objects that govern a config.\<close>

definition governing ::
  "'v schema_lib \<Rightarrow> schema_decoder \<Rightarrow> dynamic_object watch_event list \<Rightarrow> string \<Rightarrow> string \<Rightarrow> 'v set" where
  "governing lib dec evs ns cn =
     {sch_schema e |key e. live (parse_schema_object lib dec) evs key = Some e \<and> sch_key e = (ns, cn)}"

text \<open>Validation against the table a changing connection leaves.\<close>

lemma validate_after_connection:
  assumes "list_ex mutating (map snd (ws_events stream))"
  shows "governing lib dec (map snd (ws_events stream)) ns cn = {} \<Longrightarrow>
      schema_validate lib (wt_table (snd (pump_schema_events lib dec stream st))) ns cn content = Inr ()"
    and "governing lib dec (map snd (ws_events stream)) ns cn \<noteq> {} \<Longrightarrow> \<exists>v \<in> governing lib dec (map snd (ws_events stream)) ns cn.
      schema_validate lib (wt_table (snd (pump_schema_events lib dec stream st))) ns cn content =
        (if iter_errors lib v content = [] then Inr () else Inl (iter_errors lib v content))"
proof -
  let ?evs = "map snd (ws_events stream)"
  let ?m = "fst (pump_mirror (handle_schema_event lib dec) schema_publish ?evs [] st)"
  note conn = schema_mirror.connection [where lib = lib and dec = dec and publish = schema_publish
      and evs = ?evs and st = st]
  have t: "wt_table (snd (pump_schema_events lib dec stream st)) = schema_publish ?m"
    using conn(3) assms by (simp add: pump_schema_events_def)
  note g = schema_publish_get [OF conn(1), of "(ns, cn)", unfolded conn(2)]
  show "schema_validate lib (wt_table (snd (pump_schema_events lib dec stream st))) ns cn content = Inr ()"
    if "governing lib dec (map snd (ws_events stream)) ns cn = {}"
    using that g by (auto simp: t schema_validate_def governing_def split: option.splits)
  show "\<exists>v \<in> governing lib dec (map snd (ws_events stream)) ns cn.
      schema_validate lib (wt_table (snd (pump_schema_events lib dec stream st))) ns cn content =
        (if iter_errors lib v content = [] then Inr () else Inl (iter_errors lib v content))"
    if "governing lib dec (map snd (ws_events stream)) ns cn \<noteq> {}"
  proof (cases "hm_get (schema_publish ?m) (ns, cn)")
    case None
    with g that show ?thesis
      by (auto simp: governing_def)
  next
    case (Some v)
    with g have "v \<in> governing lib dec (map snd (ws_events stream)) ns cn"
      by (auto simp: governing_def)
    with Some show ?thesis
      unfolding t schema_validate_def compiled_validate_def Let_def by auto
  qed
qed

section \<open>Properties\<close>


definition demo_schema_lib :: "json schema_lib" where
  "demo_schema_lib = \<lparr>draft7_new = Inr, iter_errors = (\<lambda>v c. if v = c then [] else [''not the expected constant''])\<rparr>"

definition demo_schema_dec :: schema_decoder where
  "demo_schema_dec v = (case json_get ''configName'' v of
     Some (JStr s) \<Rightarrow> Inr \<lparr>sspec_config_name = s, sspec_schema = JNull\<rparr> | _ \<Rightarrow> Inl ''missing field'')"

definition demo_schema_object :: "string \<Rightarrow> dynamic_object" where
  "demo_schema_object ns =
     \<lparr>obj_metadata = empty_meta\<lparr>meta_name := Some ''s'', meta_namespace := Some ns\<rparr>,
      obj_data = JObj [(''spec'', JObj [(''configName'', JStr ''web'')])]\<rparr>"

lemmas demo_schema_simps = demo_schema_lib_def demo_schema_dec_def demo_schema_object_def
  parse_schema_object_def empty_meta_def object_key_def trim_def trim_start_def trim_end_def
  strip_by_stop ws_len_def ws_len_rev_def ws1_def ws2_def ws3_def Let_def

lemma demo_schema_parse:
  "parse_schema_object demo_schema_lib demo_schema_dec (demo_schema_object ''a'') =
     Some \<lparr>sch_key = (''a'', ''web''), sch_schema = JNull\<rparr>"
  "parse_schema_object demo_schema_lib demo_schema_dec (demo_schema_object ''b'') =
     Some \<lparr>sch_key = (''b'', ''web''), sch_schema = JNull\<rparr>"
  "object_key (demo_schema_object ns) = ''s''"
  by (simp_all add: demo_schema_simps)


text \<open>The mirror is keyed by object name alone although the registry watches every
  namespace: when a second object of the same name but another namespace is listed, the first one
  is silently forgotten and content for its config is accepted unvalidated.\<close>

lemma schema_same_name_clobbers:
  assumes "object_key o1 = object_key o2" "parse_schema_object lib dec o2 = Some e2"
    and "sch_key e2 \<noteq> (ns, cn)"
  shows "schema_validate lib (wt_table (snd (pump_schema_events lib dec
      \<lparr>ws_events = [(t1, InitApply o1), (t2, InitApply o2)], ws_end = e\<rparr> st))) ns cn content = Inr ()"
proof -
  have "live (parse_schema_object lib dec) [InitApply o1, InitApply o2] key =
      (if key = object_key o2 then Some e2 else None)" for key
    using assms by (simp add: live_def)
  then have "governing lib dec [InitApply o1, InitApply o2] ns cn = {}"
    using assms(3) by (auto simp: governing_def split: if_splits)
  then show ?thesis
    by (intro validate_after_connection(1)) simp_all
qed

end
