(* ===== verification/Apply_Path.thy ===== *)
theory Apply_Path
  imports Schema_Registry
begin

text \<open>
  The write path: \<open>grpc/apply.rs\<close> (single, batch and dry-run apply), \<open>grpc/revert.rs\<close>,
  \<open>grpc/secret_apply.rs\<close>, \<open>import.rs\<close> and the retry jitter of \<open>grpc/mod.rs\<close>. The Kubernetes API is a
  parameter that threads a world; what the code relies on of it is the predicate \<open>kube_laws\<close>.
\<close>

section \<open>The Kubernetes API\<close>

record 'w kube =
  k_get :: "string \<Rightarrow> string \<Rightarrow> 'w \<Rightarrow> (kube_error + dynamic_object) \<times> 'w"
  k_patch :: "string \<Rightarrow> string \<Rightarrow> json \<Rightarrow> 'w \<Rightarrow> (kube_error + dynamic_object) \<times> 'w"
  k_list_at :: "string \<Rightarrow> string \<Rightarrow> string \<Rightarrow> 'w \<Rightarrow> (kube_error + dynamic_object list) \<times> 'w"
  k_get_secret :: "string \<Rightarrow> string \<Rightarrow> 'w \<Rightarrow> (kube_error + kube_secret) \<times> 'w"
  k_patch_secret :: "string \<Rightarrow> string \<Rightarrow> kube_secret \<Rightarrow> 'w \<Rightarrow> (kube_error + kube_secret) \<times> 'w"
  k_get_configmap :: "string \<Rightarrow> string \<Rightarrow> 'w \<Rightarrow> (kube_error + kube_configmap) \<times> 'w"
  k_subsec_nanos :: "'w \<Rightarrow> u64 \<times> 'w"
  k_traceparent :: "'w \<Rightarrow> string option"

text \<open>A fallible computation over the world, and its \<open>?\<close>.\<close>

type_synonym ('w, 'a) io = "'w \<Rightarrow> 'a rpc \<times> 'w"

definition io_bind :: "('w, 'a) io \<Rightarrow> ('a \<Rightarrow> ('w, 'b) io) \<Rightarrow> ('w, 'b) io" where
  "io_bind m f w = (case m w of (Inl e, w') \<Rightarrow> (Inl e, w') | (Inr a, w') \<Rightarrow> f a w')"

definition io_of :: "'a rpc \<Rightarrow> ('w, 'a) io" where
  "io_of r w = (r, w)"

section \<open>Version gate\<close>

definition parse_schema_version_from_object :: "dynamic_object \<Rightarrow> u32" where
  "parse_schema_version_from_object obj =
     (case Option.bind (Option.bind (json_get ''spec'' (obj_data obj)) (json_get ''schema_version'')) json_as_u64 of
        Some n \<Rightarrow> ucast n | None \<Rightarrow> 0)"

definition schema_version_decision :: "u32 \<Rightarrow> u32 \<Rightarrow> unit rpc" where
  "schema_version_decision incoming current =
     (if incoming \<le> current
      then Inl (Status FailedPrecondition
        (''schema_version must be > '' @ show_nat (unat current) @ ''; got '' @ show_nat (unat incoming)))
      else Inr ())"

definition fetch_current_schema_version :: "'w kube \<Rightarrow> string \<Rightarrow> string \<Rightarrow> ('w, u32) io" where
  "fetch_current_schema_version k ns nm w = (case k_get k ns nm w of
       (Inr obj, w') \<Rightarrow> (Inr (parse_schema_version_from_object obj), w')
     | (Inl e, w') \<Rightarrow>
         if api_status_code e = Some 404 then (Inr 0, w')
         else (Inl (Status Unavailable (''kube error: '' @ kube_error_text e)), w'))"

section \<open>Retry loop\<close>

definition RETRY_DELAYS_MS :: "u64 list" where
  "RETRY_DELAYS_MS = [100, 200]"

definition saturating_mul :: "'a::len word \<Rightarrow> 'a word \<Rightarrow> 'a word" where
  "saturating_mul a b = (if unat a * unat b < 2 ^ LENGTH('a) then a * b else - 1)"

definition jittered_retry_ms :: "u64 \<Rightarrow> u64 \<Rightarrow> u64" where
  "jittered_retry_ms nanos base_ms =
     (if base_ms = 0 then 0
      else let jitter_range = base_ms div 4;
               span = saturating_add (saturating_mul 2 jitter_range) 1;
               offset = nanos mod span
           in saturating_add (saturating_sub base_ms jitter_range) offset)"

datatype patch_retry_decision = RetryAfter u64 | AbortRetriesExhausted | PatchUnavailable

definition classify_patch_error :: "kube_error \<Rightarrow> nat \<Rightarrow> patch_retry_decision" where
  "classify_patch_error e attempt =
     (if api_status_code e \<noteq> Some 409 then PatchUnavailable
      else if attempt < length RETRY_DELAYS_MS then RetryAfter (RETRY_DELAYS_MS ! attempt)
      else AbortRetriesExhausted)"

text \<open>The loop of \<open>run_patch_retry_loop\<close> and \<open>run_secret_patch_retry_loop\<close>, which differ in the text of
  the exhausted error. The result carries the delays slept. Each round raises \<open>attempt\<close>, and no
  round beyond the end of the delay table retries.\<close>

function run_patch_retry_loop ::
  "'w kube \<Rightarrow> string \<Rightarrow> ('w \<Rightarrow> (kube_error + string) \<times> 'w) \<Rightarrow> nat \<Rightarrow> 'w \<Rightarrow> string rpc \<times> 'w \<times> u64 list" where
  "run_patch_retry_loop k exhausted do_patch attempt w = (case do_patch w of
       (Inr rv, w') \<Rightarrow> (Inr rv, w', [])
     | (Inl e, w') \<Rightarrow> (case classify_patch_error e attempt of
           RetryAfter delay_ms \<Rightarrow>
             (case k_subsec_nanos k w' of (nanos, w'') \<Rightarrow>
                (case run_patch_retry_loop k exhausted do_patch (attempt + 1) w'' of
                   (r, w3, ds) \<Rightarrow> (r, w3, jittered_retry_ms nanos delay_ms # ds)))
         | AbortRetriesExhausted \<Rightarrow> (Inl (Status Aborted exhausted), w', [])
         | PatchUnavailable \<Rightarrow> (Inl (Status Unavailable (''kube patch error: '' @ kube_error_text e)), w', [])))"
  by pat_completeness auto
termination
  by (relation "measure (\<lambda>(k, x, f, attempt, w). 3 - attempt)")
    (auto simp: classify_patch_error_def RETRY_DELAYS_MS_def split: if_splits)

declare run_patch_retry_loop.simps [simp del]

definition exhausted_text :: string where
  "exhausted_text = ''409 Conflict '' @ emdash @ '' exceeded max retries''"

definition patch_with_retry :: "'w kube \<Rightarrow> string \<Rightarrow> string \<Rightarrow> json \<Rightarrow> ('w, string) io" where
  "patch_with_retry k ns nm body w =
     (case run_patch_retry_loop k exhausted_text
             (\<lambda>w. case k_patch k ns nm body w of
                (Inr obj, w') \<Rightarrow> (Inr (unwrap_or_default (meta_resource_version (obj_metadata obj))), w')
              | (Inl e, w') \<Rightarrow> (Inl e, w')) 0 w of
        (r, w', ds) \<Rightarrow> (r, w'))"

section \<open>Apply\<close>

definition TRACEPARENT_ANNOTATION :: string where
  "TRACEPARENT_ANNOTATION = ''konfig.io/traceparent''"

definition apply_patch_body :: "string \<Rightarrow> string \<Rightarrow> json \<Rightarrow> string option \<Rightarrow> json" where
  "apply_patch_body ns nm spec_value traceparent =
     JObj [(''apiVersion'', JStr ''konfig.io/v1''), (''kind'', JStr ''Config''),
       (''metadata'', JObj ([(''name'', JStr nm), (''namespace'', JStr ns)] @
          (case traceparent of None \<Rightarrow> []
           | Some t \<Rightarrow> [(''annotations'', JObj [(TRACEPARENT_ANNOTATION, JStr t)])]))),
       (''spec'', spec_value)]"

text \<open>The part of \<open>apply_spec\<close> after the gate.\<close>

definition apply_write :: "'w kube \<Rightarrow> codecs \<Rightarrow> string \<Rightarrow> string \<Rightarrow> config_spec \<Rightarrow> ('w, string) io" where
  "apply_write k cd ns nm spec w = (case spec_to_value cd spec of
       Inl e \<Rightarrow> (Inl (Status Internal (''serialize error: '' @ e)), w)
     | Inr v \<Rightarrow> patch_with_retry k ns nm (apply_patch_body ns nm v (k_traceparent k w)) w)"

definition apply_spec :: "'w kube \<Rightarrow> codecs \<Rightarrow> string \<Rightarrow> string \<Rightarrow> config_spec \<Rightarrow> ('w, string) io" where
  "apply_spec k cd ns nm spec =
     io_bind (fetch_current_schema_version k ns nm) (\<lambda>current.
     io_bind (io_of (schema_version_decision (spec_schema_version spec) current)) (\<lambda>_.
     apply_write k cd ns nm spec))"

definition validate_against_schema ::
  "'v schema_lib \<Rightarrow> 'v schema_table \<Rightarrow> string \<Rightarrow> string \<Rightarrow> config_spec \<Rightarrow> unit rpc" where
  "validate_against_schema lib table ns cn spec =
     (case schema_validate lib table ns cn (spec_content spec) of
        Inr _ \<Rightarrow> Inr ()
      | Inl errors \<Rightarrow> Inl (Status FailedPrecondition
          (''content does not satisfy registered JSON Schema for '' @ ns @ ''/'' @ cn @ '': '' @
           join_str ''; '' errors)))"

definition apply_inner ::
  "'w kube \<Rightarrow> codecs \<Rightarrow> 'v schema_lib \<Rightarrow> 'v schema_table \<Rightarrow> string \<Rightarrow> string \<Rightarrow> string \<Rightarrow> ('w, string) io" where
  "apply_inner k cd lib table ns nm yaml =
     io_bind (io_of (case spec_from_yaml cd yaml of
         Inl e \<Rightarrow> Inl (Status InvalidArgument (''invalid YAML: '' @ e)) | Inr s \<Rightarrow> Inr s)) (\<lambda>spec.
     io_bind (io_of (validate_against_schema lib table ns nm spec)) (\<lambda>_.
     apply_spec k cd ns nm spec))"

record apply_request =
  ar_namespace :: string
  ar_name :: string
  ar_yaml_content :: string

definition handle_apply ::
  "'w kube \<Rightarrow> codecs \<Rightarrow> 'v schema_lib \<Rightarrow> 'v schema_table \<Rightarrow> apply_request \<Rightarrow> ('w, string) io" where
  "handle_apply k cd lib table req =
     apply_inner k cd lib table (ar_namespace req) (ar_name req) (ar_yaml_content req)"

section \<open>Batch apply\<close>

record batch_item =
  bi_namespace :: string
  bi_name :: string
  bi_spec :: config_spec

fun parse_batch_loop ::
  "codecs \<Rightarrow> (string \<times> string) list \<Rightarrow> apply_request list \<Rightarrow> (batch_item list) rpc" where
  "parse_batch_loop cd seen [] = Inr []"
| "parse_batch_loop cd seen (req # reqs) =
     (let ns = ar_namespace req; nm = ar_name req
      in if (ns, nm) \<in> set seen
         then Inl (Status InvalidArgument (''duplicate item '' @ ns @ ''/'' @ nm @ '' in batch '' @ emdash @
           '' two writes to one target is ambiguous''))
         else (case spec_from_yaml cd (ar_yaml_content req) of
             Inl e \<Rightarrow> Inl (Status InvalidArgument (''invalid YAML for '' @ ns @ ''/'' @ nm @ '': '' @ e))
           | Inr spec \<Rightarrow>
               rbind (parse_batch_loop cd ((ns, nm) # seen) reqs)
                 (\<lambda>items. Inr (\<lparr>bi_namespace = ns, bi_name = nm, bi_spec = spec\<rparr> # items))))"

definition parse_batch_items :: "codecs \<Rightarrow> apply_request list \<Rightarrow> (batch_item list) rpc" where
  "parse_batch_items cd reqs =
     (if reqs = [] then Inl (Status InvalidArgument ''batch must contain at least one item'')
      else parse_batch_loop cd [] reqs)"

definition gate_batch_versions :: "batch_item list \<Rightarrow> u32 list \<Rightarrow> unit rpc" where
  "gate_batch_versions items currents =
     try_all (\<lambda>(item, current). schema_version_decision (spec_schema_version (bi_spec item)) current)
       (zip items currents)"

definition item_key :: "batch_item \<Rightarrow> string \<times> string" where
  "item_key item = (bi_namespace item, bi_name item)"

definition sort_batch_items :: "batch_item list \<Rightarrow> batch_item list" where
  "sort_batch_items items = sort_key item_key items"

fun fetch_currents :: "'w kube \<Rightarrow> batch_item list \<Rightarrow> ('w, u32 list) io" where
  "fetch_currents k [] w = (Inr [], w)"
| "fetch_currents k (item # items) w =
     io_bind (fetch_current_schema_version k (bi_namespace item) (bi_name item)) (\<lambda>v.
     io_bind (fetch_currents k items) (\<lambda>vs. io_of (Inr (v # vs)))) w"

record batch_apply_result =
  br_namespace :: string
  br_name :: string
  br_resource_version :: string

fun apply_items :: "'w kube \<Rightarrow> codecs \<Rightarrow> batch_item list \<Rightarrow> ('w, batch_apply_result list) io" where
  "apply_items k cd [] w = (Inr [], w)"
| "apply_items k cd (item # items) w =
     io_bind (apply_spec k cd (bi_namespace item) (bi_name item) (bi_spec item)) (\<lambda>rv.
     io_bind (apply_items k cd items) (\<lambda>rs. io_of (Inr
       (\<lparr>br_namespace = bi_namespace item, br_name = bi_name item, br_resource_version = rv\<rparr> # rs)))) w"

definition batch_gate ::
  "'w kube \<Rightarrow> codecs \<Rightarrow> 'v schema_lib \<Rightarrow> 'v schema_table \<Rightarrow> apply_request list \<Rightarrow> ('w, batch_item list) io" where
  "batch_gate k cd lib table reqs =
     io_bind (io_of (parse_batch_items cd reqs)) (\<lambda>items.
     io_bind (io_of (try_all (\<lambda>i. validate_against_schema lib table (bi_namespace i) (bi_name i) (bi_spec i)) items)) (\<lambda>_.
     io_bind (fetch_currents k items) (\<lambda>currents.
     io_bind (io_of (gate_batch_versions items currents)) (\<lambda>_.
     io_of (Inr items)))))"

definition handle_batch_apply ::
  "'w kube \<Rightarrow> codecs \<Rightarrow> 'v schema_lib \<Rightarrow> 'v schema_table \<Rightarrow> apply_request list \<Rightarrow>
   ('w, batch_apply_result list) io" where
  "handle_batch_apply k cd lib table reqs =
     io_bind (batch_gate k cd lib table reqs) (\<lambda>items. apply_items k cd (sort_batch_items items))"

section \<open>Dry run\<close>

record dry_run_response =
  dr_current_content_json :: string
  dr_proposed_content_json :: string
  dr_current_schema_version :: u32
  dr_proposed_schema_version :: u32

definition extract_current_content_json :: "codecs \<Rightarrow> dynamic_object \<Rightarrow> string rpc" where
  "extract_current_content_json cd obj =
     (case Option.bind (json_get ''spec'' (obj_data obj)) (json_get ''content'') of
        Some c \<Rightarrow> (case to_json_string cd c of
            Inr s \<Rightarrow> Inr s | Inl e \<Rightarrow> Inl (Status Internal (''serialize error: '' @ e)))
      | None \<Rightarrow> Inr [])"

definition dry_run_assemble :: "codecs \<Rightarrow> dynamic_object option \<Rightarrow> config_spec \<Rightarrow> dry_run_response rpc" where
  "dry_run_assemble cd current spec =
     (let cur_v = (case current of None \<Rightarrow> 0 | Some obj \<Rightarrow> parse_schema_version_from_object obj)
      in rbind (case current of None \<Rightarrow> Inr [] | Some obj \<Rightarrow> extract_current_content_json cd obj) (\<lambda>cur_json.
         rbind (case to_json_string cd (spec_content spec) of
            Inr s \<Rightarrow> Inr s | Inl e \<Rightarrow> Inl (Status Internal (''serialize error: '' @ e))) (\<lambda>prop_json.
         rbind (schema_version_decision (spec_schema_version spec) cur_v) (\<lambda>_.
         Inr \<lparr>dr_current_content_json = cur_json, dr_proposed_content_json = prop_json,
              dr_current_schema_version = cur_v, dr_proposed_schema_version = spec_schema_version spec\<rparr>))))"

definition handle_dry_run_apply :: "'w kube \<Rightarrow> codecs \<Rightarrow> apply_request \<Rightarrow> ('w, dry_run_response) io" where
  "handle_dry_run_apply k cd req =
     io_bind (io_of (case spec_from_yaml cd (ar_yaml_content req) of
         Inl e \<Rightarrow> Inl (Status InvalidArgument (''invalid YAML: '' @ e)) | Inr s \<Rightarrow> Inr s)) (\<lambda>spec.
     io_bind (\<lambda>w. case k_get k (ar_namespace req) (ar_name req) w of
         (Inr obj, w') \<Rightarrow> (Inr (Some obj), w')
       | (Inl e, w') \<Rightarrow>
           if api_status_code e = Some 404 then (Inr None, w')
           else (Inl (Status Unavailable (''kube error: '' @ kube_error_text e)), w')) (\<lambda>current.
     io_of (dry_run_assemble cd current spec)))"

section \<open>Revert\<close>

definition map_list_error :: "kube_error \<Rightarrow> string \<Rightarrow> string \<Rightarrow> status" where
  "map_list_error e nm rv = (case api_status_code e of
       Some c \<Rightarrow>
         if c = 410 then Status FailedPrecondition (''resource_version '' @ rv @
           '' is no longer available (etcd compaction); K8s only retains history within the compaction window'')
         else if c = 404 then Status NotFound (''Config '' @ nm @ '' not found at resource_version='' @ rv)
         else Status Unavailable (''kube list error: '' @ kube_error_text e)
     | None \<Rightarrow> Status Unavailable (''kube list error: '' @ kube_error_text e))"

definition parse_historical_obj :: "codecs \<Rightarrow> dynamic_object \<Rightarrow> config_spec rpc" where
  "parse_historical_obj cd obj = (case json_get ''spec'' (obj_data obj) of
       None \<Rightarrow> Inl (Status DataLoss ''historical object missing spec'')
     | Some v \<Rightarrow> (case spec_from_value cd v of
         Inl e \<Rightarrow> Inl (Status DataLoss (''invalid historical spec: '' @ e))
       | Inr s \<Rightarrow> Inr s))"

definition fetch_historical_spec :: "'w kube \<Rightarrow> codecs \<Rightarrow> string \<Rightarrow> string \<Rightarrow> string \<Rightarrow> ('w, config_spec) io" where
  "fetch_historical_spec k cd ns nm rv w = (case k_list_at k ns nm rv w of
       (Inr objs, w') \<Rightarrow> (case find (\<lambda>obj. meta_name (obj_metadata obj) = Some nm) objs of
           None \<Rightarrow> (Inl (Status NotFound (''Config '' @ nm @ '' not found at resource_version='' @ rv)), w')
         | Some obj \<Rightarrow> (parse_historical_obj cd obj, w'))
     | (Inl e, w') \<Rightarrow> (Inl (map_list_error e nm rv), w'))"

record revert_response =
  rr_resource_version :: string
  rr_schema_version :: u32

definition handle_revert ::
  "'w kube \<Rightarrow> codecs \<Rightarrow> string \<Rightarrow> string \<Rightarrow> string \<Rightarrow> ('w, revert_response) io" where
  "handle_revert k cd ns nm to_rv =
     (if to_rv = [] then io_of (Inl (Status InvalidArgument ''to_resource_version must not be empty''))
      else
       io_bind (fetch_historical_spec k cd ns nm to_rv) (\<lambda>historical.
       io_bind (fetch_current_schema_version k ns nm) (\<lambda>current.
       let new_version = saturating_add (max current (spec_schema_version historical)) 1
       in io_bind (apply_spec k cd ns nm
            \<lparr>spec_schema_version = new_version, spec_content = spec_content historical\<rparr>) (\<lambda>rv.
          io_of (Inr \<lparr>rr_resource_version = rv, rr_schema_version = new_version\<rparr>)))))"

section \<open>Secret apply\<close>

definition MANAGED_LABEL :: string where
  "MANAGED_LABEL = ''konfig.io/managed''"

definition parse_secret_schema_version :: "kube_secret \<Rightarrow> u32" where
  "parse_secret_schema_version sec =
     (case Option.bind (Option.bind (meta_annotations (secret_metadata sec))
             (\<lambda>a. bt_get a SCHEMA_VERSION_ANNOTATION)) parse_u32 of
        Some v \<Rightarrow> v | None \<Rightarrow> 0)"

definition fetch_current_secret_version :: "'w kube \<Rightarrow> string \<Rightarrow> string \<Rightarrow> ('w, u32) io" where
  "fetch_current_secret_version k ns nm w = (case k_get_secret k ns nm w of
       (Inr s, w') \<Rightarrow> (Inr (parse_secret_schema_version s), w')
     | (Inl e, w') \<Rightarrow>
         if api_status_code e = Some 404 then (Inr 0, w')
         else (Inl (Status Unavailable (''kube API error: '' @ kube_error_text e)), w'))"

definition build_secret_patch :: "string \<Rightarrow> string \<Rightarrow> u32 \<Rightarrow> (string, string) btmap \<Rightarrow> kube_secret" where
  "build_secret_patch nm ns v d =
     \<lparr>secret_metadata = empty_meta\<lparr>meta_name := Some nm, meta_namespace := Some ns,
        meta_labels := Some [(MANAGED_LABEL, ''true'')],
        meta_annotations := Some [(SCHEMA_VERSION_ANNOTATION, show_nat (unat v))]\<rparr>,
      secret_data = (if d = [] then None else Some d)\<rparr>"

definition patch_secret_with_retry ::
  "'w kube \<Rightarrow> string \<Rightarrow> string \<Rightarrow> u32 \<Rightarrow> (string, string) btmap \<Rightarrow> ('w, string) io" where
  "patch_secret_with_retry k nm ns v d w =
     (case run_patch_retry_loop k (''ApplySecret: '' @ exhausted_text)
             (\<lambda>w. case k_patch_secret k ns nm (build_secret_patch nm ns v d) w of
                (Inr s, w') \<Rightarrow> (Inr (unwrap_or_default (meta_resource_version (secret_metadata s))), w')
              | (Inl e, w') \<Rightarrow> (Inl e, w')) 0 w of
        (r, w', ds) \<Rightarrow> (r, w'))"

definition apply_secret_inner ::
  "'w kube \<Rightarrow> codecs \<Rightarrow> string \<Rightarrow> string \<Rightarrow> string \<Rightarrow> ('w, string) io" where
  "apply_secret_inner k cd ns nm yaml =
     io_bind (io_of (case map_from_yaml cd yaml of
         Inl e \<Rightarrow> Inl (Status InvalidArgument (''invalid YAML: '' @ e)) | Inr m \<Rightarrow> Inr m)) (\<lambda>plain.
     let incoming = (case Option.bind (bt_get plain ''schema_version'') parse_u32 of Some v \<Rightarrow> v | None \<Rightarrow> 0)
     in io_bind (fetch_current_secret_version k ns nm) (\<lambda>current.
        if incoming \<le> current
        then io_of (Inl (Status FailedPrecondition
          (''schema_version must be > '' @ show_nat (unat current) @ ''; got '' @ show_nat (unat incoming))))
        else patch_secret_with_retry k nm ns incoming
          (map (\<lambda>(key, v). (key, base64_encode cd v)) (filter (\<lambda>(key, v). key \<noteq> ''schema_version'') plain))))"

section \<open>Import\<close>

definition DEFAULT_SCHEMA_VERSION :: u32 where
  "DEFAULT_SCHEMA_VERSION = 1"

definition parse_schema_version_from_data :: "(string, string) btmap \<Rightarrow> u32" where
  "parse_schema_version_from_data d =
     (case Option.bind (bt_get d ''schema_version'') parse_u32 of Some v \<Rightarrow> v | None \<Rightarrow> DEFAULT_SCHEMA_VERSION)"

definition content_from_data :: "(string, string) btmap \<Rightarrow> (string, json) btmap" where
  "content_from_data d =
     foldl (\<lambda>m (k, v). if k = ''schema_version'' then m else bt_insert k (scalar_value v) m) [] d"

definition build_import_patch_body :: "string \<Rightarrow> string \<Rightarrow> u32 \<Rightarrow> (string, json) btmap \<Rightarrow> json" where
  "build_import_patch_body ns target v content =
     JObj [(''apiVersion'', JStr ''konfig.io/v1''), (''kind'', JStr ''Config''),
       (''metadata'', JObj [(''name'', JStr target), (''namespace'', JStr ns)]),
       (''spec'', JObj [(''schema_version'', JNum (PosInt (ucast v))), (''content'', JObj content)])]"

definition import_configmap ::
  "'w kube \<Rightarrow> string \<Rightarrow> string \<Rightarrow> string \<Rightarrow> 'w \<Rightarrow> (kube_error + string) \<times> 'w" where
  "import_configmap k ns cm_nm target w = (case k_get_configmap k ns cm_nm w of
       (Inl e, w') \<Rightarrow> (Inl e, w')
     | (Inr cm, w') \<Rightarrow>
         let d = (case cm_data cm of None \<Rightarrow> [] | Some d \<Rightarrow> d)
         in (case k_patch k ns target (build_import_patch_body ns target
                    (parse_schema_version_from_data d) (content_from_data d)) w' of
               (Inl e, w'') \<Rightarrow> (Inl e, w'')
             | (Inr obj, w'') \<Rightarrow> (Inr (unwrap_or_default (meta_resource_version (obj_metadata obj))), w'')))"

section \<open>What the code relies on\<close>

text \<open>
  \<open>stored w (ns, name)\<close> is the version and content of a Config in the cluster (version 0 and no
  content when there is none). Reads return it and change nothing; a patch that succeeds sets it to
  the version and content of the patch, a patch that fails changes nothing.
\<close>

type_synonym 'w store = "'w \<Rightarrow> string \<times> string \<Rightarrow> u32 \<times> json option"

definition spec_view :: "json option \<Rightarrow> u32 \<times> json option" where
  "spec_view v =
     (case Option.bind (Option.bind v (json_get ''schema_version'')) json_as_u64 of Some n \<Rightarrow> ucast n | None \<Rightarrow> 0,
      Option.bind v (json_get ''content''))"

definition reads_pure :: "'w kube \<Rightarrow> 'w store \<Rightarrow> bool" where
  "reads_pure k stored \<longleftrightarrow>
     (\<forall>ns nm w. stored (snd (k_get k ns nm w)) = stored w) \<and>
     (\<forall>ns nm rv w. stored (snd (k_list_at k ns nm rv w)) = stored w) \<and>
     (\<forall>w. stored (snd (k_subsec_nanos k w)) = stored w)"

definition get_returns_stored :: "'w kube \<Rightarrow> 'w store \<Rightarrow> bool" where
  "get_returns_stored k stored \<longleftrightarrow> (\<forall>ns nm w. case fst (k_get k ns nm w) of
       Inr obj \<Rightarrow> stored w (ns, nm) = spec_view (json_get ''spec'' (obj_data obj))
     | Inl e \<Rightarrow> api_status_code e = Some 404 \<longrightarrow> stored w (ns, nm) = (0, None))"

definition patch_stores :: "'w kube \<Rightarrow> 'w store \<Rightarrow> bool" where
  "patch_stores k stored \<longleftrightarrow> (\<forall>ns nm body w. stored (snd (k_patch k ns nm body w)) =
     (case fst (k_patch k ns nm body w) of
        Inr obj \<Rightarrow> (stored w)((ns, nm) := spec_view (json_get ''spec'' body)) | Inl e \<Rightarrow> stored w))"

definition kube_laws :: "'w kube \<Rightarrow> 'w store \<Rightarrow> bool" where
  "kube_laws k stored \<longleftrightarrow> reads_pure k stored \<and> get_returns_stored k stored \<and> patch_stores k stored"

text \<open>The derived serialiser of \<open>ConfigSpec\<close> writes its two fields.\<close>

definition spec_codec_ok :: "codecs \<Rightarrow> bool" where
  "spec_codec_ok cd \<longleftrightarrow> (\<forall>spec v. spec_to_value cd spec = Inr v \<longrightarrow>
     json_get ''schema_version'' v = Some (JNum (PosInt (ucast (spec_schema_version spec)))) \<and>
     json_get ''content'' v = Some (spec_content spec))"

definition view_of_spec :: "config_spec \<Rightarrow> u32 \<times> json option" where
  "view_of_spec spec = (spec_schema_version spec, Some (spec_content spec))"

section \<open>Lemmas\<close>

lemma io_bind_cases:
  "io_bind m f w = (r, w') \<longleftrightarrow>
     (\<exists>e. m w = (Inl e, w') \<and> r = Inl e) \<or> (\<exists>a v. m w = (Inr a, v) \<and> f a v = (r, w'))"
  by (auto simp: io_bind_def split: prod.splits sum.splits)

lemma io_of_simp [simp]: "io_of r w = (r', w') \<longleftrightarrow> r = r' \<and> w = w'"
  by (auto simp: io_of_def)

lemma kube_lawsD:
  assumes "kube_laws k stored"
  shows "k_get k ns nm w = (r, w') \<Longrightarrow> stored w' = stored w"
    and "k_list_at k ns nm rv w = (rl, w') \<Longrightarrow> stored w' = stored w"
    and "k_subsec_nanos k w = (n, w') \<Longrightarrow> stored w' = stored w"
    and "k_get k ns nm w = (Inr obj, w') \<Longrightarrow> stored w (ns, nm) = spec_view (json_get ''spec'' (obj_data obj))"
    and "k_get k ns nm w = (Inl e, w') \<Longrightarrow> api_status_code e = Some 404 \<Longrightarrow> stored w (ns, nm) = (0, None)"
    and "k_patch k ns nm body w = (Inr obj, w') \<Longrightarrow>
      stored w' = (stored w)((ns, nm) := spec_view (json_get ''spec'' body))"
    and "k_patch k ns nm body w = (Inl e, w') \<Longrightarrow> stored w' = stored w"
proof -
  have g: "stored (snd (k_get k ns nm w)) = stored w"
    and l: "stored (snd (k_list_at k ns nm rv w)) = stored w"
    and n: "stored (snd (k_subsec_nanos k w)) = stored w"
    using assms by (simp_all add: kube_laws_def reads_pure_def)
  show "k_get k ns nm w = (r, w') \<Longrightarrow> stored w' = stored w" using g by simp
  show "k_list_at k ns nm rv w = (rl, w') \<Longrightarrow> stored w' = stored w" using l by simp
  show "k_subsec_nanos k w = (n, w') \<Longrightarrow> stored w' = stored w" using n by simp
  have v: "case fst (k_get k ns nm w) of
       Inr obj \<Rightarrow> stored w (ns, nm) = spec_view (json_get ''spec'' (obj_data obj))
     | Inl e \<Rightarrow> api_status_code e = Some 404 \<longrightarrow> stored w (ns, nm) = (0, None)"
    using assms unfolding kube_laws_def get_returns_stored_def by blast
  show "k_get k ns nm w = (Inr obj, w') \<Longrightarrow> stored w (ns, nm) = spec_view (json_get ''spec'' (obj_data obj))"
    using v by simp
  show "k_get k ns nm w = (Inl e, w') \<Longrightarrow> api_status_code e = Some 404 \<Longrightarrow> stored w (ns, nm) = (0, None)"
    using v by simp
  have p: "stored (snd (k_patch k ns nm body w)) =
     (case fst (k_patch k ns nm body w) of
        Inr obj \<Rightarrow> (stored w)((ns, nm) := spec_view (json_get ''spec'' body)) | Inl e \<Rightarrow> stored w)"
    using assms unfolding kube_laws_def patch_stores_def by blast
  show "k_patch k ns nm body w = (Inr obj, w') \<Longrightarrow>
      stored w' = (stored w)((ns, nm) := spec_view (json_get ''spec'' body))"
    using p by simp
  show "k_patch k ns nm body w = (Inl e, w') \<Longrightarrow> stored w' = stored w"
    using p by simp
qed

lemma fetch_current:
  assumes "kube_laws k stored" "fetch_current_schema_version k ns nm w = (r, w')"
  shows "stored w' = stored w" and "r = Inr v \<Longrightarrow> v = fst (stored w (ns, nm))"
proof -
  obtain g u where g: "k_get k ns nm w = (g, u)"
    by (cases "k_get k ns nm w")
  have u: "w' = u"
    using assms(2) by (auto simp: fetch_current_schema_version_def g split: sum.splits if_splits)
  then show "stored w' = stored w"
    using kube_lawsD(1) [OF assms(1) g] by simp
  show "v = fst (stored w (ns, nm))" if "r = Inr v"
  proof (cases g)
    case (Inl e)
    then show ?thesis
      using assms(2) that kube_lawsD(5) [OF assms(1), of ns nm w e u]
      by (auto simp: fetch_current_schema_version_def g split: if_splits)
  next
    case (Inr obj)
    then show ?thesis
      using assms(2) that kube_lawsD(4) [OF assms(1), of ns nm w obj u]
      by (auto simp: fetch_current_schema_version_def g spec_view_def parse_schema_version_from_object_def)
  qed
qed

lemma decision_Inr: "schema_version_decision incoming current = Inr u \<longleftrightarrow> current < incoming"
  by (auto simp: schema_version_decision_def)

lemma ucast_u32_u64: "(ucast (ucast (x :: u32) :: u64) :: u32) = x"
  by transfer simp

lemma spec_in_patch_body: "json_get ''spec'' (apply_patch_body ns nm v tp) = Some v"
  by (simp add: apply_patch_body_def)

lemma spec_view_codec:
  assumes "spec_codec_ok cd" "spec_to_value cd spec = Inr v"
  shows "spec_view (Some v) = view_of_spec spec"
  using assms by (simp add: spec_codec_ok_def spec_view_def view_of_spec_def ucast_u32_u64)

text \<open>One round of the retry loop.\<close>

lemma retry_round:
  "run_patch_retry_loop k ex f attempt w = (case f w of
       (Inr rv, w') \<Rightarrow> (Inr rv, w', [])
     | (Inl e, w') \<Rightarrow>
         if api_status_code e \<noteq> Some 409
         then (Inl (Status Unavailable (''kube patch error: '' @ kube_error_text e)), w', [])
         else if attempt < 2
         then (case k_subsec_nanos k w' of (n, w'') \<Rightarrow>
            (case run_patch_retry_loop k ex f (attempt + 1) w'' of
               (r, w3, ds) \<Rightarrow> (r, w3, jittered_retry_ms n (RETRY_DELAYS_MS ! attempt) # ds)))
         else (Inl (Status Aborted ex), w', []))"
  by (subst run_patch_retry_loop.simps)
    (simp add: classify_patch_error_def RETRY_DELAYS_MS_def split: prod.splits sum.splits)

text \<open>The retry loop stores at most one patch: the last attempt's, if it succeeded.\<close>

lemma retry_loop_store:
  assumes laws: "kube_laws k stored"
    and patch: "\<And>w r w'. f w = (r, w') \<Longrightarrow>
      stored w' = (case r of Inr rv \<Rightarrow> upd (stored w) | Inl e \<Rightarrow> stored w)"
    and run: "run_patch_retry_loop k ex f attempt w = (r, w', ds)"
  shows "stored w' = (case r of Inr rv \<Rightarrow> upd (stored w) | Inl e \<Rightarrow> stored w)"
  using run
proof (induction "2 - attempt" arbitrary: attempt w r w' ds)
  case 0
  obtain o1 w1 where o1: "f w = (o1, w1)"
    by (cases "f w")
  with 0 patch [OF o1] show ?case
    by (auto simp: retry_round [of k ex f attempt w] split: sum.splits if_splits)
next
  case (Suc n)
  obtain o1 w1 where o1: "f w = (o1, w1)"
    by (cases "f w")
  obtain t w2 where t: "k_subsec_nanos k w1 = (t, w2)"
    by (cases "k_subsec_nanos k w1")
  obtain r' w3 ds' where rec: "run_patch_retry_loop k ex f (Suc attempt) w2 = (r', w3, ds')"
    by (cases "run_patch_retry_loop k ex f (Suc attempt) w2")
  have "n = 2 - Suc attempt"
    using Suc.hyps(2) by simp
  note IH = Suc.hyps(1) [OF this rec]
  show ?case
    using Suc.prems patch [OF o1] kube_lawsD(3) [OF laws t] IH
    by (auto simp: retry_round [of k ex f attempt w] o1 t rec split: sum.splits if_splits)
qed

lemma patch_with_retry_store:
  assumes laws: "kube_laws k stored" and run: "patch_with_retry k ns nm body w = (r, w')"
  shows "stored w' = (case r of Inr rv \<Rightarrow> (stored w)((ns, nm) := spec_view (json_get ''spec'' body))
    | Inl e \<Rightarrow> stored w)"
proof -
  let ?f = "\<lambda>w. case k_patch k ns nm body w of
      (Inr obj, w') \<Rightarrow> (Inr (unwrap_or_default (meta_resource_version (obj_metadata obj))), w')
    | (Inl e, w') \<Rightarrow> (Inl e, w')"
  obtain ds where "run_patch_retry_loop k exhausted_text ?f 0 w = (r, w', ds)"
    using run by (auto simp: patch_with_retry_def split: prod.splits)
  then show ?thesis
  proof (rule retry_loop_store [OF laws, rotated])
    fix w r w' assume "?f w = (r, w')"
    then show "stored w' = (case r of Inr rv \<Rightarrow> (stored w)((ns, nm) := spec_view (json_get ''spec'' body))
        | Inl e \<Rightarrow> stored w)"
      using kube_lawsD(6,7) [OF laws, of ns nm body w]
      by (auto split: prod.splits sum.splits)
  qed
qed

lemma apply_write_store:
  assumes "kube_laws k stored" "spec_codec_ok cd" "apply_write k cd ns nm spec w = (r, w')"
  shows "stored w' = (case r of Inr rv \<Rightarrow> (stored w)((ns, nm) := view_of_spec spec) | Inl e \<Rightarrow> stored w)"
proof (cases "spec_to_value cd spec")
  case (Inl e)
  with assms(3) show ?thesis
    by (auto simp: apply_write_def)
next
  case (Inr v)
  with assms(3) have "patch_with_retry k ns nm (apply_patch_body ns nm v (k_traceparent k w)) w = (r, w')"
    by (simp add: apply_write_def)
  from patch_with_retry_store [OF assms(1) this] show ?thesis
    unfolding spec_in_patch_body spec_view_codec [OF assms(2) Inr] .
qed

text \<open>The whole of \<open>apply_spec\<close>: a success raises the version and stores the spec, a failure
  changes nothing.\<close>

lemma apply_spec_store:
  assumes laws: "kube_laws k stored" and codec: "spec_codec_ok cd"
    and run: "apply_spec k cd ns nm spec w = (r, w')"
  shows "case r of
      Inr rv \<Rightarrow> fst (stored w (ns, nm)) < spec_schema_version spec \<and>
        stored w' = (stored w)((ns, nm) := view_of_spec spec)
    | Inl e \<Rightarrow> stored w' = stored w"
proof -
  obtain f w1 where f: "fetch_current_schema_version k ns nm w = (f, w1)"
    by (cases "fetch_current_schema_version k ns nm w")
  note fc = fetch_current [OF laws f]
  show ?thesis
  proof (cases f)
    case (Inl e)
    with run f fc(1) show ?thesis
      by (auto simp: apply_spec_def io_bind_cases)
  next
    case (Inr cur)
    show ?thesis
    proof (cases "cur < spec_schema_version spec")
      case False
      with run f fc(1) Inr show ?thesis
        by (auto simp: apply_spec_def io_bind_cases decision_Inr)
    next
      case True
      with run f Inr have "apply_write k cd ns nm spec w1 = (r, w')"
        using decision_Inr [of "spec_schema_version spec" cur "()"]
        by (auto simp: apply_spec_def io_bind_cases)
      from apply_write_store [OF laws codec this] True Inr fc show ?thesis
        by (auto split: sum.splits)
    qed
  qed
qed

lemma apply_inner_store:
  assumes "kube_laws k stored" "spec_codec_ok cd" "apply_inner k cd lib table ns nm yaml w = (r, w')"
  shows "case r of
      Inr rv \<Rightarrow> \<exists>spec. spec_from_yaml cd yaml = Inr spec \<and>
        schema_validate lib table ns nm (spec_content spec) = Inr () \<and>
        fst (stored w (ns, nm)) < spec_schema_version spec \<and>
        stored w' = (stored w)((ns, nm) := view_of_spec spec)
    | Inl e \<Rightarrow> stored w' = stored w"
proof (cases "spec_from_yaml cd yaml")
  case (Inl e)
  with assms(3) show ?thesis
    by (auto simp: apply_inner_def io_bind_cases)
next
  case (Inr spec)
  show ?thesis
  proof (cases "schema_validate lib table ns nm (spec_content spec)")
    case (Inl es)
    with assms(3) Inr show ?thesis
      by (auto simp: apply_inner_def io_bind_cases validate_against_schema_def)
  next
    case ok: (Inr u)
    with assms(3) Inr have "apply_spec k cd ns nm spec w = (r, w')"
      by (auto simp: apply_inner_def io_bind_cases validate_against_schema_def)
    from apply_spec_store [OF assms(1,2) this] Inr ok show ?thesis
      by (auto split: sum.splits)
  qed
qed

section \<open>Batches\<close>

lemma fetch_currents_store:
  assumes "kube_laws k stored" "fetch_currents k items w = (r, w')"
  shows "stored w' = stored w \<and>
    (\<forall>vs. r = Inr vs \<longrightarrow> vs = map (\<lambda>i. fst (stored w (item_key i))) items)"
  using assms(2)
proof (induction items arbitrary: w r w')
  case (Cons i items)
  obtain f w1 where f: "fetch_current_schema_version k (bi_namespace i) (bi_name i) w = (f, w1)"
    by (cases "fetch_current_schema_version k (bi_namespace i) (bi_name i) w")
  note fc = fetch_current [OF assms(1) f]
  obtain g w2 where g: "fetch_currents k items w1 = (g, w2)"
    by (cases "fetch_currents k items w1")
  note IH = Cons.IH [OF g]
  show ?case
    using Cons.prems f g fc IH by (cases f; cases g) (auto simp: io_bind_cases item_key_def)
qed auto

definition req_key :: "apply_request \<Rightarrow> string \<times> string" where
  "req_key r = (ar_namespace r, ar_name r)"

lemma item_key_simp [simp]: "item_key \<lparr>bi_namespace = ns, bi_name = nm, bi_spec = s\<rparr> = (ns, nm)"
  by (simp add: item_key_def)

lemma parse_batch_loop_keys:
  assumes "parse_batch_loop cd seen reqs = Inr items"
  shows "map item_key items = map req_key reqs \<and>
    distinct (map req_key reqs) \<and> set (map req_key reqs) \<inter> set seen = {} \<and>
    list_all2 (\<lambda>r i. spec_from_yaml cd (ar_yaml_content r) = Inr (bi_spec i)) reqs items"
  using assms
proof (induction cd seen reqs arbitrary: items rule: parse_batch_loop.induct)
  case (2 cd seen req reqs)
  from "2.prems" obtain spec rest where
    new: "(ar_namespace req, ar_name req) \<notin> set seen"
      "spec_from_yaml cd (ar_yaml_content req) = Inr spec"
      "parse_batch_loop cd ((ar_namespace req, ar_name req) # seen) reqs = Inr rest"
      "items = \<lparr>bi_namespace = ar_namespace req, bi_name = ar_name req, bi_spec = spec\<rparr> # rest"
    by (auto simp: Let_def rbind_eq_Inr split: if_splits sum.splits)
  have k: "req_key req = (ar_namespace req, ar_name req)"
    by (simp add: req_key_def)
  from "2.IH" [OF refl refl new(1,2,3)] new show ?case
    by (auto simp: k)
qed simp

lemma batch_gate_cases:
  assumes "batch_gate k cd lib table reqs w = (r, w')"
  shows "(w' = w \<and> (\<exists>e. r = Inl e)) \<or>
    (\<exists>items f. parse_batch_items cd reqs = Inr items \<and>
       try_all (\<lambda>i. validate_against_schema lib table (bi_namespace i) (bi_name i) (bi_spec i)) items = Inr () \<and>
       fetch_currents k items w = (f, w') \<and>
       (\<forall>its. r = Inr its \<longrightarrow> its = items \<and> (\<exists>vs. f = Inr vs \<and> gate_batch_versions items vs = Inr ())))"
  using assms by (auto simp: batch_gate_def io_bind_cases)

lemma gate_batch_versions_Inr:
  "gate_batch_versions items (map f items) = Inr u \<longleftrightarrow>
     (\<forall>i \<in> set items. f i < spec_schema_version (bi_spec i))"
  by (induction items) (auto simp: gate_batch_versions_def rbind_eq_Inr decision_Inr)

lemma validate_against_schema_Inr:
  "validate_against_schema lib table ns cn spec = Inr u \<longleftrightarrow>
     schema_validate lib table ns cn (spec_content spec) = Inr ()"
  by (simp add: validate_against_schema_def split: sum.splits)

lemma batch_gate_ok:
  assumes laws: "kube_laws k stored" and gate: "batch_gate k cd lib table reqs w = (r, w')"
  shows "stored w' = stored w"
    and "r = Inr items \<Longrightarrow>
      map item_key items = map req_key reqs \<and> distinct (map req_key reqs) \<and>
      (\<forall>i \<in> set items. schema_validate lib table (bi_namespace i) (bi_name i) (spec_content (bi_spec i)) = Inr () \<and>
         fst (stored w (item_key i)) < spec_schema_version (bi_spec i))"
proof -
  show "stored w' = stored w"
    using batch_gate_cases [OF gate] fetch_currents_store [OF laws] by blast
  assume r: "r = Inr items"
  with batch_gate_cases [OF gate] obtain vs where
    p: "parse_batch_items cd reqs = Inr items" and
    v: "try_all (\<lambda>i. validate_against_schema lib table (bi_namespace i) (bi_name i) (bi_spec i)) items = Inr ()" and
    f: "fetch_currents k items w = (Inr vs, w')" "gate_batch_versions items vs = Inr ()"
    by blast
  have "vs = map (\<lambda>i. fst (stored w (item_key i))) items"
    using fetch_currents_store [OF laws f(1)] by blast
  with f(2) have "\<forall>i \<in> set items. fst (stored w (item_key i)) < spec_schema_version (bi_spec i)"
    by (simp add: gate_batch_versions_Inr)
  moreover have "map item_key items = map req_key reqs \<and> distinct (map req_key reqs)"
  proof -
    have "parse_batch_loop cd [] reqs = Inr items"
      using p by (simp add: parse_batch_items_def split: if_splits)
    from parse_batch_loop_keys [OF this] show ?thesis by blast
  qed
  ultimately show "map item_key items = map req_key reqs \<and> distinct (map req_key reqs) \<and>
      (\<forall>i \<in> set items. schema_validate lib table (bi_namespace i) (bi_name i) (spec_content (bi_spec i)) = Inr () \<and>
         fst (stored w (item_key i)) < spec_schema_version (bi_spec i))"
    using v by (simp add: try_all_Inr validate_against_schema_Inr)
qed

text \<open>Applying a list of items applies a prefix of it: all of it on success.\<close>

definition store_item :: "(string \<times> string \<Rightarrow> u32 \<times> json option) \<Rightarrow> batch_item \<Rightarrow> string \<times> string \<Rightarrow> u32 \<times> json option" where
  "store_item st i = st(item_key i := view_of_spec (bi_spec i))"

lemma apply_items_store:
  assumes "kube_laws k stored" "spec_codec_ok cd" "apply_items k cd items w = (r, w')"
  shows "\<exists>n \<le> length items. stored w' = foldl store_item (stored w) (take n items) \<and>
    (\<forall>rs. r = Inr rs \<longrightarrow> n = length items \<and> map (\<lambda>b. (br_namespace b, br_name b)) rs = map item_key items)"
  using assms(3)
proof (induction items arbitrary: w r w')
  case (Cons i items)
  obtain f w1 where f: "apply_spec k cd (bi_namespace i) (bi_name i) (bi_spec i) w = (f, w1)"
    by (cases "apply_spec k cd (bi_namespace i) (bi_name i) (bi_spec i) w")
  note st = apply_spec_store [OF assms(1,2) f]
  show ?case
  proof (cases f)
    case (Inl e)
    with Cons.prems f st show ?thesis
      by (intro exI [of _ 0]) (auto simp: io_bind_cases)
  next
    case (Inr rv)
    obtain g w2 where g: "apply_items k cd items w1 = (g, w2)"
      by (cases "apply_items k cd items w1")
    from Cons.IH [OF g] obtain n where n: "n \<le> length items"
      "stored w2 = foldl store_item (stored w1) (take n items)"
      "\<And>rs. g = Inr rs \<Longrightarrow> n = length items \<and> map (\<lambda>b. (br_namespace b, br_name b)) rs = map item_key items"
      by blast
    have "stored w1 = store_item (stored w) i"
      using st Inr by (simp add: store_item_def item_key_def)
    moreover have "w' = w2 \<and> (\<forall>rs. r = Inr rs \<longrightarrow> (\<exists>rest. g = Inr rest \<and>
        rs = \<lparr>br_namespace = bi_namespace i, br_name = bi_name i, br_resource_version = rv\<rparr> # rest))"
      using Cons.prems f g Inr by (auto simp: io_bind_cases)
    ultimately show ?thesis
      using n by (intro exI [of _ "Suc n"]) (auto simp: item_key_def)
  qed
qed auto

lemma sort_batch_items_keys:
  assumes "distinct (map item_key items)"
  shows "sorted_wrt (<) (map item_key (sort_batch_items items))"
    and "set (sort_batch_items items) = set items" "length (sort_batch_items items) = length items"
proof -
  show s: "set (sort_batch_items items) = set items" "length (sort_batch_items items) = length items"
    by (simp_all add: sort_batch_items_def)
  have "distinct (sort_batch_items items)"
    using assms by (simp add: sort_batch_items_def distinct_map)
  then have "distinct (map item_key (sort_batch_items items))"
    using assms s by (simp add: distinct_map)
  moreover have "sorted (map item_key (sort_batch_items items))"
    by (simp add: sort_batch_items_def)
  ultimately show "sorted_wrt (<) (map item_key (sort_batch_items items))"
    by (simp add: strict_sorted_iff)
qed

section \<open>Versions never go down\<close>

definition versions_le :: "(string \<times> string \<Rightarrow> u32 \<times> json option) \<Rightarrow> (string \<times> string \<Rightarrow> u32 \<times> json option) \<Rightarrow> bool" where
  "versions_le s t \<longleftrightarrow> (\<forall>key. fst (s key) \<le> fst (t key))"

lemma versions_le_refl [simp]: "versions_le s s"
  by (simp add: versions_le_def)

lemma versions_le_trans: "versions_le a b \<Longrightarrow> versions_le b c \<Longrightarrow> versions_le a c"
  unfolding versions_le_def by (meson order_trans)

lemma apply_spec_versions:
  assumes "kube_laws k stored" "spec_codec_ok cd" "apply_spec k cd ns nm spec w = (r, w')"
  shows "versions_le (stored w) (stored w')"
  using apply_spec_store [OF assms]
  by (auto simp: versions_le_def view_of_spec_def less_imp_le split: sum.splits)

lemma apply_items_versions:
  assumes "kube_laws k stored" "spec_codec_ok cd" "apply_items k cd items w = (r, w')"
  shows "versions_le (stored w) (stored w')"
  using assms(3)
proof (induction items arbitrary: w r w')
  case (Cons i items)
  obtain f w1 where f: "apply_spec k cd (bi_namespace i) (bi_name i) (bi_spec i) w = (f, w1)"
    by (cases "apply_spec k cd (bi_namespace i) (bi_name i) (bi_spec i) w")
  obtain g w2 where g: "apply_items k cd items w1 = (g, w2)"
    by (cases "apply_items k cd items w1")
  have "w' = w1 \<or> w' = w2"
    using Cons.prems f g by (auto simp: io_bind_cases)
  then show ?case
    using apply_spec_versions [OF assms(1,2) f] Cons.IH [OF g] versions_le_trans by blast
qed simp

lemma fetch_historical_store:
  assumes "kube_laws k stored" "fetch_historical_spec k cd ns nm rv w = (r, w')"
  shows "stored w' = stored w"
  using assms(2) kube_lawsD(2) [OF assms(1), of ns nm rv w]
  by (cases "k_list_at k ns nm rv w")
    (auto simp: fetch_historical_spec_def split: sum.splits option.splits)

text \<open>A revert that succeeds went through its two reads and the apply.\<close>

lemma handle_revert_cases:
  assumes laws: "kube_laws k stored" and codec: "spec_codec_ok cd"
    and run: "handle_revert k cd ns nm rv w = (r, w')"
  shows "(stored w' = stored w \<and> (\<exists>e. r = Inl e)) \<or>
    (\<exists>resp hist w1. r = Inr resp \<and> fetch_historical_spec k cd ns nm rv w = (Inr hist, w1) \<and>
       rr_schema_version resp = saturating_add (max (fst (stored w (ns, nm))) (spec_schema_version hist)) 1 \<and>
       fst (stored w (ns, nm)) < rr_schema_version resp \<and>
       stored w' = (stored w)((ns, nm) := (rr_schema_version resp, Some (spec_content hist))))"
proof (cases "rv = []")
  case True
  with run show ?thesis by (auto simp: handle_revert_def)
next
  case False
  obtain h w1 where h: "fetch_historical_spec k cd ns nm rv w = (h, w1)"
    by (cases "fetch_historical_spec k cd ns nm rv w")
  have s1: "stored w1 = stored w"
    by (rule fetch_historical_store [OF laws h])
  obtain c w2 where c: "fetch_current_schema_version k ns nm w1 = (c, w2)"
    by (cases "fetch_current_schema_version k ns nm w1")
  note fc = fetch_current [OF laws c]
  show ?thesis
  proof (cases h)
    case (Inl e)
    with run h s1 False show ?thesis
      by (auto simp: handle_revert_def io_bind_cases)
  next
    case hist: (Inr hist)
    show ?thesis
    proof (cases c)
      case (Inl e)
      with run h hist c s1 fc(1) False show ?thesis
        by (auto simp: handle_revert_def io_bind_cases)
    next
      case (Inr cur)
      let ?v = "saturating_add (max cur (spec_schema_version hist)) 1"
      let ?spec = "\<lparr>spec_schema_version = ?v, spec_content = spec_content hist\<rparr>"
      obtain a w3 where a: "apply_spec k cd ns nm ?spec w2 = (a, w3)"
        by (cases "apply_spec k cd ns nm ?spec w2")
      have cur: "cur = fst (stored w (ns, nm))"
        using fc(2) [OF Inr] s1 by simp
      have res: "w' = w3" "r = (case a of Inl e \<Rightarrow> Inl e | Inr v \<Rightarrow> Inr \<lparr>rr_resource_version = v, rr_schema_version = ?v\<rparr>)"
        using run h hist c Inr a False by (auto simp: handle_revert_def io_bind_cases Let_def)
      show ?thesis
        using apply_spec_store [OF laws codec a] res s1 fc(1) h hist cur
        by (cases a) (auto simp: view_of_spec_def)
    qed
  qed
qed

text \<open>Calls of the write RPCs, one after the other.\<close>

datatype write_call = Call_Apply apply_request | Call_Batch "apply_request list" | Call_Revert string string string

fun run_call ::
  "'w kube \<Rightarrow> codecs \<Rightarrow> 'v schema_lib \<Rightarrow> 'v schema_table \<Rightarrow> 'w \<Rightarrow> write_call \<Rightarrow> 'w" where
  "run_call k cd lib table w (Call_Apply req) = snd (handle_apply k cd lib table req w)"
| "run_call k cd lib table w (Call_Batch reqs) = snd (handle_batch_apply k cd lib table reqs w)"
| "run_call k cd lib table w (Call_Revert ns nm rv) = snd (handle_revert k cd ns nm rv w)"

lemma run_call_versions:
  assumes "kube_laws k stored" "spec_codec_ok cd"
  shows "versions_le (stored w) (stored (run_call k cd lib table w c))"
proof (cases c)
  case (Call_Apply req)
  obtain r w' where run: "handle_apply k cd lib table req w = (r, w')"
    by (cases "handle_apply k cd lib table req w")
  with apply_inner_store [OF assms run [unfolded handle_apply_def]] Call_Apply show ?thesis
    by (auto simp: versions_le_def view_of_spec_def less_imp_le split: sum.splits)
next
  case (Call_Batch reqs)
  obtain g w1 where g: "batch_gate k cd lib table reqs w = (g, w1)"
    by (cases "batch_gate k cd lib table reqs w")
  note gate = batch_gate_ok(1) [OF assms(1) g]
  show ?thesis
  proof (cases g)
    case (Inl e)
    with g gate Call_Batch show ?thesis
      by (simp add: handle_batch_apply_def io_bind_def)
  next
    case (Inr items)
    obtain r w' where a: "apply_items k cd (sort_batch_items items) w1 = (r, w')"
      by (cases "apply_items k cd (sort_batch_items items) w1")
    with g gate Inr Call_Batch apply_items_versions [OF assms a] show ?thesis
      by (simp add: handle_batch_apply_def io_bind_def)
  qed
next
  case (Call_Revert ns nm rv)
  obtain r w' where run: "handle_revert k cd ns nm rv w = (r, w')"
    by (cases "handle_revert k cd ns nm rv w")
  with handle_revert_cases [OF assms run] Call_Revert show ?thesis
    by (auto simp: versions_le_def less_imp_le)
qed

section \<open>Jitter\<close>

lemma saturating_mul_2_quarter: "unat (saturating_mul 2 (b div 4) :: u64) = 2 * (unat b div 4)"
proof -
  have "unat (b div 4) = unat b div 4"
    by (simp add: unat_div)
  moreover have "unat b < 2 ^ 64"
    using unsigned_less [of b, where 'a = nat] by simp
  then have "2 * (unat b div 4) < 2 ^ 64"
    by simp
  ultimately show ?thesis
    by (simp add: saturating_mul_def unat_word_ariths)
qed

lemma jitter_band:
  "unat base - unat base div 4 \<le> unat (jittered_retry_ms nanos base) \<and>
   unat (jittered_retry_ms nanos base) \<le> unat base + unat base div 4"
proof (cases "base = 0")
  case True
  then show ?thesis by (simp add: jittered_retry_ms_def)
next
  case False
  let ?q = "unat base div 4"
  define span where "span = saturating_add (saturating_mul 2 (base div 4)) 1"
  have b: "unat base < 2 ^ 64"
    using unsigned_less [of base, where 'a = nat] by simp
  have span: "unat span = 2 * ?q + 1"
    using b by (simp add: span_def unat_saturating_add saturating_mul_2_quarter)
  have "unat (nanos mod span) = unat nanos mod unat span"
    by (rule unat_mod)
  then have off: "unat (nanos mod span) \<le> 2 * ?q"
    using span by (metis Suc_eq_plus1 less_Suc_eq_le mod_less_divisor zero_less_Suc)
  have "unat (jittered_retry_ms nanos base) = min (unat base - ?q + unat (nanos mod span)) (2 ^ 64 - 1)"
    using False by (simp add: jittered_retry_ms_def span_def [symmetric] Let_def unat_saturating_add
        unat_saturating_sub unat_div)
  with off b show ?thesis by auto
qed

lemma jittered_le: "unat (jittered_retry_ms nanos 100) \<le> 125" "unat (jittered_retry_ms nanos 200) \<le> 250"
  using jitter_band [of 100 nanos] jitter_band [of 200 nanos] by simp_all

section \<open>Retries\<close>

lemma retry_loop_rounds:
  assumes f: "\<And>w. calls (snd (f w)) = calls w + (1 :: nat)"
    and clock: "\<And>w. calls (snd (k_subsec_nanos k w)) = calls w"
    and run: "run_patch_retry_loop k ex f attempt w = (r, w', ds)" and "attempt \<le> 2"
  shows "calls w' = calls w + length ds + 1 \<and> attempt + length ds \<le> 2 \<and>
    (r = Inl (Status Aborted ex) \<longrightarrow> attempt + length ds = 2) \<and>
    (\<forall>i < length ds. \<exists>n. ds ! i = jittered_retry_ms n (RETRY_DELAYS_MS ! (attempt + i)))"
  using run \<open>attempt \<le> 2\<close>
proof (induction "2 - attempt" arbitrary: attempt w r w' ds)
  case 0
  obtain o1 w1 where o1: "f w = (o1, w1)"
    by (cases "f w")
  have "attempt = 2"
    using 0 by simp
  with 0 f [of w] o1 show ?case
    by (auto simp: retry_round [of k ex f 2 w] split: sum.splits if_splits)
next
  case (Suc m)
  obtain o1 w1 where o1: "f w = (o1, w1)"
    by (cases "f w")
  obtain t w2 where t: "k_subsec_nanos k w1 = (t, w2)"
    by (cases "k_subsec_nanos k w1")
  obtain r' w3 ds' where rec: "run_patch_retry_loop k ex f (Suc attempt) w2 = (r', w3, ds')"
    by (cases "run_patch_retry_loop k ex f (Suc attempt) w2")
  have "m = 2 - Suc attempt" "Suc attempt \<le> 2"
    using Suc.hyps(2) by simp_all
  note IH = Suc.hyps(1) [OF this(1) rec this(2)]
  have calls: "calls w1 = calls w + 1" "calls w2 = calls w1"
    using f [of w] clock [of w1] o1 t by simp_all
  consider (stop) "ds = []" "w' = w1" "r \<noteq> Inl (Status Aborted ex)"
    | (again) "r = r'" "w' = w3" "ds = jittered_retry_ms t (RETRY_DELAYS_MS ! attempt) # ds'"
    using Suc.prems Suc.hyps(2)
    by (auto simp: retry_round [of k ex f attempt w] o1 t rec split: sum.splits if_splits)
  then show ?case
  proof cases
    case stop
    then show ?thesis
      using calls Suc.prems by simp
  next
    case again
    have "\<exists>n. ds ! i = jittered_retry_ms n (RETRY_DELAYS_MS ! (attempt + i))" if "i < length ds" for i
      using that IH again by (cases i) auto
    then show ?thesis
      using IH again calls by auto
  qed
qed

lemma retry_delays_sum:
  assumes "length ds \<le> 2"
    and "\<forall>i < length ds. \<exists>n. ds ! i = jittered_retry_ms n (RETRY_DELAYS_MS ! i)"
  shows "sum_list (map unat ds) \<le> 375"
proof -
  have d: "unat (ds ! i) \<le> (if i = 0 then 125 else 250)" if "i < length ds" "i < 2" for i
    using assms(2) that jittered_le by (cases i) (auto simp: RETRY_DELAYS_MS_def)
  show ?thesis
  proof (cases ds)
    case (Cons a ds1)
    show ?thesis
    proof (cases ds1)
      case Nil
      then show ?thesis using d [of 0] Cons by simp
    next
      case c2: (Cons b ds2)
      with assms(1) Cons have "ds2 = []" by simp
      then show ?thesis
        using d [of 0] d [of 1] Cons c2 by simp
    qed
  qed simp
qed

section \<open>A concrete API server\<close>

text \<open>A store of specs with a revision counter; used to show that the assumptions can hold.\<close>

type_synonym demo_world = "(string \<times> string, json) hmap \<times> nat"

definition demo_stored_object :: "string \<Rightarrow> string \<Rightarrow> json \<Rightarrow> nat \<Rightarrow> dynamic_object" where
  "demo_stored_object ns nm v rv =
     \<lparr>obj_metadata = empty_meta\<lparr>meta_name := Some nm, meta_namespace := Some ns,
        meta_resource_version := Some (show_nat rv)\<rparr>, obj_data = JObj [(''spec'', v)]\<rparr>"

definition demo_kube :: "demo_world kube" where
  "demo_kube =
     \<lparr>k_get = (\<lambda>ns nm w. (case hm_get (fst w) (ns, nm) of
         Some v \<Rightarrow> Inr (demo_stored_object ns nm v (snd w)) | None \<Rightarrow> Inl (Kube_Api 404 ''not found''), w)),
      k_patch = (\<lambda>ns nm body w. case json_get ''spec'' body of
         Some v \<Rightarrow> (Inr (demo_stored_object ns nm v (snd w + 1)), (hm_insert (ns, nm) v (fst w), snd w + 1))
       | None \<Rightarrow> (Inl (Kube_Api 422 ''invalid''), w)),
      k_list_at = (\<lambda>ns nm rv w. (case hm_get (fst w) (ns, nm) of
         Some v \<Rightarrow> Inr [demo_stored_object ns nm v (snd w)] | None \<Rightarrow> Inr [], w)),
      k_get_secret = (\<lambda>ns nm w. (Inl (Kube_Api 404 ''not found''), w)),
      k_patch_secret = (\<lambda>ns nm s w. (Inr s, w)),
      k_get_configmap = (\<lambda>ns nm w. (Inl (Kube_Api 404 ''not found''), w)),
      k_subsec_nanos = (\<lambda>w. (0, w)),
      k_traceparent = (\<lambda>w. None)\<rparr>"

definition demo_store :: "demo_world store" where
  "demo_store w key = spec_view (hm_get (fst w) key)"

lemma demo_kube_laws: "kube_laws demo_kube demo_store"
  unfolding kube_laws_def reads_pure_def get_returns_stored_def patch_stores_def
  by (auto simp: demo_kube_def demo_store_def demo_stored_object_def spec_view_def fun_eq_iff
      split: option.splits)

lemma demo_codec_ok: "spec_codec_ok demo_codecs"
  by (auto simp: spec_codec_ok_def demo_codecs_def)

definition demo_req :: "string \<Rightarrow> string \<Rightarrow> apply_request" where
  "demo_req nm yaml = \<lparr>ar_namespace = ''ns'', ar_name = nm, ar_yaml_content = yaml\<rparr>"

definition demo_spec :: "u32 \<Rightarrow> config_spec" where
  "demo_spec v = \<lparr>spec_schema_version = v, spec_content = JNull\<rparr>"

lemma demo_yaml: "spec_from_yaml demo_codecs ''3'' = Inr (demo_spec 3)"
    "spec_from_yaml demo_codecs ''5'' = Inr (demo_spec 5)"
  by (simp_all add: demo_codecs_def demo_spec_def parse_u32_def parse_uint_def is_digit_def digits_val_def
      digit_val_def)

section \<open>Properties\<close>

text \<open>Property C1. An \<open>Apply\<close> that succeeds has parsed, satisfied the registered schema and strictly
  raised the version of its target, which then holds exactly the applied version and content while
  every other object is untouched; an \<open>Apply\<close> that fails, for whatever reason, has changed nothing.\<close>

theorem apply_strictly_increases:
  assumes "kube_laws k stored" "spec_codec_ok cd"
    and "handle_apply k cd lib table req w = (r, w')"
  shows "case r of
      Inr rv \<Rightarrow> \<exists>spec. spec_from_yaml cd (ar_yaml_content req) = Inr spec \<and>
        schema_validate lib table (ar_namespace req) (ar_name req) (spec_content spec) = Inr () \<and>
        fst (stored w (ar_namespace req, ar_name req)) < spec_schema_version spec \<and>
        stored w' = (stored w)((ar_namespace req, ar_name req) := (spec_schema_version spec, Some (spec_content spec)))
    | Inl e \<Rightarrow> stored w' = stored w"
  using apply_inner_store [OF assms(1,2), of lib table "ar_namespace req" "ar_name req" "ar_yaml_content req" w r w'] assms(3)
  unfolding handle_apply_def view_of_spec_def by (auto split: sum.splits)

lemma demo_simps:
  "spec_to_value demo_codecs s = Inr (JObj [(''schema_version'', JNum (PosInt (ucast (spec_schema_version s)))),
     (''content'', spec_content s)])"
  "k_traceparent demo_kube w = None"
  "k_get demo_kube ns nm ([], n) = (Inl (Kube_Api 404 ''not found''), ([], n))"
  "k_patch demo_kube ns nm (apply_patch_body ns nm v None) ([], n) =
     (Inr (demo_stored_object ns nm v (n + 1)), ([((ns, nm), v)], n + 1))"
  by (simp_all add: demo_codecs_def demo_kube_def apply_patch_body_def hm_insert_def)

lemma demo_fetch: "fetch_current_schema_version demo_kube ns nm ([], n) = (Inr 0, ([], n))"
  by (simp add: fetch_current_schema_version_def demo_simps)

lemma demo_write:
  "apply_write demo_kube demo_codecs ns nm (demo_spec v) ([], n) =
     (Inr (show_nat (n + 1)), ([((ns, nm), JObj [(''schema_version'', JNum (PosInt (ucast v))), (''content'', JNull)])], n + 1))"
  by (simp add: apply_write_def patch_with_retry_def retry_round [of _ _ _ 0] demo_simps demo_spec_def
      demo_stored_object_def empty_meta_def)

lemma demo_apply:
  "handle_apply demo_kube demo_codecs demo_schema_lib [] (demo_req ''a'' ''3'') ([], 0) =
     (Inr (show_nat 1), ([((''ns'', ''a''), JObj [(''schema_version'', JNum (PosInt 3)), (''content'', JNull)])], 1))"
  by (simp add: handle_apply_def apply_inner_def io_bind_def io_of_def demo_req_def demo_yaml
      validate_against_schema_def schema_validate_def apply_spec_def demo_fetch demo_write
      schema_version_decision_def) (simp add: demo_spec_def)

theorem apply_strictly_increases_witness:
  "\<exists>w'. handle_apply demo_kube demo_codecs demo_schema_lib [] (demo_req ''a'' ''3'') ([], 0) = (Inr (show_nat 1), w') \<and>
     fst (demo_store ([], 0) (''ns'', ''a'')) < 3 \<and> demo_store w' (''ns'', ''a'') = (3, Some JNull)"
  using apply_strictly_increases [OF demo_kube_laws demo_codec_ok demo_apply] demo_apply
  by (auto simp: demo_req_def demo_yaml demo_spec_def)

text \<open>Property C14. Over any sequence of \<open>Apply\<close>, \<open>BatchApply\<close> and \<open>Revert\<close> calls that do not overlap
  in time, whatever their outcomes, the version of no object ever decreases.\<close>

theorem write_calls_never_lower_versions:
  assumes "kube_laws k stored" "spec_codec_ok cd"
  shows "fst (stored w key) \<le> fst (stored (foldl (run_call k cd lib table) w calls) key)"
proof -
  have "versions_le (stored w) (stored (foldl (run_call k cd lib table) w calls))"
  proof (induction calls arbitrary: w)
    case (Cons c calls)
    show ?case
      using run_call_versions [OF assms, of w lib table c] Cons.IH [of "run_call k cd lib table w c"]
      by (auto intro: versions_le_trans)
  qed simp
  then show ?thesis
    unfolding versions_le_def by blast
qed

theorem write_calls_never_lower_versions_witness:
  "fst (demo_store ([], 0) (''ns'', ''a'')) \<le> fst (demo_store (foldl (run_call demo_kube demo_codecs demo_schema_lib [])
     ([], 0) [Call_Apply (demo_req ''a'' ''5''), Call_Apply (demo_req ''a'' ''3'')]) (''ns'', ''a''))"
  by (rule write_calls_never_lower_versions [OF demo_kube_laws demo_codec_ok])





lemma below_saturating_succ: "(b :: u32) < saturating_add (max a b) 1 \<or> b = - 1"
proof (cases "b = - 1")
  case False
  then have "b < - 1"
    by (simp add: word_order.not_eq_extremum)
  then have "unat b < unat (- 1 :: u32)"
    by (simp only: word_less_nat_alt)
  then have "unat b < 2 ^ 32 - 1"
    by (simp add: unat_minus_one_word)
  moreover have "unat b \<le> unat (max a b)"
    by (metis max.cobounded2 word_le_nat_alt)
  ultimately show ?thesis
    by (auto simp: word_less_nat_alt unat_saturating_add min_def)
qed simp

lemma apply_spec_gate:
  assumes "fetch_current_schema_version k ns nm w = (Inr c, u)"
    and "schema_version_decision (spec_schema_version spec) c = Inl e"
  shows "fst (apply_spec k cd ns nm spec w) = Inl e"
  using assms by (simp add: apply_spec_def io_bind_def io_of_def)

lemma decision_code: "schema_version_decision i c = Inl e \<Longrightarrow> st_code e = FailedPrecondition"
  by (auto simp: schema_version_decision_def split: if_splits)

lemma dry_run_assemble_cases:
  "case dry_run_assemble cd current spec of
     Inr d \<Rightarrow> dr_current_schema_version d = (case current of None \<Rightarrow> 0 | Some obj \<Rightarrow> parse_schema_version_from_object obj) \<and>
       dr_proposed_schema_version d = spec_schema_version spec \<and>
       dr_current_schema_version d < spec_schema_version spec
   | Inl e \<Rightarrow> st_code e = FailedPrecondition \<longrightarrow>
       schema_version_decision (spec_schema_version spec)
         (case current of None \<Rightarrow> 0 | Some obj \<Rightarrow> parse_schema_version_from_object obj) = Inl e"
proof -
  have [simp]: "st_code e = Internal" if "extract_current_content_json cd obj = Inl e" for obj e
    using that by (auto simp: extract_current_content_json_def split: option.splits sum.splits)
  show ?thesis
    by (auto simp: dry_run_assemble_def Let_def rbind_def decision_Inr dest: decision_code
        split: sum.splits option.splits)
qed


text \<open>Property C17. A \<open>Revert\<close> that succeeds stores the historical content under a version strictly
  above the current one, and above the historical one unless that is already the largest 32-bit
  number; when the current version is the largest 32-bit number every \<open>Revert\<close> fails; and a failed
  \<open>Revert\<close> has changed nothing.\<close>

theorem revert_replays_content:
  assumes "kube_laws k stored" "spec_codec_ok cd" "handle_revert k cd ns nm rv w = (r, w')"
  shows "case r of
      Inl e \<Rightarrow> stored w' = stored w
    | Inr resp \<Rightarrow> \<exists>hist w1. fetch_historical_spec k cd ns nm rv w = (Inr hist, w1) \<and>
        fst (stored w (ns, nm)) < rr_schema_version resp \<and>
        (spec_schema_version hist < rr_schema_version resp \<or> spec_schema_version hist = - 1) \<and>
        fst (stored w (ns, nm)) \<noteq> - 1 \<and>
        stored w' = (stored w)((ns, nm) := (rr_schema_version resp, Some (spec_content hist)))"
  using handle_revert_cases [OF assms]
proof
  assume "stored w' = stored w \<and> (\<exists>e. r = Inl e)"
  then show ?thesis by auto
next
  assume "\<exists>resp hist w1. r = Inr resp \<and> fetch_historical_spec k cd ns nm rv w = (Inr hist, w1) \<and>
       rr_schema_version resp = saturating_add (max (fst (stored w (ns, nm))) (spec_schema_version hist)) 1 \<and>
       fst (stored w (ns, nm)) < rr_schema_version resp \<and>
       stored w' = (stored w)((ns, nm) := (rr_schema_version resp, Some (spec_content hist)))"
  then obtain resp hist w1 where r: "r = Inr resp" "fetch_historical_spec k cd ns nm rv w = (Inr hist, w1)"
    "rr_schema_version resp = saturating_add (max (fst (stored w (ns, nm))) (spec_schema_version hist)) 1"
    "fst (stored w (ns, nm)) < rr_schema_version resp"
    "stored w' = (stored w)((ns, nm) := (rr_schema_version resp, Some (spec_content hist)))"
    by blast
  have "spec_schema_version hist < rr_schema_version resp \<or> spec_schema_version hist = - 1"
    unfolding r(3) by (rule below_saturating_succ)
  moreover have "fst (stored w (ns, nm)) \<noteq> - 1"
    using r(4) by (metis not_less word_order.extremum)
  ultimately show ?thesis
    using r by auto
qed

theorem revert_replays_content_witness:
  "\<exists>resp w'. handle_revert demo_kube demo_codecs ''ns'' ''a'' ''1''
     ([((''ns'', ''a''), JObj [(''schema_version'', JNum (PosInt 3)), (''content'', JNull)])], 1) = (resp, w') \<and>
     (case resp of Inr x \<Rightarrow> 3 < rr_schema_version x | Inl e \<Rightarrow> False)"
proof -
  let ?w = "([((''ns'', ''a''), JObj [(''schema_version'', JNum (PosInt 3)), (''content'', JNull)])], 1) :: demo_world"
  obtain r w' where run: "handle_revert demo_kube demo_codecs ''ns'' ''a'' ''1'' ?w = (r, w')"
    by (cases "handle_revert demo_kube demo_codecs ''ns'' ''a'' ''1'' ?w")
  have "\<exists>x. r = Inr x"
    using run
    by (auto simp: handle_revert_def io_bind_def io_of_def fetch_historical_spec_def parse_historical_obj_def
        fetch_current_schema_version_def parse_schema_version_from_object_def apply_spec_def Let_def
        schema_version_decision_def saturating_add_def apply_write_def patch_with_retry_def
        retry_round [of _ _ _ 0] demo_kube_def demo_stored_object_def demo_codecs_def empty_meta_def
        apply_patch_body_def hm_get_def)
  moreover have "fst (demo_store ?w (''ns'', ''a'')) = 3"
    by (simp add: demo_store_def hm_get_def spec_view_def)
  ultimately show ?thesis
    using revert_replays_content [OF demo_kube_laws demo_codec_ok run] run by auto
qed



text \<open>Two applies of one object that overlap in time can undo each other: if both read
  the version before either writes, both pass the gate, both succeed, and when the one with the
  smaller version writes last the stored version goes down.\<close>

lemma concurrent_applies_can_regress:
  assumes "kube_laws k stored" "spec_codec_ok cd"
    and "fetch_current_schema_version k ns nm w = (Inr c, w1)"
    and "schema_version_decision (spec_schema_version small) c = Inr ()"
    and "fetch_current_schema_version k ns nm w1 = (Inr c', w2)"
    and "schema_version_decision (spec_schema_version large) c' = Inr ()"
    and "apply_write k cd ns nm large w2 = (Inr rv, w3)"
    and "apply_write k cd ns nm small w3 = (Inr rv', w4)"
    and "spec_schema_version small < spec_schema_version large"
  shows "fst (stored w3 (ns, nm)) = spec_schema_version large \<and>
    fst (stored w4 (ns, nm)) = spec_schema_version small \<and>
    fst (stored w4 (ns, nm)) < fst (stored w3 (ns, nm))"
  using apply_write_store [OF assms(1,2,7)] apply_write_store [OF assms(1,2,8)] assms(9)
  by (simp add: view_of_spec_def)

text \<open>The version of an applied secret survives the round trip through the cluster: the
  annotation written by \<open>ApplySecret\<close> is read back as the same 32-bit version by the next
  \<open>ApplySecret\<close> and by the secret watcher.\<close>

lemma secret_version_round_trip:
  "parse_secret_schema_version (build_secret_patch nm ns v d) = v \<and>
   map_option ss_schema_version (parse_secret cd now ns (build_secret_patch nm ns v d)) = Some v"
  by (simp add: parse_secret_schema_version_def build_secret_patch_def parse_secret_def bt_get_def
      empty_meta_def parse_u32_show secret_snapshot_default_def Let_def)

section \<open>Progress\<close>

text \<open>An API server under bounded contention: reads answer or find nothing, and a patch with a spec
  succeeds unless another writer got in between, which happens to a write at most twice in a row.
  \<open>busy\<close> counts the conflicts still to come.\<close>

definition contention_bounded :: "'w kube \<Rightarrow> ('w \<Rightarrow> nat) \<Rightarrow> bool" where
  "contention_bounded k busy \<longleftrightarrow>
     (\<forall>ns nm w e w'. k_get k ns nm w = (Inl e, w') \<longrightarrow> api_status_code e = Some 404) \<and>
     (\<forall>ns nm body w e w'. json_get ''spec'' body \<noteq> None \<and> k_patch k ns nm body w = (Inl e, w') \<longrightarrow>
        api_status_code e = Some 409 \<and> busy w' < busy w) \<and>
     (\<forall>w n w'. k_subsec_nanos k w = (n, w') \<longrightarrow> busy w' \<le> busy w) \<and>
     (\<forall>w. busy w \<le> 2)"

text \<open>The three attempts of the retry loop are enough for that.\<close>

lemma retry_loop_succeeds:
  assumes fails: "\<And>w e w'. f w = (Inl e, w') \<Longrightarrow> api_status_code e = Some 409 \<and> busy w' < busy w"
    and clock: "\<And>w n w'. k_subsec_nanos k w = (n, w') \<Longrightarrow> busy w' \<le> busy w"
    and "busy w + attempt \<le> (2 :: nat)"
  shows "\<exists>rv w' ds. run_patch_retry_loop k ex f attempt w = (Inr rv, w', ds)"
  using assms(3)
proof (induction "busy w" arbitrary: w attempt rule: less_induct)
  case less
  obtain o1 w1 where o1: "f w = (o1, w1)" by fastforce
  show ?case
  proof (cases o1)
    case (Inl e)
    with fails o1 have e: "api_status_code e = Some 409" "busy w1 < busy w" by auto
    obtain n w2 where n: "k_subsec_nanos k w1 = (n, w2)" by fastforce
    from clock [OF n] e(2) less.prems have "busy w2 < busy w" "busy w2 + Suc attempt \<le> 2" "attempt < 2" by auto
    with less.hyps [of w2 "Suc attempt"] show ?thesis
      using o1 Inl e(1) n by (auto simp: retry_round [of k ex f attempt w])
  qed (use o1 in \<open>simp add: retry_round [of k ex f attempt w]\<close>)
qed

lemma apply_write_succeeds:
  assumes "contention_bounded k busy" "spec_to_value cd spec = Inr v"
  shows "\<exists>rv w'. apply_write k cd ns nm spec w = (Inr rv, w')"
proof -
  let ?body = "apply_patch_body ns nm v (k_traceparent k w)"
  let ?f = "\<lambda>w. case k_patch k ns nm ?body w of
      (Inr obj, w') \<Rightarrow> (Inr (unwrap_or_default (meta_resource_version (obj_metadata obj))), w')
    | (Inl e, w') \<Rightarrow> (Inl e, w')"
  have "\<exists>rv w' ds. run_patch_retry_loop k exhausted_text ?f 0 w = (Inr rv, w', ds)"
  proof (rule retry_loop_succeeds [where busy = busy])
    fix w e w' assume "?f w = (Inl e, w')"
    then have "k_patch k ns nm ?body w = (Inl e, w')"
      by (auto split: prod.splits sum.splits)
    with assms(1) show "api_status_code e = Some 409 \<and> busy w' < busy w"
      unfolding contention_bounded_def by (metis spec_in_patch_body option.distinct(1))
  next
    fix w n w' assume "k_subsec_nanos k w = (n, w')"
    with assms(1) show "busy w' \<le> busy w"
      unfolding contention_bounded_def by blast
  qed (use assms(1) in \<open>simp add: contention_bounded_def\<close>)
  then show ?thesis
    by (auto simp: apply_write_def assms(2) patch_with_retry_def)
qed

text \<open>An \<open>Apply\<close> of a higher version whose content the schema accepts then succeeds.\<close>

lemma apply_inner_succeeds:
  assumes laws: "kube_laws k stored" and busy: "contention_bounded k busy"
    and yaml: "spec_from_yaml cd yaml = Inr spec" "spec_to_value cd spec = Inr v"
    and ok: "schema_validate lib table ns nm (spec_content spec) = Inr u"
    and newer: "fst (stored w (ns, nm)) < spec_schema_version spec"
  shows "\<exists>rv w'. apply_inner k cd lib table ns nm yaml w = (Inr rv, w')"
proof -
  obtain f w1 where f: "fetch_current_schema_version k ns nm w = (f, w1)" by fastforce
  have "api_status_code e = Some 404" if "k_get k ns nm w = (Inl e, w')" for e w'
    using busy that unfolding contention_bounded_def by blast
  then have "\<exists>cur. f = Inr cur"
    using f by (auto simp: fetch_current_schema_version_def split: prod.splits sum.splits if_splits)
  then obtain cur where cur: "f = Inr cur" ..
  with fetch_current(2) [OF laws f] newer have "cur < spec_schema_version spec" by simp
  then have "schema_version_decision (spec_schema_version spec) cur = Inr ()"
    by (simp add: decision_Inr)
  moreover obtain rv w' where "apply_write k cd ns nm spec w1 = (Inr rv, w')"
    using apply_write_succeeds [OF busy yaml(2)] by blast
  ultimately show ?thesis
    using f cur yaml ok
    by (simp add: apply_inner_def apply_spec_def validate_against_schema_def io_bind_def io_of_def)
qed

end
