(* ===== verification/Namespace_Fanout.thy ===== *)
theory Namespace_Fanout
  imports Subscribe_Replay Apply_Path
begin

text \<open>
  The namespace side of subscriptions (\<open>grpc/subscribe/watch.rs\<close>, the shard set of
  \<open>grpc/subscribe/broadcast.rs\<close>, and \<open>grpc/subscribe.rs\<close>): sharded fan-out, the immediate and the
  coalescing pump, the registry of namespace watchers and its garbage collector. The extraction of
  a span context from a traceparent is OpenTelemetry's and a parameter.
\<close>

section \<open>Shards\<close>

text \<open>A broadcast sender: how many receivers it has and the frames it has accepted. A send without
  receivers is refused and the frame is lost.\<close>

record sender =
  sn_receivers :: nat
  sn_sent :: "broadcast_frame list"

definition sender_send :: "broadcast_frame \<Rightarrow> sender \<Rightarrow> bool \<times> sender" where
  "sender_send fr s = (if sn_receivers s = 0 then (False, s) else (True, s\<lparr>sn_sent := sn_sent s @ [fr]\<rparr>))"

record shard_set =
  sh_senders :: "sender list"
  sh_next :: usize

definition MIN_BROADCAST_SHARDS :: nat where
  "MIN_BROADCAST_SHARDS = 1"

text \<open>A new set comes with one receiver for each shard.\<close>

definition shard_set_new :: "nat \<Rightarrow> shard_set" where
  "shard_set_new shards =
     \<lparr>sh_senders = replicate (max shards MIN_BROADCAST_SHARDS) \<lparr>sn_receivers = 1, sn_sent = []\<rparr>, sh_next = 0\<rparr>"

definition drop_receiver :: "nat \<Rightarrow> shard_set \<Rightarrow> shard_set" where
  "drop_receiver idx sh =
     sh\<lparr>sh_senders := (sh_senders sh)[idx := (sh_senders sh ! idx)\<lparr>sn_receivers := sn_receivers (sh_senders sh ! idx) - 1\<rparr>]\<rparr>"

definition next_receiver :: "shard_set \<Rightarrow> nat \<times> shard_set" where
  "next_receiver sh =
     (let idx = unat (sh_next sh) mod length (sh_senders sh);
          s = sh_senders sh ! idx
      in (idx, \<lparr>sh_senders = (sh_senders sh)[idx := s\<lparr>sn_receivers := sn_receivers s + 1\<rparr>], sh_next = sh_next sh + 1\<rparr>))"

definition send_to_all :: "broadcast_frame \<Rightarrow> shard_set \<Rightarrow> bool \<times> shard_set" where
  "send_to_all fr sh =
     (list_ex (\<lambda>s. fst (sender_send fr s)) (sh_senders sh),
      sh\<lparr>sh_senders := map (\<lambda>s. snd (sender_send fr s)) (sh_senders sh)\<rparr>)"

definition total_receiver_count :: "shard_set \<Rightarrow> nat" where
  "total_receiver_count sh = sum_list (map sn_receivers (sh_senders sh))"

section \<open>Pumps\<close>

type_synonym span_extractor = "string \<Rightarrow> string option"

fun event_object :: "dynamic_object watch_event \<Rightarrow> (event_type \<times> dynamic_object) option" where
  "event_object (Apply obj) = Some (Modified, obj)"
| "event_object (InitApply obj) = Some (Modified, obj)"
| "event_object (Delete obj) = Some (Deleted, obj)"
| "event_object Init = None"
| "event_object InitDone = None"

definition parent_span_of :: "span_extractor \<Rightarrow> dynamic_object \<Rightarrow> string option" where
  "parent_span_of span_of obj =
     Option.bind (Option.bind (meta_annotations (obj_metadata obj)) (\<lambda>a. bt_get a TRACEPARENT_ANNOTATION)) span_of"

definition process_namespace_event ::
  "codecs \<Rightarrow> span_extractor \<Rightarrow> instant \<Rightarrow> dynamic_object watch_event \<Rightarrow> replay_buffer \<Rightarrow>
   broadcast_frame option \<times> replay_buffer" where
  "process_namespace_event cd span_of now ev buf = (case event_object ev of
       None \<Rightarrow> (None, buf)
     | Some (ty, obj) \<Rightarrow> (case parse_config_object cd now obj of
           None \<Rightarrow> (None, buf)
         | Some snap \<Rightarrow>
             let config_event = \<lparr>ce_type = ty, ce_config = Some (snapshot_to_proto cd now snap)\<rparr>
             in (Some \<lparr>bf_sent_at = now, bf_event = config_event, bf_labels = cs_labels snap,
                       bf_parent_span = parent_span_of span_of obj\<rparr>,
                 push_replay (cs_resource_version snap) config_event (cs_labels snap) buf)))"

text \<open>What a pump changes: the shards, the replay buffer, and the counter of broadcast events.\<close>

record pump_state =
  pm_shards :: shard_set
  pm_buf :: replay_buffer
  pm_events :: nat

definition emit_frame :: "broadcast_frame \<Rightarrow> pump_state \<Rightarrow> pump_state" where
  "emit_frame fr st = (case send_to_all fr (pm_shards st) of (delivered, sh) \<Rightarrow>
     st\<lparr>pm_shards := sh, pm_events := pm_events st + (if delivered then 1 else 0)\<rparr>)"

fun pump_immediate ::
  "codecs \<Rightarrow> span_extractor \<Rightarrow> (instant \<times> dynamic_object watch_event) list \<Rightarrow> pump_state \<Rightarrow> pump_state" where
  "pump_immediate cd span_of [] st = st"
| "pump_immediate cd span_of ((now, ev) # evs) st =
     (case process_namespace_event cd span_of now ev (pm_buf st) of
        (None, buf) \<Rightarrow> pump_immediate cd span_of evs (st\<lparr>pm_buf := buf\<rparr>)
      | (Some fr, buf) \<Rightarrow> pump_immediate cd span_of evs (emit_frame fr (st\<lparr>pm_buf := buf\<rparr>)))"

definition COALESCE_MAX_BATCH :: nat where
  "COALESCE_MAX_BATCH = 16"

definition flush_batch :: "broadcast_frame list \<Rightarrow> pump_state \<Rightarrow> pump_state" where
  "flush_batch batch st = foldl (\<lambda>st fr. emit_frame fr st) st batch"

text \<open>The window expires before the next event exactly if its deadline is earlier.\<close>

definition expired :: "instant option \<Rightarrow> instant \<Rightarrow> bool" where
  "expired deadline now \<longleftrightarrow> (case deadline of None \<Rightarrow> False | Some dl \<Rightarrow> dl < now)"

fun coalesced_loop ::
  "codecs \<Rightarrow> span_extractor \<Rightarrow> nat \<Rightarrow> (instant \<times> dynamic_object watch_event) list \<Rightarrow>
   broadcast_frame list \<Rightarrow> instant option \<Rightarrow> pump_state \<Rightarrow> pump_state" where
  "coalesced_loop cd span_of window [] batch deadline st = flush_batch batch st"
| "coalesced_loop cd span_of window ((now, ev) # evs) batch0 deadline0 st0 =
     (let (batch, deadline, st) =
            (if expired deadline0 now then ([], None, flush_batch batch0 st0) else (batch0, deadline0, st0))
      in case process_namespace_event cd span_of now ev (pm_buf st) of
           (None, buf) \<Rightarrow> coalesced_loop cd span_of window evs batch deadline (st\<lparr>pm_buf := buf\<rparr>)
         | (Some fr, buf) \<Rightarrow>
             (let st' = st\<lparr>pm_buf := buf\<rparr>;
                  deadline' = (if batch = [] then Some (now + window) else deadline);
                  batch' = batch @ [fr]
              in if COALESCE_MAX_BATCH \<le> length batch'
                 then coalesced_loop cd span_of window evs [] None (flush_batch batch' st')
                 else coalesced_loop cd span_of window evs batch' deadline' st'))"

definition pump_subscribe_namespace_events ::
  "codecs \<Rightarrow> span_extractor \<Rightarrow> nat \<Rightarrow> (instant \<times> dynamic_object watch_event) list \<Rightarrow> pump_state \<Rightarrow> pump_state" where
  "pump_subscribe_namespace_events cd span_of window evs st =
     (if window = 0 then pump_immediate cd span_of evs st
      else coalesced_loop cd span_of window evs [] None st)"


section \<open>Coalescing\<close>

lemma emit_frame_buf [simp]:
  "pm_buf (emit_frame fr st) = pm_buf st"
  "emit_frame fr (st\<lparr>pm_buf := b\<rparr>) = (emit_frame fr st)\<lparr>pm_buf := b\<rparr>"
  by (simp_all add: emit_frame_def split: prod.splits)

lemma flush_batch_buf [simp]:
  "pm_buf (flush_batch batch st) = pm_buf st"
  "flush_batch batch (st\<lparr>pm_buf := b\<rparr>) = (flush_batch batch st)\<lparr>pm_buf := b\<rparr>"
  by (induction batch arbitrary: st) (simp_all add: flush_batch_def)

lemma flush_batch_simps [simp]:
  "flush_batch [] st = st" "flush_batch [fr] st = emit_frame fr st"
  "flush_batch (batch @ [fr]) st = emit_frame fr (flush_batch batch st)"
  by (simp_all add: flush_batch_def)

lemma coalesced_loop_immediate:
  "coalesced_loop cd span_of window evs batch deadline st = pump_immediate cd span_of evs (flush_batch batch st)"
proof (induction evs arbitrary: batch deadline st)
  case (Cons e evs)
  obtain now ev where e: "e = (now, ev)" by (cases e)
  obtain o' b' where p: "process_namespace_event cd span_of now ev (pm_buf st) = (o', b')"
    by (cases "process_namespace_event cd span_of now ev (pm_buf st)")
  show ?case
    by (cases o') (simp_all add: e p Let_def Cons.IH)
qed simp

section \<open>Fan-out\<close>

definition frame_of ::
  "codecs \<Rightarrow> span_extractor \<Rightarrow> instant \<times> dynamic_object watch_event \<Rightarrow> broadcast_frame option" where
  "frame_of cd span_of e = fst (process_namespace_event cd span_of (fst e) (snd e) [])"

definition push_of :: "codecs \<Rightarrow> instant \<times> dynamic_object watch_event \<Rightarrow> (string \<times> config_event \<times> labels) option" where
  "push_of cd e = Option.bind (event_object (snd e)) (\<lambda>(ty, obj). map_option (\<lambda>snap.
     (cs_resource_version snap, \<lparr>ce_type = ty, ce_config = Some (snapshot_to_proto cd (fst e) snap)\<rparr>, cs_labels snap))
     (parse_config_object cd (fst e) obj))"

lemma process_namespace_event_split:
  "process_namespace_event cd span_of now ev buf =
     (frame_of cd span_of (now, ev),
      case push_of cd (now, ev) of None \<Rightarrow> buf | Some (rv, cev, ls) \<Rightarrow> push_replay rv cev ls buf)"
  by (simp add: process_namespace_event_def frame_of_def push_of_def Let_def split: option.splits prod.splits)

definition fan_out :: "broadcast_frame list \<Rightarrow> shard_set \<Rightarrow> shard_set" where
  "fan_out frs sh = sh\<lparr>sh_senders :=
     map (\<lambda>s. if sn_receivers s = 0 then s else s\<lparr>sn_sent := sn_sent s @ frs\<rparr>) (sh_senders sh)\<rparr>"

lemma send_to_all_fan_out: "send_to_all fr sh = (total_receiver_count sh \<noteq> 0, fan_out [fr] sh)"
  by (auto simp: send_to_all_def fan_out_def sender_send_def total_receiver_count_def list_ex_iff)

lemma fan_out_twice: "fan_out ys (fan_out xs sh) = fan_out (xs @ ys) sh"
  by (simp add: fan_out_def)

lemma fan_out_Nil: "fan_out [] sh = sh"
proof -
  have "(\<lambda>s :: sender. if sn_receivers s = 0 then s else s\<lparr>sn_sent := sn_sent s @ []\<rparr>) = id"
    by (rule ext) simp
  then show ?thesis by (simp only: fan_out_def list.map_id) simp
qed

lemma total_receiver_count_fan_out [simp]: "total_receiver_count (fan_out frs sh) = total_receiver_count sh"
  by (auto simp: fan_out_def total_receiver_count_def intro!: arg_cong [where f = sum_list])

lemma emit_frame_fan_out:
  "emit_frame fr st = st\<lparr>pm_shards := fan_out [fr] (pm_shards st),
     pm_events := pm_events st + (if total_receiver_count (pm_shards st) = 0 then 0 else 1)\<rparr>"
  by (simp add: emit_frame_def send_to_all_fan_out)

lemma pump_immediate_fan_out:
  "pump_immediate cd span_of evs st =
     \<lparr>pm_shards = fan_out (List.map_filter (frame_of cd span_of) evs) (pm_shards st),
      pm_buf = push_all (List.map_filter (push_of cd) evs) (pm_buf st),
      pm_events = pm_events st + (if total_receiver_count (pm_shards st) = 0 then 0
        else length (List.map_filter (frame_of cd span_of) evs))\<rparr>"
proof (induction evs arbitrary: st)
  case Nil
  then show ?case by (simp add: fan_out_Nil push_all_def)
next
  case (Cons e evs)
  obtain now ev where e: "e = (now, ev)" by (cases e)
  have "(frame_of cd span_of e = None) = (push_of cd e = None)"
    by (simp add: frame_of_def push_of_def process_namespace_event_def Let_def e split: option.splits prod.splits)
  then show ?case
    by (auto simp: e process_namespace_event_split Cons.IH emit_frame_fan_out fan_out_twice push_all_def
        split: option.splits)
qed

section \<open>Properties of the pump\<close>

text \<open>Property C24. One connection of a namespace watcher, with or without coalescing and whatever
  the window: every shard that has a receiver gets the frames of all parsable apply, relist and
  delete events, each once and in order; shards without receivers get nothing; the replay buffer
  receives each of these events exactly once, so that it is the window of the last thousand; and the
  counter counts the events that reached a subscriber.\<close>

theorem pump_fan_out_exact:
  "pump_subscribe_namespace_events cd span_of window evs st =
     \<lparr>pm_shards = fan_out (List.map_filter (frame_of cd span_of) evs) (pm_shards st),
      pm_buf = push_all (List.map_filter (push_of cd) evs) (pm_buf st),
      pm_events = pm_events st + (if total_receiver_count (pm_shards st) = 0 then 0
        else length (List.map_filter (frame_of cd span_of) evs))\<rparr>"
  by (simp add: pump_subscribe_namespace_events_def coalesced_loop_immediate pump_immediate_fan_out)


section \<open>Registry of namespace watchers\<close>

text \<open>
  Shard sets and replay buffers are shared by reference: they live in two arenas, and the maps hold
  their positions. The task of a watcher is named by the shard set it feeds; \<open>rg_tasks\<close> lists the
  tasks that run. A join handle may outlive its task.
\<close>

record registry =
  rg_sets :: "shard_set list"
  rg_bufs :: "replay_buffer list"
  rg_tasks :: "nat list"
  rg_broadcasts :: "(string, nat) hmap"
  rg_replay :: "(string, nat) hmap"
  rg_handles :: "(string, nat) hmap"
  rg_idle :: "(string, instant) hmap"

definition registry_new :: registry where
  "registry_new = \<lparr>rg_sets = [], rg_bufs = [], rg_tasks = [], rg_broadcasts = [], rg_replay = [],
     rg_handles = [], rg_idle = []\<rparr>"

text \<open>\<open>get\<close> or \<open>entry().or_insert_with()\<close> on the replay buffers.\<close>

definition buffer_for :: "string \<Rightarrow> registry \<Rightarrow> nat \<times> registry" where
  "buffer_for ns rg = (case hm_get (rg_replay rg) ns of
       Some b \<Rightarrow> (b, rg)
     | None \<Rightarrow> (length (rg_bufs rg),
         rg\<lparr>rg_bufs := rg_bufs rg @ [[]], rg_replay := hm_insert ns (length (rg_bufs rg)) (rg_replay rg)\<rparr>))"

definition attach :: "nat \<Rightarrow> registry \<Rightarrow> nat \<times> registry" where
  "attach sid rg = (case next_receiver (rg_sets rg ! sid) of (idx, sh) \<Rightarrow>
     (idx, rg\<lparr>rg_sets := (rg_sets rg)[sid := sh]\<rparr>))"

text \<open>The fast path clones the shard set out of the map and lets go of the map entry before it
  attaches, so the two halves are separate steps.\<close>

definition fast_lookup :: "string \<Rightarrow> registry \<Rightarrow> nat option" where
  "fast_lookup ns rg = hm_get (rg_broadcasts rg) ns"

definition fast_attach :: "string \<Rightarrow> nat \<Rightarrow> registry \<Rightarrow> (nat \<times> nat \<times> nat) \<times> registry" where
  "fast_attach ns sid rg =
     (let (b, rg1) = buffer_for ns rg; (idx, rg2) = attach sid rg1 in ((sid, idx, b), rg2))"

text \<open>The first receiver of a new set is kept, the others are dropped.\<close>

definition drop_spare_receivers :: "shard_set \<Rightarrow> shard_set" where
  "drop_spare_receivers sh = foldl (\<lambda>sh i. drop_receiver i sh) sh [1..<length (sh_senders sh)]"

definition create_broadcast :: "string \<Rightarrow> nat \<Rightarrow> registry \<Rightarrow> (nat \<times> nat \<times> nat) \<times> registry" where
  "create_broadcast ns shards rg =
     (let sid = length (rg_sets rg);
          rg1 = rg\<lparr>rg_sets := rg_sets rg @ [drop_spare_receivers (shard_set_new shards)],
                   rg_broadcasts := hm_insert ns sid (rg_broadcasts rg)\<rparr>;
          (b, rg2) = buffer_for ns rg1
      in ((sid, 0, b),
          rg2\<lparr>rg_tasks := sid # rg_tasks rg2, rg_handles := hm_insert ns sid (rg_handles rg2)\<rparr>))"

definition slow_path :: "string \<Rightarrow> nat \<Rightarrow> registry \<Rightarrow> (nat \<times> nat \<times> nat) \<times> registry" where
  "slow_path ns shards rg = (case hm_get (rg_broadcasts rg) ns of
       Some sid \<Rightarrow> fast_attach ns sid rg
     | None \<Rightarrow> create_broadcast ns shards rg)"

definition get_or_create_broadcast :: "string \<Rightarrow> nat \<Rightarrow> registry \<Rightarrow> (nat \<times> nat \<times> nat) \<times> registry" where
  "get_or_create_broadcast ns shards rg = (case fast_lookup ns rg of
       Some sid \<Rightarrow> fast_attach ns sid rg
     | None \<Rightarrow> slow_path ns shards rg)"

text \<open>The end of a watcher task removes the two map entries, not its handle; a subscriber that
  leaves drops its receiver.\<close>

definition watcher_ends :: "string \<Rightarrow> nat \<Rightarrow> registry \<Rightarrow> registry" where
  "watcher_ends ns sid rg =
     rg\<lparr>rg_broadcasts := hm_remove ns (rg_broadcasts rg), rg_replay := hm_remove ns (rg_replay rg),
        rg_tasks := removeAll sid (rg_tasks rg)\<rparr>"

definition detach :: "nat \<Rightarrow> nat \<Rightarrow> registry \<Rightarrow> registry" where
  "detach sid idx rg = rg\<lparr>rg_sets := (rg_sets rg)[sid := drop_receiver idx (rg_sets rg ! sid)]\<rparr>"

section \<open>Garbage collection\<close>

definition GC_GRACE :: nat where
  "GC_GRACE = 30 * 10 ^ 9"

definition receivers_of :: "registry \<Rightarrow> nat \<Rightarrow> nat" where
  "receivers_of rg sid = total_receiver_count (rg_sets rg ! sid)"

text \<open>The scan: \<open>clock\<close> is what \<open>Instant::now\<close> returns for a namespace first seen idle.\<close>

definition gc_visit :: "instant \<Rightarrow> instant \<Rightarrow> string \<Rightarrow> nat \<Rightarrow> string list \<times> registry \<Rightarrow> string list \<times> registry" where
  "gc_visit now clock ns sid r = (case r of (to_gc, rg) \<Rightarrow>
     if receivers_of rg sid = 0 then
       (let (since, idle) = (case hm_get (rg_idle rg) ns of
              Some t \<Rightarrow> (t, rg_idle rg) | None \<Rightarrow> (clock, hm_insert ns clock (rg_idle rg)))
        in (if GC_GRACE < now - since then to_gc @ [ns] else to_gc, rg\<lparr>rg_idle := idle\<rparr>))
     else (to_gc, rg\<lparr>rg_idle := hm_remove ns (rg_idle rg)\<rparr>))"

definition gc_scan :: "instant \<Rightarrow> instant \<Rightarrow> registry \<Rightarrow> string list \<times> registry" where
  "gc_scan now clock rg = foldl (\<lambda>r (ns, sid). gc_visit now clock ns sid r) ([], rg) (rg_broadcasts rg)"

definition gc_remove_one :: "string \<Rightarrow> registry \<Rightarrow> registry" where
  "gc_remove_one ns rg =
     (case hm_get (rg_broadcasts rg) ns of
        None \<Rightarrow> rg\<lparr>rg_idle := hm_remove ns (rg_idle rg)\<rparr>
      | Some sid \<Rightarrow>
          if receivers_of rg sid \<noteq> 0 then rg\<lparr>rg_idle := hm_remove ns (rg_idle rg)\<rparr>
          else rg\<lparr>rg_broadcasts := hm_remove ns (rg_broadcasts rg),
                  rg_tasks := (case hm_get (rg_handles rg) ns of
                     Some h \<Rightarrow> removeAll h (rg_tasks rg) | None \<Rightarrow> rg_tasks rg),
                  rg_handles := hm_remove ns (rg_handles rg),
                  rg_replay := hm_remove ns (rg_replay rg),
                  rg_idle := hm_remove ns (rg_idle rg)\<rparr>)"

definition gc_remove :: "string list \<Rightarrow> registry \<Rightarrow> registry" where
  "gc_remove to_gc rg = foldl (\<lambda>rg ns. gc_remove_one ns rg) rg to_gc"

definition gc_tick :: "instant \<Rightarrow> instant \<Rightarrow> registry \<Rightarrow> registry" where
  "gc_tick now clock rg = (case gc_scan now clock rg of (to_gc, rg') \<Rightarrow> gc_remove to_gc rg')"

section \<open>The Subscribe handler\<close>

record subscribe_request =
  sr_namespace :: string
  sr_names :: "string list"
  sr_label_selector :: string
  sr_resume_resource_version :: string

text \<open>The answer is the receiver and buffer the spawned \<open>resume_from_buffer\<close> works on, and its filter.\<close>

definition handle_subscribe ::
  "config_cache \<Rightarrow> nat \<Rightarrow> subscribe_request \<Rightarrow> registry \<Rightarrow>
   (subscribe_filter \<times> nat \<times> nat \<times> nat) rpc \<times> registry" where
  "handle_subscribe cache shards req rg =
     (if \<not> config_cache_is_populated cache then (Inl (Status Unavailable ''cache not yet populated''), rg)
      else case filter_new (sr_names req) (sr_label_selector req) of
          Inl e \<Rightarrow> (Inl e, rg)
        | Inr f \<Rightarrow> (case get_or_create_broadcast (sr_namespace req) shards rg of
              (place, rg') \<Rightarrow> (Inr (f, place), rg')))"


section \<open>What a sweep does\<close>

definition collectable :: "instant \<Rightarrow> registry \<Rightarrow> string \<Rightarrow> bool" where
  "collectable now rg ns \<longleftrightarrow> (case hm_get (rg_broadcasts rg) ns of None \<Rightarrow> False
     | Some sid \<Rightarrow> receivers_of rg sid = 0 \<and>
         (case hm_get (rg_idle rg) ns of None \<Rightarrow> False | Some t \<Rightarrow> GC_GRACE < now - t))"

definition idle_after_scan :: "instant \<Rightarrow> registry \<Rightarrow> (string, nat) hmap \<Rightarrow> string \<Rightarrow> instant option" where
  "idle_after_scan clock rg m ns = (case hm_get m ns of
       None \<Rightarrow> hm_get (rg_idle rg) ns
     | Some sid \<Rightarrow> if receivers_of rg sid \<noteq> 0 then None
         else Some (case hm_get (rg_idle rg) ns of Some t \<Rightarrow> t | None \<Rightarrow> clock))"

definition due :: "instant \<Rightarrow> instant \<Rightarrow> registry \<Rightarrow> string \<times> nat \<Rightarrow> bool" where
  "due now clock rg e \<longleftrightarrow> receivers_of rg (snd e) = 0 \<and>
     GC_GRACE < now - (case hm_get (rg_idle rg) (fst e) of Some t \<Rightarrow> t | None \<Rightarrow> clock)"

lemma receivers_of_idle [simp]: "receivers_of (rg\<lparr>rg_idle := i\<rparr>) sid = receivers_of rg sid"
  by (simp add: receivers_of_def)

lemma gc_visit_eq:
  "gc_visit now clock ns sid (acc, rg) =
     (acc @ (if due now clock rg (ns, sid) then [ns] else []),
      rg\<lparr>rg_idle := (if receivers_of rg sid \<noteq> 0 then hm_remove ns (rg_idle rg)
        else case hm_get (rg_idle rg) ns of Some t \<Rightarrow> rg_idle rg | None \<Rightarrow> hm_insert ns clock (rg_idle rg))\<rparr>)"
  by (simp add: gc_visit_def due_def Let_def split: option.splits)

lemma gc_scan_loop:
  assumes "distinct (map fst m)"
  shows "\<exists>i. foldl (\<lambda>r (ns, sid). gc_visit now clock ns sid r) (acc, rg) m =
      (acc @ map fst (filter (due now clock rg) m), rg\<lparr>rg_idle := i\<rparr>) \<and>
    (\<forall>ns. hm_get i ns = idle_after_scan clock rg m ns)"
  using assms
proof (induction m arbitrary: acc rg)
  case Nil
  then show ?case by (intro exI [of _ "rg_idle rg"]) (simp add: idle_after_scan_def)
next
  case (Cons e m)
  obtain ns sid where e: "e = (ns, sid)" by (cases e)
  define i0 where "i0 = (if receivers_of rg sid \<noteq> 0 then hm_remove ns (rg_idle rg)
        else case hm_get (rg_idle rg) ns of Some t \<Rightarrow> rg_idle rg | None \<Rightarrow> hm_insert ns clock (rg_idle rg))"
  define acc' where "acc' = acc @ (if due now clock rg (ns, sid) then [ns] else [])"
  have visit: "gc_visit now clock ns sid (acc, rg) = (acc', rg\<lparr>rg_idle := i0\<rparr>)"
    by (simp add: gc_visit_eq acc'_def i0_def)
  have fresh: "fst x \<noteq> ns" if "x \<in> set m" for x using that Cons.prems e by auto
  have others: "hm_get i0 j = hm_get (rg_idle rg) j" if "j \<noteq> ns" for j
    using that by (auto simp: i0_def split: option.splits)
  have due_eq: "filter (due now clock (rg\<lparr>rg_idle := i0\<rparr>)) m = filter (due now clock rg) m"
    using fresh others by (intro filter_cong) (auto simp: due_def)
  obtain i where i: "foldl (\<lambda>r (ns, sid). gc_visit now clock ns sid r) (acc', rg\<lparr>rg_idle := i0\<rparr>) m =
      (acc' @ map fst (filter (due now clock rg) m), rg\<lparr>rg_idle := i\<rparr>)"
    "\<forall>j. hm_get i j = idle_after_scan clock (rg\<lparr>rg_idle := i0\<rparr>) m j"
    using Cons.IH [of acc' "rg\<lparr>rg_idle := i0\<rparr>"] Cons.prems by (auto simp: due_eq)
  have "hm_get i j = idle_after_scan clock rg (e # m) j" for j
  proof (cases "j = ns")
    case True
    have "hm_get m ns = None" using fresh by (auto simp: hm_get_None_iff)
    with True i(2) show ?thesis
      by (auto simp: idle_after_scan_def e hm_get_Cons i0_def split: option.splits)
  next
    case False
    with i(2) others [OF False] show ?thesis
      by (simp add: idle_after_scan_def e hm_get_Cons split: option.splits)
  qed
  with i(1) show ?case
    by (intro exI [of _ i]) (simp add: e visit acc'_def)
qed

lemma gc_remove_one_frame:
  "rg_sets (gc_remove_one ns rg) = rg_sets rg"
  "j \<noteq> ns \<Longrightarrow> hm_get (rg_broadcasts (gc_remove_one ns rg)) j = hm_get (rg_broadcasts rg) j"
  "j \<noteq> ns \<Longrightarrow> hm_get (rg_replay (gc_remove_one ns rg)) j = hm_get (rg_replay rg) j"
  "j \<noteq> ns \<Longrightarrow> hm_get (rg_handles (gc_remove_one ns rg)) j = hm_get (rg_handles rg) j"
  "hm_get (rg_idle (gc_remove_one ns rg)) j = (if j = ns then None else hm_get (rg_idle rg) j)"
  by (auto simp: gc_remove_one_def split: option.splits)

lemma gc_remove_frame:
  "rg_sets (gc_remove nss rg) = rg_sets rg"
  "j \<notin> set nss \<Longrightarrow> hm_get (rg_broadcasts (gc_remove nss rg)) j = hm_get (rg_broadcasts rg) j"
  "j \<notin> set nss \<Longrightarrow> hm_get (rg_replay (gc_remove nss rg)) j = hm_get (rg_replay rg) j"
  "j \<notin> set nss \<Longrightarrow> hm_get (rg_handles (gc_remove nss rg)) j = hm_get (rg_handles rg) j"
  "hm_get (rg_idle (gc_remove nss rg)) j = (if j \<in> set nss then None else hm_get (rg_idle rg) j)"
  by (induction nss arbitrary: rg) (auto simp: gc_remove_def gc_remove_one_frame)

lemma gc_remove_Cons: "gc_remove (ns # nss) rg = gc_remove nss (gc_remove_one ns rg)"
  by (simp add: gc_remove_def)

lemma gc_remove_idle:
  assumes "distinct nss" "\<forall>ns \<in> set nss. \<exists>sid. hm_get (rg_broadcasts rg) ns = Some sid \<and> receivers_of rg sid = 0"
  shows "(\<forall>ns \<in> set nss. hm_get (rg_broadcasts (gc_remove nss rg)) ns = None \<and>
      hm_get (rg_replay (gc_remove nss rg)) ns = None \<and> hm_get (rg_handles (gc_remove nss rg)) ns = None) \<and>
    rg_tasks (gc_remove nss rg) = filter (\<lambda>h. \<forall>ns \<in> set nss. hm_get (rg_handles rg) ns \<noteq> Some h) (rg_tasks rg)"
  using assms
proof (induction nss arbitrary: rg)
  case Nil
  then show ?case by (simp add: gc_remove_def)
next
  case (Cons ns nss)
  let ?rg = "gc_remove_one ns rg"
  obtain sid where sid: "hm_get (rg_broadcasts rg) ns = Some sid" "receivers_of rg sid = 0"
    using Cons.prems by auto
  have others: "\<exists>sid. hm_get (rg_broadcasts ?rg) j = Some sid \<and> receivers_of ?rg sid = 0" if "j \<in> set nss" for j
  proof -
    have "j \<noteq> ns" using that Cons.prems by auto
    with that Cons.prems show ?thesis by (simp add: gc_remove_one_frame receivers_of_def)
  qed
  have gone: "hm_get (rg_broadcasts ?rg) ns = None" "hm_get (rg_replay ?rg) ns = None" "hm_get (rg_handles ?rg) ns = None"
    using sid by (simp_all add: gc_remove_one_def)
  have tasks: "rg_tasks ?rg = filter (\<lambda>h. hm_get (rg_handles rg) ns \<noteq> Some h) (rg_tasks rg)"
    using sid by (auto simp: gc_remove_one_def removeAll_filter_not_eq split: option.splits intro!: filter_cong)
  have ns: "ns \<notin> set nss" using Cons.prems by simp
  have handles: "hm_get (rg_handles ?rg) j = hm_get (rg_handles rg) j" if "j \<in> set nss" for j
    using that ns by (intro gc_remove_one_frame) auto
  have "rg_tasks (gc_remove nss ?rg) = filter (\<lambda>h. \<forall>j \<in> set nss. hm_get (rg_handles ?rg) j \<noteq> Some h) (rg_tasks ?rg)"
    and "\<forall>j \<in> set nss. hm_get (rg_broadcasts (gc_remove nss ?rg)) j = None \<and>
      hm_get (rg_replay (gc_remove nss ?rg)) j = None \<and> hm_get (rg_handles (gc_remove nss ?rg)) j = None"
    using Cons.IH [of ?rg] Cons.prems others by auto
  then show ?case
    using ns gone by (auto simp: gc_remove_Cons gc_remove_frame tasks handles intro!: filter_cong)
qed


lemma collectable_due:
  assumes "hm_wf (rg_broadcasts rg)" "now \<le> clock"
  shows "set (map fst (filter (due now clock rg) (rg_broadcasts rg))) = {ns. collectable now rg ns}"
proof -
  have "collectable now rg ns \<longleftrightarrow> (\<exists>sid. (ns, sid) \<in> set (rg_broadcasts rg) \<and> due now clock rg (ns, sid))" for ns
    unfolding hm_get_eq_Some_iff [OF assms(1), symmetric] using assms(2)
    by (auto simp: collectable_def due_def split: option.splits)
  then show ?thesis by force
qed

lemma gc_scan_eq:
  assumes "hm_wf (rg_broadcasts rg)" "now \<le> clock"
  obtains nss i where "gc_scan now clock rg = (nss, rg\<lparr>rg_idle := i\<rparr>)" "distinct nss"
    "set nss = {ns. collectable now rg ns}" "\<And>ns. hm_get i ns = idle_after_scan clock rg (rg_broadcasts rg) ns"
proof -
  have d: "distinct (map fst (rg_broadcasts rg))" using assms(1) by (simp add: hm_wf_def)
  from gc_scan_loop [OF this, of now clock "[]" rg] obtain i where
    "gc_scan now clock rg = (map fst (filter (due now clock rg) (rg_broadcasts rg)), rg\<lparr>rg_idle := i\<rparr>)"
    "\<forall>ns. hm_get i ns = idle_after_scan clock rg (rg_broadcasts rg) ns"
    by (auto simp: gc_scan_def)
  moreover have "distinct (map fst (filter (due now clock rg) (rg_broadcasts rg)))"
    using d by (rule distinct_map_filter)
  ultimately show ?thesis
    using that collectable_due [OF assms] by auto
qed

lemma gc_tick_eq:
  assumes "hm_wf (rg_broadcasts rg)" "now \<le> clock"
  shows "hm_get (rg_broadcasts (gc_tick now clock rg)) ns =
      (if collectable now rg ns then None else hm_get (rg_broadcasts rg) ns)"
    and "hm_get (rg_replay (gc_tick now clock rg)) ns = (if collectable now rg ns then None else hm_get (rg_replay rg) ns)"
    and "hm_get (rg_handles (gc_tick now clock rg)) ns = (if collectable now rg ns then None else hm_get (rg_handles rg) ns)"
    and "hm_get (rg_idle (gc_tick now clock rg)) ns =
      (if collectable now rg ns then None else idle_after_scan clock rg (rg_broadcasts rg) ns)"
    and "rg_sets (gc_tick now clock rg) = rg_sets rg"
    and "rg_tasks (gc_tick now clock rg) =
      filter (\<lambda>h. \<nexists>n. collectable now rg n \<and> hm_get (rg_handles rg) n = Some h) (rg_tasks rg)"
proof -
  obtain nss i where scan: "gc_scan now clock rg = (nss, rg\<lparr>rg_idle := i\<rparr>)" "distinct nss"
    "set nss = {ns. collectable now rg ns}" "\<And>ns. hm_get i ns = idle_after_scan clock rg (rg_broadcasts rg) ns"
    using gc_scan_eq [OF assms] by blast
  let ?rg = "rg\<lparr>rg_idle := i\<rparr>"
  have tick: "gc_tick now clock rg = gc_remove nss ?rg" by (simp add: gc_tick_def scan(1))
  have "\<forall>n \<in> set nss. \<exists>sid. hm_get (rg_broadcasts ?rg) n = Some sid \<and> receivers_of ?rg sid = 0"
    using scan(3) by (auto simp: collectable_def split: option.splits)
  note eff = gc_remove_idle [OF scan(2) this]
  have mem: "ns \<in> set nss \<longleftrightarrow> collectable now rg ns" by (simp add: scan(3))
  show "hm_get (rg_broadcasts (gc_tick now clock rg)) ns =
      (if collectable now rg ns then None else hm_get (rg_broadcasts rg) ns)"
    using eff mem gc_remove_frame(2) [of ns nss ?rg] by (simp add: tick)
  show "hm_get (rg_replay (gc_tick now clock rg)) ns = (if collectable now rg ns then None else hm_get (rg_replay rg) ns)"
    using eff mem gc_remove_frame(3) [of ns nss ?rg] by (simp add: tick)
  show "hm_get (rg_handles (gc_tick now clock rg)) ns = (if collectable now rg ns then None else hm_get (rg_handles rg) ns)"
    using eff mem gc_remove_frame(4) [of ns nss ?rg] by (simp add: tick)
  show "hm_get (rg_idle (gc_tick now clock rg)) ns =
      (if collectable now rg ns then None else idle_after_scan clock rg (rg_broadcasts rg) ns)"
    by (simp add: tick gc_remove_frame(5) mem scan(4))
  show "rg_sets (gc_tick now clock rg) = rg_sets rg"
    by (simp add: tick gc_remove_frame(1))
  show "rg_tasks (gc_tick now clock rg) =
      filter (\<lambda>h. \<nexists>n. collectable now rg n \<and> hm_get (rg_handles rg) n = Some h) (rg_tasks rg)"
    using conjunct2 [OF eff] by (simp add: tick scan(3))
qed

section \<open>Properties of the registry\<close>

text \<open>Property C25. A sweep collects a namespace exactly when none of its shards has a receiver and it
  has been recorded as idle for more than 30 s: then its broadcast entry, replay buffer, handle and
  idle record are gone and its watcher task is aborted. Every other namespace keeps its entry, its
  buffer, its handle and its task; its idle record is cleared if it has a receiver, kept if it was
  already idle, and started otherwise.\<close>

theorem gc_tick_exact:
  assumes "hm_wf (rg_broadcasts rg)" "now \<le> clock"
  shows "hm_get (rg_broadcasts (gc_tick now clock rg)) ns =
      (if collectable now rg ns then None else hm_get (rg_broadcasts rg) ns) \<and>
    hm_get (rg_replay (gc_tick now clock rg)) ns = (if collectable now rg ns then None else hm_get (rg_replay rg) ns) \<and>
    hm_get (rg_handles (gc_tick now clock rg)) ns = (if collectable now rg ns then None else hm_get (rg_handles rg) ns) \<and>
    hm_get (rg_idle (gc_tick now clock rg)) ns =
      (if collectable now rg ns then None else idle_after_scan clock rg (rg_broadcasts rg) ns) \<and>
    rg_sets (gc_tick now clock rg) = rg_sets rg \<and>
    rg_tasks (gc_tick now clock rg) =
      filter (\<lambda>h. \<nexists>n. collectable now rg n \<and> hm_get (rg_handles rg) n = Some h) (rg_tasks rg)"
  by (intro conjI gc_tick_eq [OF assms])

text \<open>The fast path of a subscription can lose the race with a sweep, although the removal
  re-checks the receivers: a subscriber that has looked its namespace up, and attaches after the
  sweep, holds a receiver of a shard set that no watcher feeds and that the registry no longer
  knows, and it leaves a fresh, unfed replay buffer behind.\<close>

lemma attach_after_sweep_orphans:
  assumes "hm_wf (rg_broadcasts rg)" "now \<le> clock"
    and "fast_lookup ns rg = Some sid" "hm_get (rg_handles rg) ns = Some sid"
    and "collectable now rg ns"
    and "fast_attach ns sid (gc_tick now clock rg) = ((sid', idx, b), rg')"
  shows "sid' = sid \<and> sid \<notin> set (rg_tasks rg') \<and> hm_get (rg_broadcasts rg') ns = None \<and>
    hm_get (rg_replay rg') ns = Some b \<and> rg_bufs rg' ! b = []"
proof -
  note tick = gc_tick_eq [OF assms(1,2)]
  have "hm_get (rg_broadcasts (gc_tick now clock rg)) ns = None" "hm_get (rg_replay (gc_tick now clock rg)) ns = None"
    "sid \<notin> set (rg_tasks (gc_tick now clock rg))"
    using assms(4,5) by (auto simp: tick)
  then show ?thesis
    using assms(6) by (auto simp: fast_attach_def buffer_for_def attach_def split: prod.splits)
qed


section \<open>An example\<close>

text \<open>One subscriber came and went; the first sweep has recorded the namespace as idle.\<close>

definition demo_registry :: registry where
  "demo_registry = gc_tick 0 0 (detach 0 0 (snd (get_or_create_broadcast ''ns'' 1 registry_new)))"

lemma demo_registry_eq:
  "demo_registry = \<lparr>rg_sets = [\<lparr>sh_senders = [\<lparr>sn_receivers = 0, sn_sent = []\<rparr>], sh_next = 0\<rparr>],
     rg_bufs = [[]], rg_tasks = [0], rg_broadcasts = [(''ns'', 0)], rg_replay = [(''ns'', 0)],
     rg_handles = [(''ns'', 0)], rg_idle = [(''ns'', 0)]\<rparr>"
  by (simp add: demo_registry_def get_or_create_broadcast_def fast_lookup_def slow_path_def
      create_broadcast_def registry_new_def shard_set_new_def MIN_BROADCAST_SHARDS_def
      drop_spare_receivers_def buffer_for_def hm_insert_def detach_def drop_receiver_def gc_tick_def
      gc_scan_def gc_visit_def receivers_of_def total_receiver_count_def gc_remove_def GC_GRACE_def Let_def)

lemma demo_collectable: "collectable 40000000000 demo_registry ''ns''"
  by (simp add: collectable_def demo_registry_eq receivers_of_def total_receiver_count_def GC_GRACE_def hm_get_Cons)

theorem gc_tick_exact_witness:
  "hm_get (rg_broadcasts (gc_tick 40000000000 40000000000 demo_registry)) ''ns'' = None \<and>
   rg_tasks (gc_tick 40000000000 40000000000 demo_registry) = [] \<and>
   hm_get (rg_broadcasts (gc_tick 20000000000 20000000000 demo_registry)) ''ns'' = Some 0"
proof -
  have wf: "hm_wf (rg_broadcasts demo_registry)"
    by (simp add: demo_registry_eq hm_wf_def)
  have early: "\<not> collectable 20000000000 demo_registry ''ns''"
    by (simp add: collectable_def demo_registry_eq GC_GRACE_def hm_get_Cons)
  have "rg_tasks demo_registry = [0]" "hm_get (rg_handles demo_registry) ''ns'' = Some 0"
    "hm_get (rg_broadcasts demo_registry) ''ns'' = Some 0"
    by (simp_all add: demo_registry_eq hm_get_Cons)
  then show ?thesis
    using gc_tick_exact [OF wf order_refl, of 40000000000 "''ns''"] demo_collectable
      gc_tick_exact [OF wf order_refl, of 20000000000 "''ns''"] early
    by auto
qed

end
