(* ===== verification/Secret_Subscribe.thy ===== *)
theory Secret_Subscribe
  imports Apply_Path Bounded_Channel
begin

text \<open>
  Subscriptions to secrets (\<open>grpc/subscribe_secrets.rs\<close>): the snapshot phase, the bridge from the
  broadcast of the secret watcher, and the raw watch of a resuming subscriber. What the tasks
  receive from the broadcast and from the API server is an input.
\<close>

section \<open>Snapshots\<close>

fun emit_snapshot_events ::
  "codecs \<Rightarrow> instant \<Rightarrow> secret_snapshot list \<Rightarrow> secret_event channel \<Rightarrow> bool \<times> secret_event channel" where
  "emit_snapshot_events cd now [] ch = (True, ch)"
| "emit_snapshot_events cd now (snap # snaps) ch =
     (case try_send (Inr \<lparr>se_type = Snapshot, se_secret = Some (secret_snapshot_to_proto cd now snap)\<rparr>) ch of
        (Sent, ch') \<Rightarrow> emit_snapshot_events cd now snaps ch'
      | (Full, ch') \<Rightarrow> (False, snd (try_send (Inl too_slow) ch'))
      | (Closed, ch') \<Rightarrow> (False, ch'))"

section \<open>The bridge from the broadcast\<close>

datatype secret_recv = S_drain | S_event secret_event | S_lagged u64 | S_closed

fun secret_bridge_broadcast ::
  "secret_recv list \<Rightarrow> secret_event channel \<Rightarrow> control_flow \<times> secret_event channel" where
  "secret_bridge_broadcast [] ch = (Continue, ch)"
| "secret_bridge_broadcast (S_drain # rs) ch = (Break, ch)"
| "secret_bridge_broadcast (S_event ev # rs) ch = (case try_send (Inr ev) ch of
       (Sent, ch') \<Rightarrow> secret_bridge_broadcast rs ch'
     | (Full, ch') \<Rightarrow> (Break, snd (try_send (Inl too_slow) ch'))
     | (Closed, ch') \<Rightarrow> (Break, ch'))"
| "secret_bridge_broadcast (S_lagged n # rs) ch = (Break, snd (try_send (Inl lagged) ch))"
| "secret_bridge_broadcast (S_closed # rs) ch = (Break, ch)"

section \<open>The raw watch\<close>

definition managed :: "kube_secret \<Rightarrow> bool" where
  "managed sec = (case Option.bind (meta_labels (secret_metadata sec)) (\<lambda>l. bt_get l MANAGED_LABEL) of
       Some v \<Rightarrow> v = ''true'' | None \<Rightarrow> False)"

definition parse_secret_object ::
  "codecs \<Rightarrow> instant \<Rightarrow> kube_secret \<Rightarrow> string \<Rightarrow> secret_snapshot option" where
  "parse_secret_object cd now sec ns =
     (if \<not> managed sec then None
      else let md = secret_metadata sec;
               sv = (case Option.bind (meta_annotations md) (\<lambda>a. bt_get a SCHEMA_VERSION_ANNOTATION) of
                       None \<Rightarrow> 0 | Some v \<Rightarrow> (case parse_u32 v of None \<Rightarrow> 0 | Some n \<Rightarrow> n));
               d = (case secret_data sec of None \<Rightarrow> [] | Some d \<Rightarrow> hm_map_values (base64_encode cd) d)
           in Some ((secret_snapshot_default now)
                \<lparr>ss_name := unwrap_or_default (meta_name md), ss_namespace := ns, ss_schema_version := sv,
                 ss_data := d, ss_resource_version := unwrap_or_default (meta_resource_version md),
                 ss_loaded_at := now\<rparr>))"

definition emit_to_mpsc ::
  "codecs \<Rightarrow> instant \<Rightarrow> event_type \<Rightarrow> kube_secret \<Rightarrow> string \<Rightarrow> secret_event channel \<Rightarrow>
   bool \<times> secret_event channel" where
  "emit_to_mpsc cd now ty sec ns ch = (case parse_secret_object cd now sec ns of
       None \<Rightarrow> (True, ch)
     | Some snap \<Rightarrow>
         (case try_send (Inr \<lparr>se_type = ty, se_secret = Some (secret_snapshot_to_proto cd now snap)\<rparr>) ch of
            (Sent, ch') \<Rightarrow> (True, ch')
          | (Full, ch') \<Rightarrow> (False, snd (try_send (Inl too_slow) ch'))
          | (Closed, ch') \<Rightarrow> (False, ch')))"

text \<open>What a turn of the loop sees: the drain signal, the end of the watch, an item of it.\<close>

datatype raw_recv =
    R_drain | R_end | R_added instant kube_secret | R_modified instant kube_secret
  | R_deleted instant kube_secret | R_bookmark | R_error_event string | R_stream_error string

definition secret_ns :: "string \<Rightarrow> kube_secret \<Rightarrow> string" where
  "secret_ns ns sec = (case meta_namespace (secret_metadata sec) of Some n \<Rightarrow> n | None \<Rightarrow> ns)"

fun raw_watch_loop ::
  "codecs \<Rightarrow> string \<Rightarrow> raw_recv list \<Rightarrow> secret_event channel \<Rightarrow> control_flow \<times> secret_event channel" where
  "raw_watch_loop cd ns [] ch = (Continue, ch)"
| "raw_watch_loop cd ns (R_drain # rs) ch = (Break, ch)"
| "raw_watch_loop cd ns (R_end # rs) ch = (Break, ch)"
| "raw_watch_loop cd ns (R_added now sec # rs) ch =
     (case emit_to_mpsc cd now Modified sec (secret_ns ns sec) ch of
        (True, ch') \<Rightarrow> raw_watch_loop cd ns rs ch' | (False, ch') \<Rightarrow> (Break, ch'))"
| "raw_watch_loop cd ns (R_modified now sec # rs) ch =
     (case emit_to_mpsc cd now Modified sec (secret_ns ns sec) ch of
        (True, ch') \<Rightarrow> raw_watch_loop cd ns rs ch' | (False, ch') \<Rightarrow> (Break, ch'))"
| "raw_watch_loop cd ns (R_deleted now sec # rs) ch =
     (case emit_to_mpsc cd now Deleted sec (secret_ns ns sec) ch of
        (True, ch') \<Rightarrow> raw_watch_loop cd ns rs ch' | (False, ch') \<Rightarrow> (Break, ch'))"
| "raw_watch_loop cd ns (R_bookmark # rs) ch = raw_watch_loop cd ns rs ch"
| "raw_watch_loop cd ns (R_error_event e # rs) ch =
     (Break, snd (try_send (Inl (Status Internal (''watch error: '' @ e))) ch))"
| "raw_watch_loop cd ns (R_stream_error e # rs) ch = (Break, ch)"

text \<open>\<open>started\<close> is the outcome of opening the watch at the resume version.\<close>

definition run_raw_watch ::
  "codecs \<Rightarrow> string \<Rightarrow> string + raw_recv list \<Rightarrow> secret_event channel \<Rightarrow> control_flow \<times> secret_event channel" where
  "run_raw_watch cd ns started ch = (case started of
       Inl e \<Rightarrow> (Break, snd (try_send (Inl (Status Unavailable (''watch error: '' @ e))) ch))
     | Inr rs \<Rightarrow> raw_watch_loop cd ns rs ch)"

section \<open>The handler\<close>

record subscribe_secrets_request =
  ssr_namespace :: string
  ssr_names :: "string list"
  ssr_resume_resource_version :: string

text \<open>The broadcast senders of the secret watchers, by namespace, with their receiver counts.\<close>

type_synonym secret_broadcasts = "(string, nat) hmap"

definition get_broadcast_rx :: "string \<Rightarrow> secret_broadcasts \<Rightarrow> bool \<times> secret_broadcasts" where
  "get_broadcast_rx ns bs = (case hm_get bs ns of
       Some n \<Rightarrow> (True, hm_insert ns (n + 1) bs) | None \<Rightarrow> (False, bs))"

text \<open>What the handler leaves running: nothing, a raw watch, or a bridge.\<close>

datatype secret_task = T_done | T_raw_watch string | T_bridge

definition handle_subscribe_secrets ::
  "codecs \<Rightarrow> instant \<Rightarrow> secret_cache \<Rightarrow> subscribe_secrets_request \<Rightarrow> nat option list \<Rightarrow> secret_broadcasts \<Rightarrow>
   (secret_task \<times> secret_event channel) rpc \<times> secret_broadcasts" where
  "handle_subscribe_secrets cd now cache req reader bs =
     (let ns = ssr_namespace req;
          (ok, ch) = emit_snapshot_events cd now (secret_cache_all_in_namespace cache ns) (channel_new reader)
      in if \<not> ok then (Inr (T_done, ch), bs)
         else if ssr_resume_resource_version req \<noteq> [] then
           (Inr (T_raw_watch (ssr_resume_resource_version req), ch), bs)
         else (case get_broadcast_rx ns bs of
             (False, bs') \<Rightarrow> (Inl (Status Unavailable (''no secret watcher running for namespace '' @ ns)), bs')
           | (True, bs') \<Rightarrow> (Inr (T_bridge, ch), bs')))"

text \<open>The spawned task, on what it will receive from the broadcast or from its own watch.\<close>

definition secret_task_run ::
  "codecs \<Rightarrow> string \<Rightarrow> secret_recv list \<Rightarrow> string + raw_recv list \<Rightarrow> secret_task \<times> secret_event channel \<Rightarrow>
   control_flow \<times> secret_event channel" where
  "secret_task_run cd ns rs started t = (case t of
       (T_done, ch) \<Rightarrow> (Break, ch)
     | (T_raw_watch rv, ch) \<Rightarrow> run_raw_watch cd ns started ch
     | (T_bridge, ch) \<Rightarrow> secret_bridge_broadcast rs ch)"


section \<open>What a subscriber is owed\<close>

definition snapshot_event :: "codecs \<Rightarrow> instant \<Rightarrow> secret_snapshot \<Rightarrow> secret_event" where
  "snapshot_event cd now snap = \<lparr>se_type = Snapshot, se_secret = Some (secret_snapshot_to_proto cd now snap)\<rparr>"

fun live_secrets :: "secret_recv list \<Rightarrow> secret_event list" where
  "live_secrets (S_event ev # rs) = ev # live_secrets rs"
| "live_secrets _ = []"

definition raw_event ::
  "codecs \<Rightarrow> instant \<Rightarrow> event_type \<Rightarrow> string \<Rightarrow> kube_secret \<Rightarrow> secret_event list" where
  "raw_event cd now ty ns sec =
     (if managed sec then map (secret_event_of cd now ty) (case parse_secret cd now (secret_ns ns sec) sec of
        None \<Rightarrow> [] | Some snap \<Rightarrow> [snap]) else [])"

fun raw_secrets :: "codecs \<Rightarrow> string \<Rightarrow> raw_recv list \<Rightarrow> secret_event list" where
  "raw_secrets cd ns (R_added now sec # rs) = raw_event cd now Modified ns sec @ raw_secrets cd ns rs"
| "raw_secrets cd ns (R_modified now sec # rs) = raw_event cd now Modified ns sec @ raw_secrets cd ns rs"
| "raw_secrets cd ns (R_deleted now sec # rs) = raw_event cd now Deleted ns sec @ raw_secrets cd ns rs"
| "raw_secrets cd ns (R_bookmark # rs) = raw_secrets cd ns rs"
| "raw_secrets cd ns _ = []"

definition owed_after_snapshot ::
  "codecs \<Rightarrow> string \<Rightarrow> secret_recv list \<Rightarrow> string + raw_recv list \<Rightarrow> secret_task \<Rightarrow> secret_event list" where
  "owed_after_snapshot cd ns rs started t = (case t of
       T_done \<Rightarrow> []
     | T_raw_watch rv \<Rightarrow> (case started of Inl e \<Rightarrow> [] | Inr items \<Rightarrow> raw_secrets cd ns items)
     | T_bridge \<Rightarrow> live_secrets rs)"

text \<open>The raw watch parses a managed secret exactly as the secret watcher does.\<close>

lemma parse_secret_object_eq:
  "parse_secret_object cd now sec ns = (if managed sec then parse_secret cd now ns sec else None)"
  by (simp add: parse_secret_object_def parse_secret_def Let_def)

definition as_flow :: "bool \<times> 'ev channel \<Rightarrow> control_flow \<times> 'ev channel" where
  "as_flow r = (if fst r then Continue else Break, snd r)"

lemma as_flow_simps [simp]: "as_flow (True, ch) = (Continue, ch)" "as_flow (False, ch) = (Break, ch)"
  by (simp_all add: as_flow_def)

lemma emit_to_mpsc_delivers:
  "delivers (raw_event cd now ty ns sec) ch (as_flow (emit_to_mpsc cd now ty sec (secret_ns ns sec) ch))"
proof (cases "parse_secret_object cd now sec (secret_ns ns sec)")
  case None
  then show ?thesis
    by (auto simp: emit_to_mpsc_def raw_event_def parse_secret_object_eq delivers_Nil split: if_splits)
next
  case (Some snap)
  then have "raw_event cd now ty ns sec = [secret_event_of cd now ty snap]"
    by (auto simp: raw_event_def parse_secret_object_eq split: if_splits)
  moreover have "as_flow (emit_to_mpsc cd now ty sec (secret_ns ns sec) ch) =
      try_send_or_disconnect (secret_event_of cd now ty snap) ch"
    using Some by (simp add: emit_to_mpsc_def try_send_or_disconnect_def secret_event_of_def
        split: prod.splits send_result.splits)
  ultimately show ?thesis by (simp add: try_send_or_disconnect_delivers)
qed

interpretation secret_snapshot_sender: stream_sender try_send_or_disconnect "\<lambda>ev :: secret_event. [ev]"
  by unfold_locales (rule try_send_or_disconnect_delivers)

lemma emit_snapshot_events_delivers:
  "delivers (map (snapshot_event cd now) snaps) ch (as_flow (emit_snapshot_events cd now snaps ch))"
proof -
  have "as_flow (emit_snapshot_events cd now snaps ch) =
      send_each try_send_or_disconnect (map (snapshot_event cd now) snaps) ch"
    by (induction snaps arbitrary: ch)
      (simp_all add: and_then_def try_send_or_disconnect_def snapshot_event_def
        split: prod.splits send_result.splits)
  then show ?thesis
    using secret_snapshot_sender.send_each_delivers [of "map (snapshot_event cd now) snaps" ch]
    by (simp add: comp_def concat_map_singleton)
qed

lemma secret_bridge_delivers: "delivers (live_secrets rs) ch (secret_bridge_broadcast rs ch)"
proof (induction rs arbitrary: ch)
  case (Cons r rs)
  show ?case
  proof (cases r)
    case (S_event ev)
    have "secret_bridge_broadcast (r # rs) ch = and_then (try_send_or_disconnect ev ch) (secret_bridge_broadcast rs)"
      by (simp add: S_event and_then_def try_send_or_disconnect_def split: prod.splits send_result.splits)
    with delivers_and_then [OF try_send_or_disconnect_delivers Cons.IH, of ev ch] show ?thesis
      by (simp add: S_event)
  next
    case (S_lagged n)
    then show ?thesis by (simp add: delivers_refusal)
  qed (simp_all add: delivers_Nil)
qed (simp add: delivers_Nil)

lemma raw_watch_delivers: "delivers (raw_secrets cd ns rs) ch (raw_watch_loop cd ns rs ch)"
proof (induction rs arbitrary: ch)
  case (Cons r rs)
  have emit: "(case emit_to_mpsc cd now ty sec (secret_ns ns sec) ch of
        (True, ch') \<Rightarrow> raw_watch_loop cd ns rs ch' | (False, ch') \<Rightarrow> (Break, ch')) =
      and_then (as_flow (emit_to_mpsc cd now ty sec (secret_ns ns sec) ch)) (raw_watch_loop cd ns rs)"
    for now ty sec
    by (simp add: and_then_def split: prod.splits bool.splits)
  note step = delivers_and_then [OF emit_to_mpsc_delivers Cons.IH]
  show ?case
  proof (cases r)
    case (R_error_event e)
    then show ?thesis by (simp add: delivers_refusal)
  qed (simp_all add: emit step delivers_Nil Cons.IH)
qed (simp add: delivers_Nil)

lemma secret_task_run_delivers:
  "delivers (owed_after_snapshot cd ns rs started t) ch (secret_task_run cd ns rs started (t, ch))"
  by (cases t; cases started)
    (auto simp: secret_task_run_def owed_after_snapshot_def run_raw_watch_def delivers_Nil raw_watch_delivers
      secret_bridge_delivers delivers_refusal)


definition watch_secrets ::
  "codecs \<Rightarrow> string \<Rightarrow> (instant \<times> kube_secret watch_event) list \<Rightarrow> secret_sink \<Rightarrow> secret_sink" where
  "watch_secrets cd ns evs st = foldl (\<lambda>st (t, ev). handle_secret_event cd t ns ev st) st evs"

lemma live_secrets_all: "live_secrets (map S_event evs) = evs"
  by (induction evs) simp_all

lemma handle_subscribe_secrets_delivers:
  assumes "handle_subscribe_secrets cd now cache req reader bs = (Inr (t, ch), bs')"
  shows "\<exists>r. delivers (map (snapshot_event cd now) (secret_cache_all_in_namespace cache (ssr_namespace req)))
      (channel_new reader) (r, ch) \<and> (t \<noteq> T_done \<longrightarrow> r = Continue)"
proof -
  let ?snaps = "secret_cache_all_in_namespace cache (ssr_namespace req)"
  obtain ok ch0 where e: "emit_snapshot_events cd now ?snaps (channel_new reader) = (ok, ch0)"
    by (cases "emit_snapshot_events cd now ?snaps (channel_new reader)")
  have "ch0 = ch" "ok \<or> t = T_done"
    using assms e by (auto simp: handle_subscribe_secrets_def Let_def split: if_splits prod.splits bool.splits)
  with emit_snapshot_events_delivers [of cd now ?snaps "channel_new reader"] show ?thesis
    by (cases ok) (auto simp: e)
qed

lemma payloads_channel_new [simp]: "payloads (channel_new reader) = []" "backlog (channel_new reader) = 0"
  by (simp_all add: payloads_def backlog_def channel_new_def)

section \<open>Properties\<close>


text \<open>The snapshot is taken before the subscriber attaches to the broadcast, so an
  update the watcher handles in between is lost to it: its stream carries the secrets of the cache
  before those updates and the events after them, and nothing in between, for as long as it runs.\<close>

lemma secret_update_during_subscribe_is_lost:
  assumes "handle_subscribe_secrets cd now cache req reader bs = (Inr (T_bridge, ch), bs')"
    and "watch_secrets cd (ssr_namespace req) between (cache, out) = (cache1, out1)"
    and "watch_secrets cd (ssr_namespace req) later (cache1, out1) = (cache2, out1 @ out2)"
    and "secret_task_run cd (ssr_namespace req) (map S_event out2) started (T_bridge, ch) = (Continue, ch')"
  shows "payloads ch' =
    map (snapshot_event cd now) (secret_cache_all_in_namespace cache (ssr_namespace req)) @ out2"
proof -
  obtain r1 where r1: "delivers (map (snapshot_event cd now) (secret_cache_all_in_namespace cache (ssr_namespace req)))
      (channel_new reader) (r1, ch)" "r1 = Continue"
    using handle_subscribe_secrets_delivers [OF assms(1)] by auto
  have "delivers out2 ch (Continue, ch')"
    using secret_task_run_delivers [of cd "ssr_namespace req" "map S_event out2" started T_bridge ch] assms(4)
    by (simp add: owed_after_snapshot_def live_secrets_all)
  with r1 show ?thesis by (auto simp: delivers_def)
qed

section \<open>An example\<close>

definition demo_secret_req :: subscribe_secrets_request where
  "demo_secret_req = \<lparr>ssr_namespace = ''ns'', ssr_names = [], ssr_resume_resource_version = []\<rparr>"

lemma demo_secret_subscribe:
  "handle_subscribe_secrets demo_codecs 0 secret_cache_new demo_secret_req [] [(''ns'', 0)] =
     (Inr (T_bridge, channel_new []), [(''ns'', 1)])"
  by (simp add: handle_subscribe_secrets_def demo_secret_req_def secret_cache_all_in_namespace_def
      secret_cache_new_def cow_all_in_namespace_def from_map_def with_capacity_def get_broadcast_rx_def
      hm_get_Cons hm_insert_def)


end
