(* ===== verification/Service.thy ===== *)
theory Service
  imports Tenant_Cache Namespace_Fanout Secret_Subscribe
begin

text \<open>
  The gRPC service (\<open>grpc/service.rs\<close>, the guards of \<open>grpc/mod.rs\<close>, \<open>grpc/drain.rs\<close>,
  \<open>grpc/context.rs\<close>, \<open>grpc/get.rs\<close>, \<open>grpc/secret_get.rs\<close>, \<open>grpc/audit.rs\<close>): every RPC as a
  computation on the state of the server, with its guards in the order of the code, its handler and
  its audit record. Spans, log lines and latency metrics are left out.
\<close>

section \<open>State of the server\<close>

record audit_record =
  au_rpc :: string
  au_namespace :: string
  au_name :: string
  au_client_identity :: string
  au_client_addr :: string
  au_result :: string
  au_schema_version :: "u32 option"
  au_resource_version :: "string option"
  au_timestamp_ms :: int
  au_request_id :: string

text \<open>The Kubernetes event a record is mirrored as; its timestamps are left out.\<close>

record k8s_event =
  ke_namespace :: string
  ke_object_name :: string
  ke_reason :: string
  ke_message :: string
  ke_type :: string

text \<open>What is fixed when a call runs: the libraries, the environment, the flags, and the policy
  tables as the watchers have last published them.\<close>

record ('w, 'v) server_setup =
  su_kube :: "'w kube"
  su_codecs :: codecs
  su_schema_lib :: "'v schema_lib"
  su_parse_x509 :: "string \<Rightarrow> x509_cert option"
  su_start_nanos :: nat
  su_k8s_events_env :: "string option"
  su_broadcast_shards :: nat
  su_authz_mode :: authz_mode
  su_acl_table :: acl_table
  su_acl_synced :: bool
  su_schema_table :: "'v schema_table"
  su_quota_mode :: quota_mode
  su_quota_table :: quota_table
  su_quota_synced :: bool
  su_default_max_subscribers :: u32
  su_default_max_applies_per_second :: u32
  su_default_cache_budget_bytes :: u64

text \<open>What calls change. \<open>sv_audit\<close> is the audit log on standard output, \<open>sv_k8s_events\<close> the
  events sent to the cluster, whose failures are ignored.\<close>

record 'w server =
  sv_kube :: 'w
  sv_cache :: config_cache
  sv_secret_cache :: secret_cache
  sv_registry :: registry
  sv_secret_broadcasts :: secret_broadcasts
  sv_draining :: bool
  sv_counts :: subscriber_counts
  sv_limiter :: apply_limiter
  sv_ledger :: ledger
  sv_seq :: u64
  sv_audit :: "audit_record list"
  sv_k8s_events :: "k8s_event list"

text \<open>A request with its transport facets, and the clocks as the call reads them.\<close>

record 'a request =
  rq_body :: 'a
  rq_peer_certs :: "string list option"
  rq_remote_addr :: "string option"
  rq_request_id :: "string option"

record clocks =
  ck_now :: instant
  ck_epoch_ms :: int

section \<open>Request context\<close>

definition request_id :: "('w, 'v) server_setup \<Rightarrow> 'a request \<Rightarrow> 'w server \<Rightarrow> string \<times> 'w server" where
  "request_id su req s =
     (let minted = (show_hex (su_start_nanos su) @ ''-'' @ show_hex (unat (sv_seq s)), s\<lparr>sv_seq := sv_seq s + 1\<rparr>)
      in case rq_request_id req of
           Some h \<Rightarrow> if trim h \<noteq> [] then (trim h, s) else minted
         | None \<Rightarrow> minted)"

definition client_addr :: "'a request \<Rightarrow> string" where
  "client_addr req = (case rq_remote_addr req of Some a \<Rightarrow> a | None \<Rightarrow> ''unknown'')"

text \<open>The entry log line draws a request id.\<close>

definition log_rpc_entry :: "('w, 'v) server_setup \<Rightarrow> 'a request \<Rightarrow> 'w server \<Rightarrow> 'w server" where
  "log_rpc_entry su req s = snd (request_id su req s)"

definition parse_config_schema_version :: "codecs \<Rightarrow> string \<Rightarrow> u32 option" where
  "parse_config_schema_version cd yaml = (case spec_from_yaml cd yaml of
       Inl _ \<Rightarrow> None | Inr spec \<Rightarrow> Some (spec_schema_version spec))"

definition parse_secret_yaml_version :: "codecs \<Rightarrow> string \<Rightarrow> u32 option" where
  "parse_secret_yaml_version cd yaml = (case map_from_yaml cd yaml of
       Inl _ \<Rightarrow> None | Inr m \<Rightarrow> Option.bind (bt_get m ''schema_version'') parse_u32)"

definition caller :: "('w, 'v) server_setup \<Rightarrow> 'a request \<Rightarrow> client_identity" where
  "caller su req = extract_identity (su_parse_x509 su) (rq_peer_certs req)"

section \<open>Audit\<close>

fun code_snake :: "code \<Rightarrow> string" where
  "code_snake Ok_code = ''ok''"
| "code_snake Cancelled = ''cancelled''"
| "code_snake Unknown = ''unknown''"
| "code_snake InvalidArgument = ''invalid_argument''"
| "code_snake DeadlineExceeded = ''deadline_exceeded''"
| "code_snake NotFound = ''not_found''"
| "code_snake AlreadyExists = ''already_exists''"
| "code_snake PermissionDenied = ''permission_denied''"
| "code_snake ResourceExhausted = ''resource_exhausted''"
| "code_snake FailedPrecondition = ''failed_precondition''"
| "code_snake Aborted = ''aborted''"
| "code_snake OutOfRange = ''out_of_range''"
| "code_snake Unimplemented = ''unimplemented''"
| "code_snake Internal = ''internal''"
| "code_snake Unavailable = ''unavailable''"
| "code_snake DataLoss = ''data_loss''"
| "code_snake Unauthenticated = ''unauthenticated''"

definition result_str :: "'a rpc \<Rightarrow> string" where
  "result_str r = (case r of Inr _ \<Rightarrow> ''success'' | Inl e \<Rightarrow> ''error:'' @ code_snake (st_code e))"

definition resource_version_of :: "'a rpc \<Rightarrow> ('a \<Rightarrow> string) \<Rightarrow> string option" where
  "resource_version_of r ext = (case r of
       Inr a \<Rightarrow> if ext a = [] then None else Some (ext a) | Inl _ \<Rightarrow> None)"

definition audit_emit :: "audit_record \<Rightarrow> 'w server \<Rightarrow> 'w server" where
  "audit_emit rec s = s\<lparr>sv_audit := sv_audit s @ [rec]\<rparr>"

definition k8s_event_of :: "audit_record \<Rightarrow> k8s_event" where
  "k8s_event_of rec =
     \<lparr>ke_namespace = au_namespace rec, ke_object_name = au_name rec, ke_reason = au_rpc rec,
      ke_message = au_rpc rec @ '' by '' @ au_client_identity rec @ '' '' @ map char_of [226, 134, 146 :: nat] @
        '' '' @ au_result rec,
      ke_type = (if take 6 (au_result rec) = ''error:'' then ''Warning'' else ''Normal'')\<rparr>"

definition maybe_emit_k8s_event :: "('w, 'v) server_setup \<Rightarrow> audit_record \<Rightarrow> 'w server \<Rightarrow> 'w server" where
  "maybe_emit_k8s_event su rec s =
     (if su_k8s_events_env su \<noteq> Some ''true'' then s
      else s\<lparr>sv_k8s_events := sv_k8s_events s @ [k8s_event_of rec]\<rparr>)"

section \<open>Guards\<close>

definition check_drain :: "'w server \<Rightarrow> unit rpc" where
  "check_drain s = (if sv_draining s then Inl (Status Unavailable ''server draining'') else Inr ())"

definition begin_drain :: "'w server \<Rightarrow> 'w server" where
  "begin_drain s = s\<lparr>sv_draining := True\<rparr>"

definition authorize :: "('w, 'v) server_setup \<Rightarrow> 'a request \<Rightarrow> verb \<Rightarrow> string \<Rightarrow> string \<Rightarrow> unit rpc" where
  "authorize su req v ns nm =
     (if su_authz_mode su = Disabled then Inr ()
      else authz_check (su_authz_mode su) (su_acl_table su) (su_acl_synced su) (caller su req) v ns nm)"

text \<open>The guard a subscriber gets is the identity whose slot it holds.\<close>

definition admit_subscriber ::
  "('w, 'v) server_setup \<Rightarrow> 'a request \<Rightarrow> 'w server \<Rightarrow> (string option) rpc \<times> 'w server" where
  "admit_subscriber su req s =
     (if su_quota_mode su = QDisabled then (Inr None, s)
      else let ident = ci_id (caller su req);
               limit = effective_subscriber_limit (su_quota_table su) (su_quota_synced su)
                         (su_default_max_subscribers su) ident
           in case sc_admit ident (su_quota_mode su) limit (sv_counts s) of
                (Allowed g current l over, c) \<Rightarrow> (Inr (Some g), s\<lparr>sv_counts := c\<rparr>)
              | (Denied current l, c) \<Rightarrow>
                  (Inl (Status ResourceExhausted (''tenant subscriber quota exhausted ('' @
                     show_nat (unat current) @ ''/'' @ show_nat (unat l) @ '')'')), s\<lparr>sv_counts := c\<rparr>))"

definition release_guard :: "string option \<Rightarrow> 'w server \<Rightarrow> 'w server" where
  "release_guard g s = (case g of None \<Rightarrow> s | Some ident \<Rightarrow> s\<lparr>sv_counts := sc_release ident (sv_counts s)\<rparr>)"

definition rate_limit_apply ::
  "('w, 'v) server_setup \<Rightarrow> clocks \<Rightarrow> 'a request \<Rightarrow> u32 \<Rightarrow> 'w server \<Rightarrow> unit rpc \<times> 'w server" where
  "rate_limit_apply su ck req cost s =
     (case apply_admission (su_quota_table su) (su_quota_synced su) (su_quota_mode su)
         (su_default_max_applies_per_second su) (ci_id (caller su req)) cost (ck_now ck) (sv_limiter s) of
        (outcome, lmt) \<Rightarrow>
          ((case outcome of
              ODenied rate burst \<Rightarrow> Inl (Status ResourceExhausted (''tenant apply rate exhausted (rate='' @
                show_nat (unat rate) @ ''/s, burst='' @ show_nat (unat burst) @ '', cost='' @
                show_nat (unat cost) @ '')''))
            | _ \<Rightarrow> Inr ()), s\<lparr>sv_limiter := lmt\<rparr>))"

definition cache_accountant_for :: "('w, 'v) server_setup \<Rightarrow> 'a request \<Rightarrow> string \<Rightarrow> cache_accountant option" where
  "cache_accountant_for su req kind =
     (if su_quota_mode su = QDisabled then None
      else let ident = ci_id (caller su req)
           in Some \<lparr>ca_identity = ident, ca_mode = su_quota_mode su,
                ca_budget = effective_cache_budget (su_quota_table su) (su_quota_synced su)
                  (su_default_cache_budget_bytes su) ident,
                ca_kind = kind\<rparr>)"


section \<open>Reads\<close>

record get_request =
  gr_namespace :: string
  gr_name :: string

definition guard :: "('w server \<Rightarrow> unit rpc) \<Rightarrow> ('w server, unit) io" where
  "guard g s = (g s, s)"

definition handle_get :: "codecs \<Rightarrow> instant \<Rightarrow> config_cache \<Rightarrow> get_request \<Rightarrow> config_msg rpc" where
  "handle_get cd now cache req = (case config_cache_get cache (gr_namespace req) (gr_name req) of
       Some snap \<Rightarrow> Inr (snapshot_to_proto cd now snap)
     | None \<Rightarrow> Inl (Status NotFound (''config '' @ gr_namespace req @ ''/'' @ gr_name req @ '' not found'')))"

definition handle_get_secret :: "codecs \<Rightarrow> instant \<Rightarrow> secret_cache \<Rightarrow> get_request \<Rightarrow> secret_msg rpc" where
  "handle_get_secret cd now cache req = (case secret_cache_get cache (gr_namespace req) (gr_name req) of
       Some snap \<Rightarrow> Inr (secret_snapshot_to_proto cd now snap)
     | None \<Rightarrow> Inl (Status NotFound (''secret '' @ gr_namespace req @ ''/'' @ gr_name req @ '' not found'')))"

text \<open>The items the spawned encoder sends, as far as the client reads them.\<close>

definition handle_get_all :: "codecs \<Rightarrow> instant \<Rightarrow> config_cache \<Rightarrow> string \<Rightarrow> config_msg list" where
  "handle_get_all cd now cache ns = map (snapshot_to_proto cd now) (config_cache_all_in_namespace cache ns)"

definition handle_get_all_secrets :: "codecs \<Rightarrow> instant \<Rightarrow> secret_cache \<Rightarrow> string \<Rightarrow> secret_msg list" where
  "handle_get_all_secrets cd now cache ns =
     map (secret_snapshot_to_proto cd now) (secret_cache_all_in_namespace cache ns)"

definition attribute :: "cache_accountant option \<Rightarrow> ('t \<Rightarrow> cost) \<Rightarrow> 't rpc \<Rightarrow> 'w server \<Rightarrow> 'w server" where
  "attribute acct cost r s = (case (acct, r) of
       (Some a, Inr x) \<Rightarrow> s\<lparr>sv_ledger := record_cost a (cost x) (sv_ledger s)\<rparr> | _ \<Rightarrow> s)"

definition rpc_get ::
  "('w, 'v) server_setup \<Rightarrow> clocks \<Rightarrow> get_request request \<Rightarrow> ('w server, config_msg) io" where
  "rpc_get su ck req s0 =
     io_bind (guard check_drain) (\<lambda>_.
     io_bind (io_of (authorize su req Read (gr_namespace (rq_body req)) (gr_name (rq_body req)))) (\<lambda>_ s.
       let acct = cache_accountant_for su req ''config'';
           result = handle_get (su_codecs su) (ck_now ck) (sv_cache s) (rq_body req)
       in (result, attribute acct config_cost result s)))
     (log_rpc_entry su req s0)"

definition rpc_get_all ::
  "('w, 'v) server_setup \<Rightarrow> clocks \<Rightarrow> string request \<Rightarrow> ('w server, config_msg list \<times> cache_accountant option) io" where
  "rpc_get_all su ck req s0 =
     io_bind (guard check_drain) (\<lambda>_.
     io_bind (io_of (authorize su req Read (rq_body req) ''*'')) (\<lambda>_ s.
       (Inr (handle_get_all (su_codecs su) (ck_now ck) (sv_cache s) (rq_body req),
             cache_accountant_for su req ''config''), s)))
     (log_rpc_entry su req s0)"

section \<open>Writes\<close>

record revert_request =
  rvq_namespace :: string
  rvq_name :: string
  rvq_to_resource_version :: string

definition run_kube :: "('w, 'a) io \<Rightarrow> ('w server, 'a) io" where
  "run_kube m s = (case m (sv_kube s) of (r, w) \<Rightarrow> (r, s\<lparr>sv_kube := w\<rparr>))"

text \<open>One record for one target of a call that has reached its handler.\<close>

definition audit_of ::
  "('w, 'v) server_setup \<Rightarrow> clocks \<Rightarrow> 'q request \<Rightarrow> string \<Rightarrow> string \<Rightarrow> string \<Rightarrow> string \<Rightarrow> u32 option \<Rightarrow>
   string option \<Rightarrow> 'a rpc \<Rightarrow> audit_record" where
  "audit_of su ck req rid rpc ns nm sv rv r =
     \<lparr>au_rpc = rpc, au_namespace = ns, au_name = nm, au_client_identity = ci_id (caller su req),
      au_client_addr = client_addr req, au_result = result_str r, au_schema_version = sv,
      au_resource_version = rv, au_timestamp_ms = ck_epoch_ms ck, au_request_id = rid\<rparr>"

definition emit_record :: "('w, 'v) server_setup \<Rightarrow> audit_record \<Rightarrow> 'w server \<Rightarrow> 'w server" where
  "emit_record su rec s = maybe_emit_k8s_event su rec (audit_emit rec s)"

text \<open>The shape of \<open>apply\<close>, \<open>revert\<close> and \<open>apply_secret\<close> behind their guards: draw the request id, run the
  handler, emit the record whatever the outcome.\<close>

definition audited ::
  "('w, 'v) server_setup \<Rightarrow> clocks \<Rightarrow> 'q request \<Rightarrow> string \<Rightarrow> string \<Rightarrow> string \<Rightarrow> u32 option \<Rightarrow> ('a \<Rightarrow> string) \<Rightarrow>
   ('w, 'a) io \<Rightarrow> ('w server, 'a) io" where
  "audited su ck req rpc ns nm sv rv_of m s =
     (let (rid, s1) = request_id su req s; (r, s2) = run_kube m s1
      in (r, emit_record su (audit_of su ck req rid rpc ns nm sv (resource_version_of r rv_of) r) s2))"

definition rpc_apply ::
  "('w, 'v) server_setup \<Rightarrow> clocks \<Rightarrow> apply_request request \<Rightarrow> ('w server, string) io" where
  "rpc_apply su ck req s0 =
     (let b = rq_body req in
      io_bind (guard check_drain) (\<lambda>_.
      io_bind (io_of (authorize su req Write (ar_namespace b) (ar_name b))) (\<lambda>_.
      io_bind (rate_limit_apply su ck req 1) (\<lambda>_.
      audited su ck req ''Apply'' (ar_namespace b) (ar_name b)
        (parse_config_schema_version (su_codecs su) (ar_yaml_content b)) id
        (handle_apply (su_kube su) (su_codecs su) (su_schema_lib su) (su_schema_table su) b))))
      (log_rpc_entry su req s0))"

text \<open>\<open>batch_apply\<close> emits one record for each item, with the version of that item on success.\<close>

definition batch_version :: "(batch_apply_result list) rpc \<Rightarrow> apply_request \<Rightarrow> string option" where
  "batch_version r item = (case r of Inl _ \<Rightarrow> None
     | Inr results \<Rightarrow>
         (case find (\<lambda>b. br_namespace b = ar_namespace item \<and> br_name b = ar_name item) results of
            None \<Rightarrow> None
          | Some b \<Rightarrow> if br_resource_version b = [] then None else Some (br_resource_version b)))"

definition rpc_batch_apply ::
  "('w, 'v) server_setup \<Rightarrow> clocks \<Rightarrow> (apply_request list) request \<Rightarrow> ('w server, batch_apply_result list) io" where
  "rpc_batch_apply su ck req s0 =
     (let items = rq_body req in
      io_bind (guard check_drain) (\<lambda>_.
      io_bind (io_of (try_all (\<lambda>i. authorize su req Write (ar_namespace i) (ar_name i)) items)) (\<lambda>_.
      io_bind (rate_limit_apply su ck req (of_nat (length items))) (\<lambda>_ s.
        let (rid, s1) = request_id su req s;
            (r, s2) = run_kube (handle_batch_apply (su_kube su) (su_codecs su) (su_schema_lib su)
                        (su_schema_table su) items) s1
        in (r, foldl (\<lambda>s i. emit_record su (audit_of su ck req rid ''BatchApply'' (ar_namespace i) (ar_name i)
                 (parse_config_schema_version (su_codecs su) (ar_yaml_content i)) (batch_version r i) r) s)
               s2 items))))
      (log_rpc_entry su req s0))"

definition rpc_dry_run_apply ::
  "('w, 'v) server_setup \<Rightarrow> clocks \<Rightarrow> apply_request request \<Rightarrow> ('w server, dry_run_response) io" where
  "rpc_dry_run_apply su ck req s0 =
     (let b = rq_body req in
      io_bind (guard check_drain) (\<lambda>_.
      io_bind (io_of (authorize su req Write (ar_namespace b) (ar_name b))) (\<lambda>_.
      run_kube (handle_dry_run_apply (su_kube su) (su_codecs su) b)))
      (log_rpc_entry su req s0))"

text \<open>\<open>revert\<close> checks neither the drain flag nor the rate limit.\<close>

definition rpc_revert ::
  "('w, 'v) server_setup \<Rightarrow> clocks \<Rightarrow> revert_request request \<Rightarrow> ('w server, revert_response) io" where
  "rpc_revert su ck req s0 =
     (let b = rq_body req in
      io_bind (io_of (authorize su req Write (rvq_namespace b) (rvq_name b))) (\<lambda>_.
      audited su ck req ''Revert'' (rvq_namespace b) (rvq_name b) None rr_resource_version
        (handle_revert (su_kube su) (su_codecs su) (rvq_namespace b) (rvq_name b) (rvq_to_resource_version b)))
      (log_rpc_entry su req s0))"

definition rpc_apply_secret ::
  "('w, 'v) server_setup \<Rightarrow> clocks \<Rightarrow> apply_request request \<Rightarrow> ('w server, string) io" where
  "rpc_apply_secret su ck req s0 =
     (let b = rq_body req in
      io_bind (guard check_drain) (\<lambda>_.
      io_bind (io_of (authorize su req Write (ar_namespace b) (ar_name b))) (\<lambda>_.
      io_bind (rate_limit_apply su ck req 1) (\<lambda>_.
      audited su ck req ''ApplySecret'' (ar_namespace b) (ar_name b)
        (parse_secret_yaml_version (su_codecs su) (ar_yaml_content b)) id
        (apply_secret_inner (su_kube su) (su_codecs su) (ar_namespace b) (ar_name b) (ar_yaml_content b)))))
      (log_rpc_entry su req s0))"

section \<open>Secret reads\<close>

record read_audit =
  ra_rpc :: string
  ra_namespace :: string
  ra_name :: string
  ra_rid :: string

definition read_audit_capture ::
  "('w, 'v) server_setup \<Rightarrow> string \<Rightarrow> 'q request \<Rightarrow> string \<Rightarrow> string \<Rightarrow> 'w server \<Rightarrow> read_audit \<times> 'w server" where
  "read_audit_capture su rpc req ns nm s = (case request_id su req s of (rid, s') \<Rightarrow>
     (\<lparr>ra_rpc = rpc, ra_namespace = ns, ra_name = nm, ra_rid = rid\<rparr>, s'))"

definition read_audit_emit ::
  "('w, 'v) server_setup \<Rightarrow> clocks \<Rightarrow> 'q request \<Rightarrow> read_audit \<Rightarrow> 'a rpc \<Rightarrow> string option \<Rightarrow> 'w server \<Rightarrow> 'w server" where
  "read_audit_emit su ck req ra r rv s =
     audit_emit (audit_of su ck req (ra_rid ra) (ra_rpc ra) (ra_namespace ra) (ra_name ra) None rv r) s"

definition rpc_get_secret ::
  "('w, 'v) server_setup \<Rightarrow> clocks \<Rightarrow> get_request request \<Rightarrow> ('w server, secret_msg) io" where
  "rpc_get_secret su ck req s0 =
     (let b = rq_body req in
      io_bind (guard check_drain) (\<lambda>_.
      io_bind (io_of (authorize su req Read (gr_namespace b) (gr_name b))) (\<lambda>_ s.
        let acct = cache_accountant_for su req ''secret'';
            (ra, s1) = read_audit_capture su ''GetSecret'' req (gr_namespace b) (gr_name b) s;
            result = handle_get_secret (su_codecs su) (ck_now ck) (sv_secret_cache s1) b
        in (result, read_audit_emit su ck req ra result (resource_version_of result sm_resource_version)
             (attribute acct secret_cost result s1))))
      (log_rpc_entry su req s0))"

definition rpc_get_all_secrets ::
  "('w, 'v) server_setup \<Rightarrow> clocks \<Rightarrow> string request \<Rightarrow> ('w server, secret_msg list \<times> cache_accountant option) io" where
  "rpc_get_all_secrets su ck req s0 =
     io_bind (guard check_drain) (\<lambda>_.
     io_bind (io_of (authorize su req Read (rq_body req) ''*'')) (\<lambda>_ s.
       let acct = cache_accountant_for su req ''secret'';
           (ra, s1) = read_audit_capture su ''GetAllSecrets'' req (rq_body req) ''*'' s;
           result = Inr (handle_get_all_secrets (su_codecs su) (ck_now ck) (sv_secret_cache s1) (rq_body req), acct)
       in (result, read_audit_emit su ck req ra result None s1)))
     (log_rpc_entry su req s0)"

section \<open>Subscriptions\<close>

text \<open>The guard rides the response stream; when the handler fails it is dropped, which releases its slot.\<close>

definition rpc_subscribe ::
  "('w, 'v) server_setup \<Rightarrow> clocks \<Rightarrow> subscribe_request request \<Rightarrow>
   ('w server, (subscribe_filter \<times> nat \<times> nat \<times> nat) \<times> cache_accountant option \<times> string option) io" where
  "rpc_subscribe su ck req s0 =
     (let b = rq_body req in
      io_bind (guard check_drain) (\<lambda>_.
      io_bind (io_of (authorize su req Read (sr_namespace b) ''*'')) (\<lambda>_.
      io_bind (admit_subscriber su req) (\<lambda>g s.
        let acct = cache_accountant_for su req ''config'' in
        case handle_subscribe (sv_cache s) (su_broadcast_shards su) b (sv_registry s) of
          (Inr x, rg) \<Rightarrow> (Inr (x, acct, g), s\<lparr>sv_registry := rg\<rparr>)
        | (Inl e, rg) \<Rightarrow> (Inl e, release_guard g (s\<lparr>sv_registry := rg\<rparr>)))))
      (log_rpc_entry su req s0))"

definition rpc_subscribe_secrets ::
  "('w, 'v) server_setup \<Rightarrow> clocks \<Rightarrow> nat option list \<Rightarrow> subscribe_secrets_request request \<Rightarrow>
   ('w server, (secret_task \<times> secret_event channel) \<times> cache_accountant option \<times> string option) io" where
  "rpc_subscribe_secrets su ck reader req s0 =
     (let b = rq_body req in
      io_bind (guard check_drain) (\<lambda>_.
      io_bind (io_of (authorize su req Read (ssr_namespace b) ''*'')) (\<lambda>_.
      io_bind (admit_subscriber su req) (\<lambda>g s.
        let acct = cache_accountant_for su req ''secret'';
            (ra, s1) = read_audit_capture su ''SubscribeSecrets'' req (ssr_namespace b) ''*'' s;
            (r, bs) = handle_subscribe_secrets (su_codecs su) (ck_now ck) (sv_secret_cache s1) b reader
                        (sv_secret_broadcasts s1);
            s2 = s1\<lparr>sv_secret_broadcasts := bs\<rparr>;
            result = (case r of Inr x \<Rightarrow> Inr (x, acct, g) | Inl e \<Rightarrow> Inl e);
            s3 = (case r of Inr x \<Rightarrow> s2 | Inl e \<Rightarrow> release_guard g s2)
        in (result, read_audit_emit su ck req ra result None s3))))
      (log_rpc_entry su req s0))"


section \<open>Frames\<close>

lemma request_id_frame: "snd (request_id su req s) = s\<lparr>sv_seq := sv_seq (snd (request_id su req s))\<rparr>"
  by (simp add: request_id_def Let_def split: option.splits)

lemma request_id_fields [simp]:
  "sv_kube (snd (request_id su req s)) = sv_kube s" "sv_audit (snd (request_id su req s)) = sv_audit s"
  "sv_draining (snd (request_id su req s)) = sv_draining s" "sv_counts (snd (request_id su req s)) = sv_counts s"
  "sv_registry (snd (request_id su req s)) = sv_registry s"
  "sv_secret_cache (snd (request_id su req s)) = sv_secret_cache s"
  by (simp_all add: request_id_def Let_def split: option.splits)

lemma request_id_eqD:
  assumes "request_id su req s = (rid, s1)"
  shows "sv_kube s1 = sv_kube s" "sv_audit s1 = sv_audit s" "sv_counts s1 = sv_counts s"
    "sv_secret_cache s1 = sv_secret_cache s"
  using request_id_fields [of su req s] assms by simp_all

lemma log_rpc_entry_fields [simp]:
  "sv_kube (log_rpc_entry su req s) = sv_kube s" "sv_audit (log_rpc_entry su req s) = sv_audit s"
  "sv_draining (log_rpc_entry su req s) = sv_draining s" "sv_counts (log_rpc_entry su req s) = sv_counts s"
  "sv_registry (log_rpc_entry su req s) = sv_registry s"
  "sv_secret_cache (log_rpc_entry su req s) = sv_secret_cache s"
  by (simp_all add: log_rpc_entry_def)

lemma emit_record_fields [simp]:
  "sv_kube (emit_record su rec s) = sv_kube s" "sv_audit (emit_record su rec s) = sv_audit s @ [rec]"
  by (simp_all add: emit_record_def maybe_emit_k8s_event_def audit_emit_def)

lemma rate_limit_apply_fields:
  assumes "rate_limit_apply su ck req cost s = (r, s')"
  shows "sv_kube s' = sv_kube s" "sv_audit s' = sv_audit s"
  using assms by (auto simp: rate_limit_apply_def split: prod.splits)

text \<open>A call is untouched when neither the cluster nor the audit log has changed.\<close>

definition untouched :: "'w server \<Rightarrow> 'w server \<Rightarrow> bool" where
  "untouched s s' \<longleftrightarrow> sv_kube s' = sv_kube s \<and> sv_audit s' = sv_audit s"


section \<open>The service as one dispatcher\<close>

datatype rpc_call =
  CGet "get_request request"
| CGetAll "string request"
| CSubscribe "subscribe_request request"
| CApply "apply_request request"
| CBatchApply "(apply_request list) request"
| CDryRunApply "apply_request request"
| CRevert "revert_request request"
| CGetSecret "get_request request"
| CGetAllSecrets "string request"
| CSubscribeSecrets "nat option list" "subscribe_secrets_request request"
| CApplySecret "apply_request request"

definition outcome :: "('w server, 'a) io \<Rightarrow> ('w server, unit) io" where
  "outcome m s = (case m s of (r, s') \<Rightarrow> (map_sum id (\<lambda>_. ()) r, s'))"

fun serve :: "('w, 'v) server_setup \<Rightarrow> clocks \<Rightarrow> rpc_call \<Rightarrow> ('w server, unit) io" where
  "serve su ck (CGet req) = outcome (rpc_get su ck req)"
| "serve su ck (CGetAll req) = outcome (rpc_get_all su ck req)"
| "serve su ck (CSubscribe req) = outcome (rpc_subscribe su ck req)"
| "serve su ck (CApply req) = outcome (rpc_apply su ck req)"
| "serve su ck (CBatchApply req) = outcome (rpc_batch_apply su ck req)"
| "serve su ck (CDryRunApply req) = outcome (rpc_dry_run_apply su ck req)"
| "serve su ck (CRevert req) = outcome (rpc_revert su ck req)"
| "serve su ck (CGetSecret req) = outcome (rpc_get_secret su ck req)"
| "serve su ck (CGetAllSecrets req) = outcome (rpc_get_all_secrets su ck req)"
| "serve su ck (CSubscribeSecrets reader req) = outcome (rpc_subscribe_secrets su ck reader req)"
| "serve su ck (CApplySecret req) = outcome (rpc_apply_secret su ck req)"

text \<open>The verb a call needs, and its targets.\<close>

fun needs :: "rpc_call \<Rightarrow> verb \<times> (string \<times> string) list" where
  "needs (CGet req) = (Read, [(gr_namespace (rq_body req), gr_name (rq_body req))])"
| "needs (CGetAll req) = (Read, [(rq_body req, ''*'')])"
| "needs (CSubscribe req) = (Read, [(sr_namespace (rq_body req), ''*'')])"
| "needs (CApply req) = (Write, [(ar_namespace (rq_body req), ar_name (rq_body req))])"
| "needs (CBatchApply req) = (Write, map (\<lambda>i. (ar_namespace i, ar_name i)) (rq_body req))"
| "needs (CDryRunApply req) = (Write, [(ar_namespace (rq_body req), ar_name (rq_body req))])"
| "needs (CRevert req) = (Write, [(rvq_namespace (rq_body req), rvq_name (rq_body req))])"
| "needs (CGetSecret req) = (Read, [(gr_namespace (rq_body req), gr_name (rq_body req))])"
| "needs (CGetAllSecrets req) = (Read, [(rq_body req, ''*'')])"
| "needs (CSubscribeSecrets reader req) = (Read, [(ssr_namespace (rq_body req), ''*'')])"
| "needs (CApplySecret req) = (Write, [(ar_namespace (rq_body req), ar_name (rq_body req))])"

fun is_revert :: "rpc_call \<Rightarrow> bool" where
  "is_revert (CRevert req) = True"
| "is_revert _ = False"

text \<open>The calls that leave a record once their guards have passed.\<close>

fun is_audited :: "rpc_call \<Rightarrow> bool" where
  "is_audited (CGet req) = False"
| "is_audited (CGetAll req) = False"
| "is_audited (CSubscribe req) = False"
| "is_audited (CDryRunApply req) = False"
| "is_audited _ = True"

fun call_certs :: "rpc_call \<Rightarrow> string list option" where
  "call_certs (CGet req) = rq_peer_certs req"
| "call_certs (CGetAll req) = rq_peer_certs req"
| "call_certs (CSubscribe req) = rq_peer_certs req"
| "call_certs (CApply req) = rq_peer_certs req"
| "call_certs (CBatchApply req) = rq_peer_certs req"
| "call_certs (CDryRunApply req) = rq_peer_certs req"
| "call_certs (CRevert req) = rq_peer_certs req"
| "call_certs (CGetSecret req) = rq_peer_certs req"
| "call_certs (CGetAllSecrets req) = rq_peer_certs req"
| "call_certs (CSubscribeSecrets reader req) = rq_peer_certs req"
| "call_certs (CApplySecret req) = rq_peer_certs req"

definition identity_of :: "('w, 'v) server_setup \<Rightarrow> rpc_call \<Rightarrow> client_identity" where
  "identity_of su c = extract_identity (su_parse_x509 su) (call_certs c)"

text \<open>Whether the access policy allows the call.\<close>

definition permitted :: "('w, 'v) server_setup \<Rightarrow> rpc_call \<Rightarrow> bool" where
  "permitted su c \<longleftrightarrow> (\<forall>(ns, nm) \<in> set (snd (needs c)). su_authz_mode su = Disabled \<or>
     authz_check (su_authz_mode su) (su_acl_table su) (su_acl_synced su) (identity_of su c) (fst (needs c)) ns nm
       = Inr ())"

definition log_gains :: "string \<Rightarrow> string \<Rightarrow> (string \<times> string) list \<Rightarrow> 'w server \<Rightarrow> 'w server \<Rightarrow> bool" where
  "log_gains ident res targets s s' \<longleftrightarrow> (\<exists>recs. sv_audit s' = sv_audit s @ recs \<and>
     map (\<lambda>a. (au_namespace a, au_name a)) recs = targets \<and>
     (\<forall>a \<in> set recs. au_client_identity a = ident \<and> au_result a = res))"

section \<open>Guard lemmas\<close>

lemma guard_simp [simp]: "guard g s = (r, s') \<longleftrightarrow> g s = r \<and> s' = s"
  by (auto simp: guard_def)

lemma check_drain_Inr [simp]: "check_drain s = Inr u \<longleftrightarrow> \<not> sv_draining s"
  by (simp add: check_drain_def)

lemma result_str_outcome [simp]: "result_str (map_sum id f r) = result_str r"
  by (cases r) (simp_all add: result_str_def)

lemma authorize_Inr:
  "authorize su req v ns nm = Inr u \<longleftrightarrow> su_authz_mode su = Disabled \<or>
     authz_check (su_authz_mode su) (su_acl_table su) (su_acl_synced su)
       (extract_identity (su_parse_x509 su) (rq_peer_certs req)) v ns nm = Inr ()"
  by (simp add: authorize_def caller_def)

lemma admit_subscriber_fields:
  assumes "admit_subscriber su req s = (r, s')"
  shows "sv_kube s' = sv_kube s" "sv_audit s' = sv_audit s"
  using assms by (auto simp: admit_subscriber_def Let_def split: if_splits prod.splits admit.splits)

lemma release_guard_fields [simp]:
  "sv_kube (release_guard g s) = sv_kube s" "sv_audit (release_guard g s) = sv_audit s"
  by (simp_all add: release_guard_def split: option.splits)

lemma attribute_fields [simp]:
  "sv_kube (attribute a f r s) = sv_kube s" "sv_audit (attribute a f r s) = sv_audit s"
  by (simp_all add: attribute_def split: option.splits sum.splits)

text \<open>One record.\<close>

lemma log_gains_one:
  "sv_audit s' = sv_audit s @ [audit_of su ck req rid rpc ns nm sv rv r] \<Longrightarrow>
   log_gains (ci_id (caller su req)) (result_str r) [(ns, nm)] s s'"
  by (simp add: log_gains_def audit_of_def)

lemma audited_log_gains:
  assumes "audited su ck req rpc ns nm sv rv_of m s = (r, s')"
  shows "log_gains (ci_id (caller su req)) (result_str r) [(ns, nm)] s s'"
  using assms
  by (auto simp: audited_def run_kube_def Let_def request_id_eqD split: prod.splits intro!: log_gains_one)

text \<open>One record for each item of a batch.\<close>

lemma emit_records_fields:
  "sv_kube (foldl (\<lambda>s i. emit_record su (f i) s) s items) = sv_kube s"
  "sv_audit (foldl (\<lambda>s i. emit_record su (f i) s) s items) = sv_audit s @ map f items"
  by (induction items arbitrary: s) simp_all

lemma log_gains_same:
  "sv_audit s1 = sv_audit s \<Longrightarrow> log_gains i res ts s1 s' \<longleftrightarrow> log_gains i res ts s s'"
  by (simp add: log_gains_def)

lemma read_audit_capture_eqD:
  assumes "read_audit_capture su rpc req ns nm s = (ra, s1)"
  shows "sv_kube s1 = sv_kube s" "sv_audit s1 = sv_audit s" "sv_counts s1 = sv_counts s"
    "sv_secret_cache s1 = sv_secret_cache s" "ra_namespace ra = ns" "ra_name ra = nm"
  using assms by (auto simp: read_audit_capture_def request_id_eqD split: prod.splits)

lemma read_audit_emit_fields [simp]:
  "sv_kube (read_audit_emit su ck req ra r rv s) = sv_kube s"
  "sv_audit (read_audit_emit su ck req ra r rv s) = sv_audit s @
     [audit_of su ck req (ra_rid ra) (ra_rpc ra) (ra_namespace ra) (ra_name ra) None rv r]"
  by (simp_all add: read_audit_emit_def audit_emit_def)

section \<open>What a call may do\<close>

definition conduct :: "('w, 'v) server_setup \<Rightarrow> rpc_call \<Rightarrow> 'w server \<Rightarrow> unit rpc \<Rightarrow> 'w server \<Rightarrow> bool" where
  "conduct su c s r s' \<longleftrightarrow>
     (\<exists>e. r = Inl e) \<and> untouched s s' \<or>
     (is_revert c \<or> \<not> sv_draining s) \<and> permitted su c \<and>
     (if is_audited c then log_gains (ci_id (identity_of su c)) (result_str r) (snd (needs c)) s s'
      else sv_audit s' = sv_audit s) \<and>
     (fst (needs c) = Read \<longrightarrow> sv_kube s' = sv_kube s)"

lemma outcome_eqD: "outcome m s = (r, s') \<Longrightarrow> \<exists>r0. m s = (r0, s') \<and> r = map_sum id (\<lambda>_. ()) r0"
  by (auto simp: outcome_def split: prod.splits)

lemma outcome_Inl [simp]: "map_sum id (\<lambda>_. ()) r0 = Inl e \<longleftrightarrow> r0 = Inl e"
  by (cases r0) simp_all


text \<open>The common prefix of the handlers: a refusal by either guard changes nothing.\<close>

lemma through_guards:
  assumes "io_bind (guard check_drain) (\<lambda>_. io_bind (io_of g) m) s = (r, s')"
  obtains (refused) e where "r = Inl e" "s' = s"
    | (passed) "\<not> sv_draining s" "g = Inr ()" "m () s = (r, s')"
  using assms by (auto simp: io_bind_cases)

lemma through_rate_limit:
  assumes "io_bind (rate_limit_apply su ck req cost) (\<lambda>_. m) s = (r, s')"
  obtains (refused) e where "r = Inl e" "untouched s s'"
    | (passed) s1 where "untouched s s1" "m s1 = (r, s')"
  using assms by (auto simp: io_bind_cases untouched_def dest: rate_limit_apply_fields)

lemma permitted_one:
  "needs c = (v, [(ns, nm)]) \<Longrightarrow> call_certs c = rq_peer_certs req \<Longrightarrow>
   permitted su c \<longleftrightarrow> authorize su req v ns nm = Inr ()"
  by (simp add: permitted_def identity_of_def authorize_Inr)

lemma identity_of_caller: "call_certs c = rq_peer_certs req \<Longrightarrow> identity_of su c = caller su req"
  by (simp add: identity_of_def caller_def)

lemma untouched_log [simp]: "untouched (log_rpc_entry su req s) s' \<longleftrightarrow> untouched s s'"
  by (simp add: untouched_def)

lemma conduct_refused: "untouched s s' \<Longrightarrow> conduct su c s (Inl e) s'"
  by (simp add: conduct_def)

lemma untouched_refl [simp]: "untouched s s"
  by (simp add: untouched_def)

lemma conduct_write:
  assumes "io_bind (guard check_drain) (\<lambda>_.
      io_bind (io_of (authorize su req Write ns nm)) (\<lambda>_.
      io_bind (rate_limit_apply su ck req cost) (\<lambda>_.
      audited su ck req rpc ns nm sv rv m))) (log_rpc_entry su req s) = (r0, s')"
    and c: "is_audited c" "needs c = (Write, [(ns, nm)])" "call_certs c = rq_peer_certs req"
  shows "conduct su c s (map_sum id (\<lambda>_. ()) r0) s'"
  using assms(1)
proof (cases rule: through_guards)
  case (refused e)
  then show ?thesis by (simp add: conduct_refused untouched_def)
next
  case passed
  from passed(3) show ?thesis
  proof (cases rule: through_rate_limit)
    case (refused e)
    then show ?thesis by (auto intro!: conduct_refused)
  next
    case (passed s1)
    with audited_log_gains [OF passed(2)] \<open>authorize _ _ _ _ _ = _\<close> \<open>\<not> sv_draining _\<close> c
    show ?thesis
      by (auto simp: conduct_def permitted_one identity_of_caller untouched_def log_gains_def)
  qed
qed

lemma conduct_read:
  assumes "io_bind (guard check_drain) (\<lambda>_. io_bind (io_of (authorize su req v ns nm)) m)
      (log_rpc_entry su req s) = (r0, s')"
    and c: "\<not> is_audited c" "needs c = (v, [(ns, nm)])" "call_certs c = rq_peer_certs req"
    and m: "\<And>s1. m () s1 = (r0, s') \<Longrightarrow> sv_audit s' = sv_audit s1 \<and> (v = Read \<longrightarrow> sv_kube s' = sv_kube s1)"
  shows "conduct su c s (map_sum id (\<lambda>_. ()) r0) s'"
  using assms(1)
proof (cases rule: through_guards)
  case (refused e)
  then show ?thesis by (simp add: conduct_refused untouched_def)
next
  case passed
  with m [OF passed(3)] c show ?thesis by (auto simp: conduct_def permitted_one)
qed

lemma conduct_secret_read:
  assumes "io_bind (guard check_drain) (\<lambda>_. io_bind (io_of (authorize su req Read ns nm)) m)
      (log_rpc_entry su req s) = (r0, s')"
    and c: "is_audited c" "needs c = (Read, [(ns, nm)])" "call_certs c = rq_peer_certs req"
    and m: "\<And>s1. m () s1 = (r0, s') \<Longrightarrow>
        (\<exists>e. r0 = Inl e) \<and> untouched s1 s' \<or>
        log_gains (ci_id (caller su req)) (result_str r0) [(ns, nm)] s1 s' \<and> sv_kube s' = sv_kube s1"
  shows "conduct su c s (map_sum id (\<lambda>_. ()) r0) s'"
  using assms(1)
proof (cases rule: through_guards)
  case (refused e)
  then show ?thesis by (simp add: conduct_refused untouched_def)
next
  case passed
  from m [OF passed(3)] show ?thesis
  proof (elim disjE conjE exE)
    fix e assume "r0 = Inl e" "untouched (log_rpc_entry su req s) s'"
    then show ?thesis by (auto intro!: conduct_refused)
  next
    assume "log_gains (ci_id (caller su req)) (result_str r0) [(ns, nm)] (log_rpc_entry su req s) s'"
      "sv_kube s' = sv_kube (log_rpc_entry su req s)"
    with passed c show ?thesis
      by (auto simp: conduct_def permitted_one identity_of_caller log_gains_def)
  qed
qed

lemma conduct_revert:
  assumes "rpc_revert su ck req s = (r0, s')"
  shows "conduct su (CRevert req) s (map_sum id (\<lambda>_. ()) r0) s'"
proof -
  let ?ns = "rvq_namespace (rq_body req)" and ?nm = "rvq_name (rq_body req)"
  consider e where "r0 = Inl e" "untouched s s'"
    | m where "authorize su req Write ?ns ?nm = Inr ()"
        "audited su ck req ''Revert'' ?ns ?nm None rr_resource_version m (log_rpc_entry su req s) = (r0, s')"
    using assms by (auto simp: rpc_revert_def Let_def io_bind_cases untouched_def)
  then show ?thesis
  proof cases
    case 2
    with audited_log_gains [OF 2(2)] show ?thesis
      by (auto simp: conduct_def permitted_one [of _ _ _ _ req] identity_of_caller [of _ req] log_gains_def)
  qed (simp add: conduct_refused)
qed

lemma conduct_batch:
  assumes "rpc_batch_apply su ck req s = (r0, s')"
  shows "conduct su (CBatchApply req) s (map_sum id (\<lambda>_. ()) r0) s'"
  using assms unfolding rpc_batch_apply_def Let_def
proof (cases rule: through_guards)
  case (refused e)
  then show ?thesis by (simp add: conduct_refused untouched_def)
next
  case passed
  have ok: "permitted su (CBatchApply req)"
    using passed(2) by (auto simp: permitted_def try_all_Inr identity_of_def authorize_Inr)
  from passed(3) show ?thesis
  proof (cases rule: through_rate_limit)
    case (refused e)
    then show ?thesis by (simp add: conduct_refused)
  next
    case (passed s1)
    then have "log_gains (ci_id (caller su req)) (result_str r0)
        (map (\<lambda>i. (ar_namespace i, ar_name i)) (rq_body req)) s s'"
      by (auto simp: log_gains_def emit_records_fields run_kube_def untouched_def audit_of_def
          dest: request_id_eqD split: prod.splits)
    with ok \<open>\<not> sv_draining _\<close> show ?thesis
      by (simp add: conduct_def identity_of_caller [of _ req])
  qed
qed


lemma read_audit_captureE:
  assumes "read_audit_capture su rpc req ns nm s = (ra, s1)"
  obtains "untouched s s1" "ra_namespace ra = ns" "ra_name ra = nm"
  using read_audit_capture_eqD [OF assms] that by (simp add: untouched_def)

lemma through_admission:
  assumes "io_bind (admit_subscriber su req) m s = (r, s')"
  obtains (refused) e where "r = Inl e" "untouched s s'"
    | (admitted) g s1 where "untouched s s1" "m g s1 = (r, s')"
proof -
  from assms consider e where "r = Inl e" "admit_subscriber su req s = (Inl e, s')"
    | g s1 where "admit_subscriber su req s = (Inr g, s1)" "m g s1 = (r, s')"
    by (auto simp: io_bind_cases)
  then show thesis
  proof cases
    case (2 g s1)
    with admit_subscriber_fields [OF 2(1)] show thesis by (intro that(2)) (simp_all add: untouched_def)
  qed (auto intro: that(1) simp: untouched_def admit_subscriber_fields)
qed

lemma handled_cases:
  "(case h of (Inl e, g) \<Rightarrow> (F e, u e g) | (Inr x, g) \<Rightarrow> (G x, v x g)) = (r, s') \<longleftrightarrow>
     (\<exists>e g. h = (Inl e, g) \<and> r = F e \<and> s' = u e g) \<or> (\<exists>x g. h = (Inr x, g) \<and> r = G x \<and> s' = v x g)"
  by (auto split: prod.splits sum.splits)

lemma conduct_subscribe:
  assumes "rpc_subscribe su ck req s = (r0, s')"
  shows "conduct su (CSubscribe req) s (map_sum id (\<lambda>_. ()) r0) s'"
  using assms unfolding rpc_subscribe_def Let_def
  by (rule conduct_read) (auto elim!: through_admission simp: handled_cases untouched_def)

lemma conduct_subscribe_secrets:
  assumes "rpc_subscribe_secrets su ck reader req s = (r0, s')"
  shows "conduct su (CSubscribeSecrets reader req) s (map_sum id (\<lambda>_. ()) r0) s'"
  using assms unfolding rpc_subscribe_secrets_def Let_def
proof (rule conduct_secret_read, goal_cases)
  case (4 s1)
  then show ?case
  proof (cases rule: through_admission)
    case (admitted g s2)
    then show ?thesis
      by (auto simp: untouched_def log_gains_def audit_of_def
        elim!: read_audit_captureE split: prod.split_asm sum.split_asm)
  qed simp
qed simp_all

lemma conduct_get:
  assumes "rpc_get su ck req s = (r0, s')"
  shows "conduct su (CGet req) s (map_sum id (\<lambda>_. ()) r0) s'"
  using assms unfolding rpc_get_def 
  by (auto intro!: conduct_read simp: Let_def)

lemma conduct_get_all:
  assumes "rpc_get_all su ck req s = (r0, s')"
  shows "conduct su (CGetAll req) s (map_sum id (\<lambda>_. ()) r0) s'"
  using assms unfolding rpc_get_all_def 
  by (auto intro!: conduct_read)

lemma conduct_dry_run_apply:
  assumes "rpc_dry_run_apply su ck req s = (r0, s')"
  shows "conduct su (CDryRunApply req) s (map_sum id (\<lambda>_. ()) r0) s'"
  using assms unfolding rpc_dry_run_apply_def Let_def
  by (auto intro!: conduct_read simp: run_kube_def split: prod.splits)

lemma conduct_apply:
  assumes "rpc_apply su ck req s = (r0, s')"
  shows "conduct su (CApply req) s (map_sum id (\<lambda>_. ()) r0) s'"
  using assms unfolding rpc_apply_def Let_def
  by (auto intro!: conduct_write)

lemma conduct_apply_secret:
  assumes "rpc_apply_secret su ck req s = (r0, s')"
  shows "conduct su (CApplySecret req) s (map_sum id (\<lambda>_. ()) r0) s'"
  using assms unfolding rpc_apply_secret_def Let_def
  by (auto intro!: conduct_write)

lemma conduct_get_secret:
  assumes "rpc_get_secret su ck req s = (r0, s')"
  shows "conduct su (CGetSecret req) s (map_sum id (\<lambda>_. ()) r0) s'"
  using assms unfolding rpc_get_secret_def Let_def
  by (auto intro!: conduct_secret_read simp: log_gains_def audit_of_def untouched_def elim!: read_audit_captureE split: prod.splits)

lemma conduct_get_all_secrets:
  assumes "rpc_get_all_secrets su ck req s = (r0, s')"
  shows "conduct su (CGetAllSecrets req) s (map_sum id (\<lambda>_. ()) r0) s'"
  using assms unfolding rpc_get_all_secrets_def Let_def
  by (auto intro!: conduct_secret_read simp: log_gains_def audit_of_def untouched_def elim!: read_audit_captureE split: prod.splits)

lemmas conducts = conduct_get conduct_get_all conduct_subscribe conduct_apply conduct_batch
  conduct_dry_run_apply conduct_revert conduct_get_secret conduct_get_all_secrets
  conduct_subscribe_secrets conduct_apply_secret

lemma serve_conduct: "serve su ck c s = (r, s') \<Longrightarrow> conduct su c s r s'"
  by (cases c) (auto dest!: outcome_eqD intro: conducts)


section \<open>Subscriber slots\<close>

fun is_subscribe :: "rpc_call \<Rightarrow> bool" where
  "is_subscribe (CSubscribe req) = True"
| "is_subscribe (CSubscribeSecrets reader req) = True"
| "is_subscribe _ = False"

lemma sc_admit_current:
  assumes "sc_admit i mode l c = (Allowed g n l' ob, c')"
  shows "sc_current c' j = sc_current c j + (if j = i then 1 else 0)"
  using sc_admit_allowed(1) [OF assms] by (auto simp: sc_current_def)

lemma sc_denied_current:
  "sc_admit i mode l c = (Denied n l', c') \<Longrightarrow> sc_current c' j = sc_current c j"
  using sc_admit_denied(1) [of i mode l c n l' c'] by (auto simp: sc_current_def)

lemma sc_release_current:
  "sc_current (sc_release i c) j = (if j = i then saturating_sub (sc_current c i) 1 else sc_current c j)"
  by (auto simp: sc_release_def release_decrement_def remove_if_zero_def sc_current_def Let_def
      saturating_sub_def split: option.splits if_splits)

text \<open>A slot is taken by an admission and given back by the drop of its guard.\<close>

lemma admit_subscriber_current:
  assumes "admit_subscriber su req s = (Inr g, s')"
  shows "g = (if su_quota_mode su = QDisabled then None else Some (ci_id (caller su req)))"
    and "sc_current (sv_counts s') j = sc_current (sv_counts s) j +
      (if su_quota_mode su \<noteq> QDisabled \<and> j = ci_id (caller su req) then 1 else 0)"
  using assms
  by (auto simp: admit_subscriber_def Let_def sc_admit_current dest: sc_admit_allowed(3)
      split: if_splits prod.splits admit.splits)

lemma admit_refused_current:
  assumes "admit_subscriber su req s = (Inl e, s')"
  shows "sc_current (sv_counts s') j = sc_current (sv_counts s) j"
  using assms
  by (auto simp: admit_subscriber_def Let_def sc_denied_current split: if_splits prod.splits admit.splits)

lemma counts_frames [simp]:
  "sv_counts (emit_record su rec s) = sv_counts s"
  "sv_counts (attribute a f r s) = sv_counts s"
  "sv_counts (read_audit_emit su ck req ra r rv s) = sv_counts s"
  by (simp_all add: emit_record_def maybe_emit_k8s_event_def audit_emit_def attribute_def
      read_audit_emit_def split: option.splits sum.splits)

lemma counts_frame_eqD:
  "rate_limit_apply su ck req cost s = (r, s') \<Longrightarrow> sv_counts s' = sv_counts s"
  "run_kube m s = (r', s') \<Longrightarrow> sv_counts s' = sv_counts s"
  "audited su ck req rpc ns nm sv rv_of m s = (r', s') \<Longrightarrow> sv_counts s' = sv_counts s"
  by (auto simp: rate_limit_apply_def run_kube_def audited_def Let_def dest: request_id_eqD(3)
      split: prod.splits)

lemma emit_records_counts:
  "sv_counts (foldl (\<lambda>s i. emit_record su (f i) s) s items) = sv_counts s"
  by (induction items arbitrary: s) simp_all

lemma case_prod_eq: "(case p of (a, b) \<Rightarrow> f a b) = q \<longleftrightarrow> (\<exists>a b. p = (a, b) \<and> f a b = q)"
  by (cases p) auto

lemma serve_counts_others:
  assumes "serve su ck c s = (r, s')" "\<not> is_subscribe c"
  shows "sv_counts s' = sv_counts s"
  using assms
  by (cases c)
    (auto dest!: outcome_eqD counts_frame_eqD read_audit_capture_eqD(3) request_id_eqD(3)
      simp: io_bind_cases Let_def rpc_get_def rpc_get_all_def rpc_apply_def rpc_batch_apply_def
        rpc_dry_run_apply_def rpc_revert_def rpc_get_secret_def rpc_get_all_secrets_def rpc_apply_secret_def
        emit_records_counts case_prod_eq)

text \<open>An admission whose handler then fails.\<close>

lemma release_guard_sv_counts:
  "sv_counts (release_guard g s) = (case g of None \<Rightarrow> id | Some i \<Rightarrow> sc_release i) (sv_counts s)"
  by (simp add: release_guard_def split: option.splits)

lemma release_guard_counts:
  assumes "admit_subscriber su req s = (Inr g, s1)" "sv_counts s2 = sv_counts s1"
    and "unat (sc_current (sv_counts s) (ci_id (caller su req))) < 2 ^ 32 - 1"
  shows "sc_current (sv_counts (release_guard g s2)) j = sc_current (sv_counts s) j"
proof -
  let ?i = "ci_id (caller su req)"
  have "saturating_sub (sc_current (sv_counts s) ?i + 1) 1 = sc_current (sv_counts s) ?i"
    using assms(3) by (simp add: word_unat_eq_iff unat_saturating_sub unat_u32_Suc)
  then show ?thesis
    using admit_subscriber_current [OF assms(1)] assms(2)
    by (simp add: release_guard_def sc_release_current)
qed

lemma serve_counts_subscribe:
  assumes run: "serve su ck c s = (r, s')" and c: "is_subscribe c"
    and room: "unat (sc_current (sv_counts s) (ci_id (identity_of su c))) < 2 ^ 32 - 1"
  shows "sc_current (sv_counts s') j = sc_current (sv_counts s) j +
    (if su_quota_mode su \<noteq> QDisabled \<and> r = Inr () \<and> j = ci_id (identity_of su c) then 1 else 0)"
proof (cases c)
  case (CSubscribe req)
  have i: "identity_of su c = caller su req" by (simp add: CSubscribe identity_of_caller)
  let ?s = "log_rpc_entry su req s"
  from run CSubscribe consider
      "\<exists>e. r = Inl e" "sv_counts s' = sv_counts s"
    | e where "r = Inl e" "admit_subscriber su req ?s = (Inl e, s')"
    | e g s1 rg where "r = Inl e" "admit_subscriber su req ?s = (Inr g, s1)" "s' = release_guard g (s1\<lparr>sv_registry := rg\<rparr>)"
    | g s1 rg where "r = Inr ()" "admit_subscriber su req ?s = (Inr g, s1)" "s' = s1\<lparr>sv_registry := rg\<rparr>"
    by (auto dest!: outcome_eqD simp: rpc_subscribe_def Let_def io_bind_cases handled_cases)
  then show ?thesis
    by cases (use room in \<open>auto simp: i admit_refused_current release_guard_counts admit_subscriber_current\<close>)
next
  case (CSubscribeSecrets reader req)
  have i: "identity_of su c = caller su req" by (simp add: CSubscribeSecrets identity_of_caller)
  let ?s = "log_rpc_entry su req s"
  from run CSubscribeSecrets consider
      "\<exists>e. r = Inl e" "sv_counts s' = sv_counts s"
    | e where "r = Inl e" "admit_subscriber su req ?s = (Inl e, s')"
    | e g s1 where "r = Inl e" "admit_subscriber su req ?s = (Inr g, s1)"
        "sv_counts s' = sv_counts (release_guard g s1)"
    | g s1 where "r = Inr ()" "admit_subscriber su req ?s = (Inr g, s1)" "sv_counts s' = sv_counts s1"
    by (auto dest!: outcome_eqD read_audit_capture_eqD(3) simp: rpc_subscribe_secrets_def Let_def io_bind_cases
        case_prod_eq)
      (auto simp: release_guard_sv_counts split: sum.split_asm)
  then show ?thesis
    by cases (use room in \<open>auto simp: i admit_refused_current release_guard_counts admit_subscriber_current\<close>)
qed (use c in simp_all)

section \<open>Drain\<close>

lemma drained_guard:
  "sv_draining s \<Longrightarrow> io_bind (guard check_drain) f s = (Inl (Status Unavailable ''server draining''), s)"
  by (simp add: io_bind_def guard_def check_drain_def)

lemma log_rpc_entry_frame:
  "log_rpc_entry su req s = s\<lparr>sv_seq := sv_seq (log_rpc_entry su req s)\<rparr>"
  unfolding log_rpc_entry_def by (rule request_id_frame)

lemma drained_outcome:
  assumes "\<And>s. m s = io_bind (guard check_drain) f (log_rpc_entry su req s)"
  shows "\<exists>n. outcome m (begin_drain s) =
    (Inl (Status Unavailable ''server draining''), (begin_drain s)\<lparr>sv_seq := n\<rparr>)"
proof -
  have "sv_draining (log_rpc_entry su req (begin_drain s))" by (simp add: begin_drain_def)
  then have "outcome m (begin_drain s) =
      (Inl (Status Unavailable ''server draining''), log_rpc_entry su req (begin_drain s))"
    by (simp add: outcome_def assms drained_guard)
  then show ?thesis by (metis log_rpc_entry_frame)
qed

lemmas guarded_rpcs = rpc_get_def rpc_get_all_def rpc_subscribe_def rpc_apply_def rpc_batch_apply_def
  rpc_dry_run_apply_def rpc_get_secret_def rpc_get_all_secrets_def rpc_subscribe_secrets_def
  rpc_apply_secret_def

lemma drain_commutes:
  "request_id su req (begin_drain s) = (case request_id su req s of (rid, s') \<Rightarrow> (rid, begin_drain s'))"
  "log_rpc_entry su req (begin_drain s) = begin_drain (log_rpc_entry su req s)"
  "run_kube m (begin_drain s) = (case run_kube m s of (x, s') \<Rightarrow> (x, begin_drain s'))"
  "emit_record su rec (begin_drain s) = begin_drain (emit_record su rec s)"
  by (simp_all add: request_id_def log_rpc_entry_def begin_drain_def run_kube_def emit_record_def
      maybe_emit_k8s_event_def audit_emit_def Let_def split: option.splits prod.splits)

lemma revert_drain_commutes:
  "rpc_revert su ck req (begin_drain s) = (case rpc_revert su ck req s of (r, s') \<Rightarrow> (r, begin_drain s'))"
  by (auto simp: rpc_revert_def audited_def io_bind_def io_of_def drain_commutes Let_def
      split: sum.splits prod.splits)

section \<open>Properties\<close>

text \<open>Property C2. A call either fails and leaves the cluster and the audit log as they were, or the
  server was not draining (\<open>Revert\<close> excepted), the access policy allows the caller the verb the call
  needs on every target, and, for a write or a secret read, the audit log has gained exactly one
  record for each target, in order, with the identity of the caller and the outcome returned to it;
  a call that only reads never changes the cluster.\<close>

theorem calls_guarded_and_audited:
  assumes "serve su ck c s = (r, s')"
  shows "(\<exists>e. r = Inl e) \<and> sv_kube s' = sv_kube s \<and> sv_audit s' = sv_audit s \<or>
    (is_revert c \<or> \<not> sv_draining s) \<and> permitted su c \<and>
    (if is_audited c then log_gains (ci_id (identity_of su c)) (result_str r) (snd (needs c)) s s'
     else sv_audit s' = sv_audit s) \<and>
    (fst (needs c) = Read \<longrightarrow> sv_kube s' = sv_kube s)"
  using serve_conduct [OF assms] by (simp add: conduct_def untouched_def)

text \<open>Property C28. While the server drains, every call is refused with \<open>UNAVAILABLE\<close> and nothing but the
  request-id counter moves; \<open>Revert\<close> alone runs as if the server were not draining.\<close>

theorem drain_refuses_all_but_revert:
  "if is_revert c
   then serve su ck c (begin_drain s) = (case serve su ck c s of (r, s') \<Rightarrow> (r, begin_drain s'))
   else \<exists>n. serve su ck c (begin_drain s) =
     (Inl (Status Unavailable ''server draining''), (begin_drain s)\<lparr>sv_seq := n\<rparr>)"
proof (cases "is_revert c")
  case True
  then obtain req where "c = CRevert req" by (cases c) simp_all
  then show ?thesis
    by (simp add: outcome_def revert_drain_commutes split: prod.splits)
next
  case False
  have "\<exists>n. serve su ck c (begin_drain s) =
      (Inl (Status Unavailable ''server draining''), (begin_drain s)\<lparr>sv_seq := n\<rparr>)"
    using False
    by (cases c) (simp_all, (rule drained_outcome, simp only: guarded_rpcs Let_def)+)
  with False show ?thesis by simp
qed

text \<open>The slots held after a call: a subscription that was opened holds one more slot of
  its caller, and no other call and no refused or failed subscription changes the count of anybody.\<close>

lemma calls_account_slots:
  assumes "serve su ck c s = (r, s')"
    and "unat (sc_current (sv_counts s) (ci_id (identity_of su c))) < 2 ^ 32 - 1"
  shows "sc_current (sv_counts s') j = sc_current (sv_counts s) j +
    (if is_subscribe c \<and> su_quota_mode su \<noteq> QDisabled \<and> r = Inr () \<and> j = ci_id (identity_of su c) then 1 else 0)"
  using serve_counts_subscribe [OF assms(1) _ assms(2)] serve_counts_others [OF assms(1)]
  by (cases "is_subscribe c") simp_all


text \<open>A server on the demonstration cluster: no access control, and one stream for each tenant.\<close>

definition demo_setup :: "(demo_world, json) server_setup" where
  "demo_setup = \<lparr>su_kube = demo_kube, su_codecs = demo_codecs, su_schema_lib = demo_schema_lib,
     su_parse_x509 = (\<lambda>_. None), su_start_nanos = 1, su_k8s_events_env = None, su_broadcast_shards = 1,
     su_authz_mode = Disabled, su_acl_table = [], su_acl_synced = True, su_schema_table = [],
     su_quota_mode = QEnforce, su_quota_table = [], su_quota_synced = True, su_default_max_subscribers = 1,
     su_default_max_applies_per_second = 0, su_default_cache_budget_bytes = 0\<rparr>"

definition demo_server :: "demo_world server" where
  "demo_server = \<lparr>sv_kube = ([], 0), sv_cache = config_cache_new (config_snapshot_default 0),
     sv_secret_cache = secret_cache_new, sv_registry = registry_new,
     sv_secret_broadcasts = [(''ns'', 0)], sv_draining = False, sv_counts = subscriber_counts_new,
     sv_limiter = [], sv_ledger = ledger_new, sv_seq = 0, sv_audit = [], sv_k8s_events = []\<rparr>"

definition demo_call :: "'a \<Rightarrow> 'a request" where
  "demo_call b = \<lparr>rq_body = b, rq_peer_certs = None, rq_remote_addr = None, rq_request_id = Some ''r''\<rparr>"

abbreviation demo_clocks :: clocks where
  "demo_clocks \<equiv> \<lparr>ck_now = 0, ck_epoch_ms = 0\<rparr>"

lemma demo_request_id: "request_id su (demo_call b) s = (''r'', s)"
  by (simp add: request_id_def demo_call_def trim_def trim_start_def trim_end_def
      strip_by_stop ws_len_def ws_len_rev_def ws1_def ws2_def ws3_def Let_def)

lemma demo_apply_served:
  "\<exists>s'. serve demo_setup demo_clocks (CApply (demo_call (demo_req ''a'' ''3''))) demo_server = (Inr (), s') \<and>
     sv_kube s' \<noteq> sv_kube demo_server"
proof -
  have body: "rq_body (demo_call b) = b" for b :: apply_request by (simp add: demo_call_def)
  show ?thesis
    using demo_apply
    by (auto simp: outcome_def rpc_apply_def io_bind_def guard_def check_drain_def io_of_def authorize_def
      rate_limit_apply_def apply_admission_def effective_apply_rate_def quota_for_def audited_def run_kube_def
      log_rpc_entry_def demo_request_id body demo_setup_def demo_server_def emit_record_def
      maybe_emit_k8s_event_def audit_emit_def Let_def)
qed

theorem calls_guarded_and_audited_witness:
  "\<exists>s'. serve demo_setup demo_clocks (CApply (demo_call (demo_req ''a'' ''3''))) demo_server = (Inr (), s') \<and>
     sv_kube s' \<noteq> sv_kube demo_server \<and>
     log_gains (ci_id identity_anonymous) ''success'' [(''ns'', ''a'')] demo_server s'"
proof -
  from demo_apply_served obtain s' where
    run: "serve demo_setup demo_clocks (CApply (demo_call (demo_req ''a'' ''3''))) demo_server = (Inr (), s')"
      "sv_kube s' \<noteq> sv_kube demo_server" by blast
  with calls_guarded_and_audited [OF run(1)] show ?thesis
    by (auto simp: demo_call_def demo_req_def identity_of_def extract_identity_def result_str_def)
qed

text \<open>The one slot of the tenant is taken by its stream.\<close>

lemma demo_subscribe_served:
  "\<exists>s'. serve demo_setup demo_clocks (CSubscribeSecrets [] (demo_call demo_secret_req)) demo_server = (Inr (), s')"
proof -
  have body: "rq_body (demo_call b) = b" for b :: subscribe_secrets_request by (simp add: demo_call_def)
  show ?thesis
    using demo_secret_subscribe
    by (simp add: outcome_def rpc_subscribe_secrets_def io_bind_def guard_def check_drain_def io_of_def authorize_def
      admit_subscriber_def sc_admit_def try_increment_def effective_subscriber_limit_def quota_for_def
      log_rpc_entry_def demo_request_id body demo_setup_def demo_server_def read_audit_capture_def
      subscriber_counts_new_def sc_current_def Let_def)
qed

end
