(* ===== verification/Http_Gateway.thy ===== *)
theory Http_Gateway
  imports Service
begin

text \<open>
  The HTTP/JSON gateway (\<open>grpc/http_gateway.rs\<close>): token gate, transcoding of the unary and finite
  streaming calls to the service of \<open>Service\<close>, REST aliases, readiness probe, and the Server-Sent
  Events framing of the subscriptions. Matching a path to its handler is axum's; the JSON coding of
  the protobuf messages and the conversion of header values are parameters.
\<close>

section \<open>Requests, responses, libraries\<close>

record http_gateway_config =
  hg_auth_token :: "string option"
  hg_cors_allow_origin :: "string option"
  hg_insecure :: bool

text \<open>A header map, with its names in lower case.\<close>

type_synonym header_map = "(string \<times> string) list"

record gateway_lib =
  gl_header_ok :: "string \<Rightarrow> bool"
  gl_to_str :: "string \<Rightarrow> string option"
  gl_decode_get :: "string \<Rightarrow> string + get_request"
  gl_decode_get_all :: "string \<Rightarrow> string + string"
  gl_decode_apply :: "string \<Rightarrow> string + apply_request"
  gl_decode_batch :: "string \<Rightarrow> string + apply_request list"
  gl_decode_revert :: "string \<Rightarrow> string + revert_request"
  gl_encode_config :: "config_msg \<Rightarrow> string + string"
  gl_encode_secret :: "secret_msg \<Rightarrow> string + string"
  gl_encode_apply :: "string \<Rightarrow> string + string"
  gl_encode_batch :: "batch_apply_result list \<Rightarrow> string + string"
  gl_encode_dry_run :: "dry_run_response \<Rightarrow> string + string"
  gl_encode_revert :: "revert_response \<Rightarrow> string + string"
  gl_encode_apply_secret :: "string \<Rightarrow> string + string"

text \<open>A body is a byte string, the chunks of a JSON array with the accountant that charges them as they
  are read, or an open subscription whose events are framed as they arrive.\<close>

datatype http_body =
  B_bytes string
| B_array "string list" "cache_accountant option"
| B_config_sse "(subscribe_filter \<times> nat \<times> nat \<times> nat) \<times> cache_accountant option \<times> string option"
| B_secret_sse "(secret_task \<times> secret_event channel) \<times> cache_accountant option \<times> string option"

record http_response =
  hr_status :: nat
  hr_headers :: header_map
  hr_body :: http_body

text \<open>\<open>Builder::body\<close> fails when a header value was not acceptable; every caller answers that with a bare
  500.\<close>

definition build_response :: "gateway_lib \<Rightarrow> nat \<Rightarrow> header_map \<Rightarrow> http_body \<Rightarrow> http_response" where
  "build_response gl st hs b =
     (if list_all (\<lambda>h. gl_header_ok gl (snd h)) hs
      then \<lparr>hr_status = st, hr_headers = hs, hr_body = b\<rparr>
      else \<lparr>hr_status = 500, hr_headers = [], hr_body = B_bytes []\<rparr>)"

section \<open>Status codes and error bodies\<close>

fun status_to_http :: "code \<Rightarrow> nat" where
  "status_to_http Ok_code = 200"
| "status_to_http InvalidArgument = 400"
| "status_to_http Unauthenticated = 401"
| "status_to_http PermissionDenied = 403"
| "status_to_http NotFound = 404"
| "status_to_http AlreadyExists = 409"
| "status_to_http FailedPrecondition = 412"
| "status_to_http ResourceExhausted = 429"
| "status_to_http Unavailable = 503"
| "status_to_http Unimplemented = 501"
| "status_to_http DeadlineExceeded = 504"
| "status_to_http _ = 500"

fun code_name :: "code \<Rightarrow> string" where
  "code_name Ok_code = ''ok''"
| "code_name Cancelled = ''cancelled''"
| "code_name Unknown = ''unknown''"
| "code_name InvalidArgument = ''invalid_argument''"
| "code_name DeadlineExceeded = ''deadline_exceeded''"
| "code_name NotFound = ''not_found''"
| "code_name AlreadyExists = ''already_exists''"
| "code_name PermissionDenied = ''permission_denied''"
| "code_name ResourceExhausted = ''resource_exhausted''"
| "code_name FailedPrecondition = ''failed_precondition''"
| "code_name Aborted = ''aborted''"
| "code_name OutOfRange = ''out_of_range''"
| "code_name Unimplemented = ''unimplemented''"
| "code_name Internal = ''internal''"
| "code_name Unavailable = ''unavailable''"
| "code_name DataLoss = ''data_loss''"
| "code_name Unauthenticated = ''unauthenticated''"

type_synonym gateway_error = "nat \<times> string \<times> string"

definition status_to_error :: "status \<Rightarrow> gateway_error" where
  "status_to_error s = (status_to_http (st_code s), code_name (st_code s), st_msg s)"

definition dquote :: string where
  "dquote = [CHR 0x22]"

definition quoted :: "string \<Rightarrow> string" where
  "quoted s = dquote @ s @ dquote"

definition error_body :: "codecs \<Rightarrow> string \<Rightarrow> string \<Rightarrow> string" where
  "error_body cd code message =
     (case to_json_string cd (JObj [(''code'', JStr code), (''message'', JStr message)]) of
        Inr s \<Rightarrow> s
      | Inl _ \<Rightarrow> ''{'' @ quoted ''code'' @ '':'' @ quoted ''internal'' @ '','' @ quoted ''message'' @ '':'' @
          quoted ''error encode failed'' @ ''}'')"

section \<open>Token gate, CORS\<close>

definition tokens_match :: "string \<Rightarrow> string \<Rightarrow> bool" where
  "tokens_match provided expected =
     (if length provided \<noteq> length expected then False
      else foldl (\<lambda>diff (x, y). or diff (xor (of_nat (byte x)) (of_nat (byte y)))) (0 :: 8 word) (zip provided expected) = 0)"

definition cors_headers :: "http_gateway_config \<Rightarrow> header_map" where
  "cors_headers cfg = (case hg_cors_allow_origin cfg of
       Some origin \<Rightarrow> if origin \<noteq> [] then [(''access-control-allow-origin'', origin), (''vary'', ''origin'')] else []
     | None \<Rightarrow> [])"

definition json_response :: "gateway_lib \<Rightarrow> http_gateway_config \<Rightarrow> nat \<Rightarrow> string \<Rightarrow> http_response" where
  "json_response gl cfg st body =
     build_response gl st ([(''content-type'', ''application/json'')] @ cors_headers cfg) (B_bytes body)"

definition cors_preflight :: "gateway_lib \<Rightarrow> http_gateway_config \<Rightarrow> http_response" where
  "cors_preflight gl cfg = build_response gl 204
     (cors_headers cfg @ [(''access-control-allow-methods'', ''GET, POST, OPTIONS''),
        (''access-control-allow-headers'', ''content-type, authorization''),
        (''access-control-max-age'', ''600'')]) (B_bytes [])"

definition eq_ignore_ascii_case :: "string \<Rightarrow> string \<Rightarrow> bool" where
  "eq_ignore_ascii_case a b \<longleftrightarrow> to_ascii_lowercase a = to_ascii_lowercase b"

definition strip_bearer_prefix :: "string \<Rightarrow> string option" where
  "strip_bearer_prefix v = (case split_once (CHR '' '') (trim_start v) of
       None \<Rightarrow> None
     | Some (scheme, tok) \<Rightarrow> if eq_ignore_ascii_case scheme ''Bearer'' then Some tok else None)"

definition header_str :: "gateway_lib \<Rightarrow> header_map \<Rightarrow> string \<Rightarrow> string option" where
  "header_str gl hs name = Option.bind (map_of hs name) (gl_to_str gl)"

definition provided_token :: "gateway_lib \<Rightarrow> header_map \<Rightarrow> string" where
  "provided_token gl hs = (case Option.bind (header_str gl hs ''authorization'') strip_bearer_prefix of
       Some t \<Rightarrow> trim t | None \<Rightarrow> [])"

definition check_auth ::
  "gateway_lib \<Rightarrow> codecs \<Rightarrow> http_gateway_config \<Rightarrow> header_map \<Rightarrow> http_response option" where
  "check_auth gl cd cfg hs =
     (if hg_insecure cfg then None
      else let expected = (case hg_auth_token cfg of Some t \<Rightarrow> t | None \<Rightarrow> [])
           in if expected \<noteq> [] \<and> tokens_match (provided_token gl hs) expected then None
              else Some (json_response gl cfg 401
                     (error_body cd ''unauthenticated'' ''missing or invalid bearer token'')))"

section \<open>Transcoding\<close>

definition decode_request :: "'q \<Rightarrow> (string \<Rightarrow> string + 'q) \<Rightarrow> string \<Rightarrow> gateway_error + 'q" where
  "decode_request dflt dec body =
     (if body = [] then Inr dflt
      else case dec body of
          Inr q \<Rightarrow> Inr q
        | Inl e \<Rightarrow> Inl (400, ''invalid_argument'', ''invalid JSON request body: '' @ e))"

definition encode_response :: "('p \<Rightarrow> string + string) \<Rightarrow> 'p \<Rightarrow> gateway_error + string" where
  "encode_response enc p = (case enc p of
       Inr s \<Rightarrow> Inr s | Inl e \<Rightarrow> Inl (500, ''internal'', ''response serialize failed: '' @ e))"

text \<open>\<open>Request::new\<close>: no certificate, no peer address, no metadata.\<close>

definition request_new :: "'q \<Rightarrow> 'q request" where
  "request_new q = \<lparr>rq_body = q, rq_peer_certs = None, rq_remote_addr = None, rq_request_id = None\<rparr>"

definition run_unary ::
  "'q \<Rightarrow> (string \<Rightarrow> string + 'q) \<Rightarrow> ('p \<Rightarrow> string + string) \<Rightarrow> string \<Rightarrow> ('q request \<Rightarrow> ('w server, 'p) io) \<Rightarrow>
   'w server \<Rightarrow> (gateway_error + string) \<times> 'w server" where
  "run_unary dflt dec enc body call s = (case decode_request dflt dec body of
       Inl e \<Rightarrow> (Inl e, s)
     | Inr q \<Rightarrow> (case call (request_new q) s of
           (Inl st, s') \<Rightarrow> (Inl (status_to_error st), s')
         | (Inr p, s') \<Rightarrow> (encode_response enc p, s')))"

text \<open>The chunks of a streamed JSON array: one for each item, then the closing one. An error of the
  stream, or an item that cannot be encoded, closes the array.\<close>

definition close_array :: "nat \<Rightarrow> string" where
  "close_array count = (if count = 0 then ''[]'' else '']'')"

fun stream_json_array :: "('i \<Rightarrow> string + string) \<Rightarrow> nat \<Rightarrow> 'i rpc list \<Rightarrow> string list" where
  "stream_json_array enc count [] = [close_array count]"
| "stream_json_array enc count (Inl st # items) = [close_array count]"
| "stream_json_array enc count (Inr i # items) = (case enc i of
       Inl _ \<Rightarrow> [close_array count]
     | Inr j \<Rightarrow> ((if count = 0 then ''['' else '','') @ j) # stream_json_array enc (count + 1) items)"

definition json_streaming_response ::
  "gateway_lib \<Rightarrow> http_gateway_config \<Rightarrow> string list \<Rightarrow> cache_accountant option \<Rightarrow> http_response" where
  "json_streaming_response gl cfg chunks acct =
     build_response gl 200 ([(''content-type'', ''application/json'')] @ cors_headers cfg) (B_array chunks acct)"

definition error_response :: "gateway_lib \<Rightarrow> codecs \<Rightarrow> http_gateway_config \<Rightarrow> gateway_error \<Rightarrow> http_response" where
  "error_response gl cd cfg e = (case e of (st, code, message) \<Rightarrow> json_response gl cfg st (error_body cd code message))"

definition run_server_streaming ::
  "gateway_lib \<Rightarrow> codecs \<Rightarrow> http_gateway_config \<Rightarrow> 'q \<Rightarrow> (string \<Rightarrow> string + 'q) \<Rightarrow> ('i \<Rightarrow> string + string) \<Rightarrow> string \<Rightarrow>
   ('q request \<Rightarrow> ('w server, 'i list \<times> cache_accountant option) io) \<Rightarrow> 'w server \<Rightarrow> http_response \<times> 'w server" where
  "run_server_streaming gl cd cfg dflt dec enc body call s = (case decode_request dflt dec body of
       Inl e \<Rightarrow> (error_response gl cd cfg e, s)
     | Inr q \<Rightarrow> (case call (request_new q) s of
           (Inl st, s') \<Rightarrow> (error_response gl cd cfg (status_to_error st), s')
         | (Inr (items, acct), s') \<Rightarrow>
             (json_streaming_response gl cfg (stream_json_array enc 0 (map Inr items)) acct, s')))"


section \<open>Handlers\<close>

definition get_request_default :: get_request where
  "get_request_default = \<lparr>gr_namespace = [], gr_name = []\<rparr>"

definition apply_request_default :: apply_request where
  "apply_request_default = \<lparr>ar_namespace = [], ar_name = [], ar_yaml_content = []\<rparr>"

definition revert_request_default :: revert_request where
  "revert_request_default = \<lparr>rvq_namespace = [], rvq_name = [], rvq_to_resource_version = []\<rparr>"

definition finish ::
  "gateway_lib \<Rightarrow> codecs \<Rightarrow> http_gateway_config \<Rightarrow> (gateway_error + string) \<times> 'w server \<Rightarrow> http_response \<times> 'w server" where
  "finish gl cd cfg out = (case out of
       (Inr json, s) \<Rightarrow> (json_response gl cfg 200 json, s)
     | (Inl e, s) \<Rightarrow> (error_response gl cd cfg e, s))"

definition dispatch ::
  "gateway_lib \<Rightarrow> ('w, 'v) server_setup \<Rightarrow> clocks \<Rightarrow> http_gateway_config \<Rightarrow> string \<Rightarrow> header_map \<Rightarrow> string \<Rightarrow> string \<Rightarrow>
   'w server \<Rightarrow> http_response \<times> 'w server" where
  "dispatch gl su ck cfg meth hs rpc body s =
     (let cd = su_codecs su in
      if meth = ''OPTIONS'' then (cors_preflight gl cfg, s)
      else if meth \<noteq> ''POST'' then
        (json_response gl cfg 405 (error_body cd ''method_not_allowed'' ''only POST and OPTIONS are supported''), s)
      else case check_auth gl cd cfg hs of
          Some resp \<Rightarrow> (resp, s)
        | None \<Rightarrow>
            if rpc = ''Get'' then finish gl cd cfg
              (run_unary get_request_default (gl_decode_get gl) (gl_encode_config gl) body (rpc_get su ck) s)
            else if rpc = ''GetAll'' then
              run_server_streaming gl cd cfg [] (gl_decode_get_all gl) (gl_encode_config gl) body (rpc_get_all su ck) s
            else if rpc = ''Apply'' then finish gl cd cfg
              (run_unary apply_request_default (gl_decode_apply gl) (gl_encode_apply gl) body (rpc_apply su ck) s)
            else if rpc = ''BatchApply'' then finish gl cd cfg
              (run_unary [] (gl_decode_batch gl) (gl_encode_batch gl) body (rpc_batch_apply su ck) s)
            else if rpc = ''DryRunApply'' then finish gl cd cfg
              (run_unary apply_request_default (gl_decode_apply gl) (gl_encode_dry_run gl) body (rpc_dry_run_apply su ck) s)
            else if rpc = ''Revert'' then finish gl cd cfg
              (run_unary revert_request_default (gl_decode_revert gl) (gl_encode_revert gl) body (rpc_revert su ck) s)
            else if rpc = ''GetSecret'' then finish gl cd cfg
              (run_unary get_request_default (gl_decode_get gl) (gl_encode_secret gl) body (rpc_get_secret su ck) s)
            else if rpc = ''GetAllSecrets'' then
              run_server_streaming gl cd cfg [] (gl_decode_get_all gl) (gl_encode_secret gl) body (rpc_get_all_secrets su ck) s
            else if rpc = ''ApplySecret'' then finish gl cd cfg
              (run_unary apply_request_default (gl_decode_apply gl) (gl_encode_apply_secret gl) body (rpc_apply_secret su ck) s)
            else if rpc = ''Subscribe'' \<or> rpc = ''SubscribeSecrets'' then
              (json_response gl cfg 501 (error_body cd ''unimplemented''
                 ''streaming RPCs are served via the SSE endpoint, not the JSON gateway''), s)
            else (json_response gl cfg 404 (error_body cd ''not_found'' (''unknown method '' @
                 [CHR 0x27] @ rpc @ [CHR 0x27])), s))"

definition rest_get_config ::
  "gateway_lib \<Rightarrow> ('w, 'v) server_setup \<Rightarrow> clocks \<Rightarrow> http_gateway_config \<Rightarrow> string \<Rightarrow> string \<Rightarrow> header_map \<Rightarrow>
   'w server \<Rightarrow> http_response \<times> 'w server" where
  "rest_get_config gl su ck cfg ns nm hs s =
     (let cd = su_codecs su in
      case check_auth gl cd cfg hs of
        Some deny \<Rightarrow> (deny, s)
      | None \<Rightarrow> (case rpc_get su ck (request_new \<lparr>gr_namespace = ns, gr_name = nm\<rparr>) s of
            (Inr p, s') \<Rightarrow> finish gl cd cfg (encode_response (gl_encode_config gl) p, s')
          | (Inl st, s') \<Rightarrow> (error_response gl cd cfg (status_to_error st), s')))"

definition rest_get_all_configs ::
  "gateway_lib \<Rightarrow> ('w, 'v) server_setup \<Rightarrow> clocks \<Rightarrow> http_gateway_config \<Rightarrow> string \<Rightarrow> header_map \<Rightarrow>
   'w server \<Rightarrow> http_response \<times> 'w server" where
  "rest_get_all_configs gl su ck cfg ns hs s =
     (let cd = su_codecs su in
      case check_auth gl cd cfg hs of
        Some deny \<Rightarrow> (deny, s)
      | None \<Rightarrow> (case rpc_get_all su ck (request_new ns) s of
            (Inr (items, acct), s') \<Rightarrow>
              (json_streaming_response gl cfg (stream_json_array (gl_encode_config gl) 0 (map Inr items)) acct, s')
          | (Inl st, s') \<Rightarrow> (error_response gl cd cfg (status_to_error st), s')))"

definition healthz :: "gateway_lib \<Rightarrow> codecs \<Rightarrow> http_gateway_config \<Rightarrow> config_cache \<Rightarrow> http_response" where
  "healthz gl cd cfg cache =
     (let ready = config_cache_is_populated cache;
          (st, str) = (if ready then (200, ''ok'') else (503, ''warming''));
          body = (case to_json_string cd (JObj [(''status'', JStr str), (''cache_ready'', JBool ready)]) of
              Inr b \<Rightarrow> b
            | Inl _ \<Rightarrow> ''{'' @ quoted ''status'' @ '':'' @ quoted ''error'' @ '','' @ quoted ''cache_ready'' @ '':false}'')
      in build_response gl st ([(''content-type'', ''application/json'')] @ cors_headers cfg @
           (if ready then [] else [(''retry-after'', ''1'')])) (B_bytes body))"

section \<open>Server-Sent Events\<close>

fun event_type_i32 :: "event_type \<Rightarrow> int" where
  "event_type_i32 Added = 0"
| "event_type_i32 Modified = 1"
| "event_type_i32 Deleted = 2"
| "event_type_i32 Snapshot = 3"

definition event_type_name :: "int \<Rightarrow> string" where
  "event_type_name t = (if t = 0 then ''ADDED'' else if t = 1 then ''MODIFIED'' else if t = 2 then ''DELETED''
     else if t = 3 then ''SNAPSHOT'' else ''MODIFIED'')"

abbreviation newline :: char where
  "newline \<equiv> CHR 0x0A"

definition sse_frame :: "string \<Rightarrow> string \<Rightarrow> string \<Rightarrow> string" where
  "sse_frame event eid data =
     ''event: '' @ event @ [newline] @ (if eid \<noteq> [] then ''id: '' @ eid @ [newline] else []) @
     ''data: '' @ data @ [newline, newline]"

definition frame_config_event :: "gateway_lib \<Rightarrow> config_event \<Rightarrow> string" where
  "frame_config_event gl ev = (let name = event_type_name (event_type_i32 (ce_type ev)) in
     case ce_config ev of
       Some c \<Rightarrow> sse_frame name (cm_resource_version c)
                   (case gl_encode_config gl c of Inr j \<Rightarrow> j | Inl _ \<Rightarrow> ''{}'')
     | None \<Rightarrow> sse_frame name [] ''{}'')"

definition frame_secret_event :: "gateway_lib \<Rightarrow> secret_event \<Rightarrow> string" where
  "frame_secret_event gl ev = (let name = event_type_name (event_type_i32 (se_type ev)) in
     case se_secret ev of
       Some c \<Rightarrow> sse_frame name (sm_resource_version c)
                   (case gl_encode_secret gl c of Inr j \<Rightarrow> j | Inl _ \<Rightarrow> ''{}'')
     | None \<Rightarrow> sse_frame name [] ''{}'')"

text \<open>\<open>Value::to_string\<close> does not fail; the encoder it uses is the total one.\<close>

definition terminal_frame :: "(json \<Rightarrow> string) \<Rightarrow> status \<Rightarrow> string" where
  "terminal_frame to_string st =
     (if st_code st = ResourceExhausted
      then sse_frame ''RELOAD'' [] (to_string (JObj [(''reason'', JStr ''lagged''), (''message'', JStr (st_msg st))]))
      else sse_frame ''error'' [] (to_string (JObj [(''code'', JStr (code_name (st_code st))),
             (''message'', JStr (st_msg st))])))"

text \<open>What the loop selects: an item or the end of the subscription, or a tick of the keep-alive timer.\<close>

datatype 'i sse_tick = Item "'i rpc" | Upstream_end | Keepalive

definition keepalive_frame :: string where
  "keepalive_frame = '': keep-alive'' @ [newline, newline]"

fun sse_event_stream :: "(json \<Rightarrow> string) \<Rightarrow> ('i \<Rightarrow> string) \<Rightarrow> 'i sse_tick list \<Rightarrow> string list" where
  "sse_event_stream ts to_frame [] = []"
| "sse_event_stream ts to_frame (Item (Inr e) # rest) = to_frame e # sse_event_stream ts to_frame rest"
| "sse_event_stream ts to_frame (Item (Inl st) # rest) = [terminal_frame ts st]"
| "sse_event_stream ts to_frame (Upstream_end # rest) = []"
| "sse_event_stream ts to_frame (Keepalive # rest) = keepalive_frame # sse_event_stream ts to_frame rest"

definition sse_response :: "gateway_lib \<Rightarrow> http_gateway_config \<Rightarrow> http_body \<Rightarrow> http_response" where
  "sse_response gl cfg b = build_response gl 200
     ([(''content-type'', ''text/event-stream''), (''cache-control'', ''no-cache''), (''x-accel-buffering'', ''no'')] @
      cors_headers cfg) b"

definition cache_not_ready :: "gateway_lib \<Rightarrow> codecs \<Rightarrow> http_gateway_config \<Rightarrow> http_response" where
  "cache_not_ready gl cd cfg = build_response gl 503
     ([(''retry-after'', ''1''), (''content-type'', ''application/json'')] @ cors_headers cfg)
     (B_bytes (error_body cd ''unavailable'' ''cache not ready; retry shortly''))"

definition last_event_id :: "gateway_lib \<Rightarrow> header_map \<Rightarrow> string" where
  "last_event_id gl hs = (case header_str gl hs ''last-event-id'' of Some v \<Rightarrow> v | None \<Rightarrow> [])"

definition config_subscribe_request :: "gateway_lib \<Rightarrow> string \<Rightarrow> string \<Rightarrow> header_map \<Rightarrow> subscribe_request" where
  "config_subscribe_request gl ns nm hs =
     \<lparr>sr_namespace = ns, sr_names = [nm], sr_label_selector = [], sr_resume_resource_version = last_event_id gl hs\<rparr>"

definition secret_subscribe_request :: "gateway_lib \<Rightarrow> string \<Rightarrow> string \<Rightarrow> header_map \<Rightarrow> subscribe_secrets_request" where
  "secret_subscribe_request gl ns nm hs =
     \<lparr>ssr_namespace = ns, ssr_names = [nm], ssr_resume_resource_version = last_event_id gl hs\<rparr>"

definition sse_config_watch ::
  "gateway_lib \<Rightarrow> ('w, 'v) server_setup \<Rightarrow> clocks \<Rightarrow> http_gateway_config \<Rightarrow> string \<Rightarrow> string \<Rightarrow> header_map \<Rightarrow>
   'w server \<Rightarrow> http_response \<times> 'w server" where
  "sse_config_watch gl su ck cfg ns nm hs s =
     (let cd = su_codecs su in
      case check_auth gl cd cfg hs of
        Some deny \<Rightarrow> (deny, s)
      | None \<Rightarrow>
          if \<not> config_cache_is_populated (sv_cache s) then (cache_not_ready gl cd cfg, s)
          else (case rpc_subscribe su ck (request_new (config_subscribe_request gl ns nm hs)) s of
              (Inr sub, s') \<Rightarrow> (sse_response gl cfg (B_config_sse sub), s')
            | (Inl st, s') \<Rightarrow> (error_response gl cd cfg (status_to_error st), s')))"

definition sse_secret_watch ::
  "gateway_lib \<Rightarrow> ('w, 'v) server_setup \<Rightarrow> clocks \<Rightarrow> nat option list \<Rightarrow> http_gateway_config \<Rightarrow> string \<Rightarrow> string \<Rightarrow>
   header_map \<Rightarrow> 'w server \<Rightarrow> http_response \<times> 'w server" where
  "sse_secret_watch gl su ck reader cfg ns nm hs s =
     (let cd = su_codecs su in
      case check_auth gl cd cfg hs of
        Some deny \<Rightarrow> (deny, s)
      | None \<Rightarrow>
          if \<not> secret_cache_is_populated (sv_secret_cache s) then (cache_not_ready gl cd cfg, s)
          else (case rpc_subscribe_secrets su ck reader (request_new (secret_subscribe_request gl ns nm hs)) s of
              (Inr sub, s') \<Rightarrow> (sse_response gl cfg (B_secret_sse sub), s')
            | (Inl st, s') \<Rightarrow> (error_response gl cd cfg (status_to_error st), s')))"

text \<open>The handler a route leads to.\<close>

datatype gateway_request =
  G_rpc string header_map string string
| G_config_watch string string header_map
| G_secret_watch string string header_map
| G_config string string header_map
| G_configs string header_map
| G_preflight
| G_healthz

fun serve_gateway ::
  "gateway_lib \<Rightarrow> ('w, 'v) server_setup \<Rightarrow> clocks \<Rightarrow> nat option list \<Rightarrow> http_gateway_config \<Rightarrow> gateway_request \<Rightarrow>
   'w server \<Rightarrow> http_response \<times> 'w server" where
  "serve_gateway gl su ck reader cfg (G_rpc meth hs rpc body) s = dispatch gl su ck cfg meth hs rpc body s"
| "serve_gateway gl su ck reader cfg (G_config_watch ns nm hs) s = sse_config_watch gl su ck cfg ns nm hs s"
| "serve_gateway gl su ck reader cfg (G_secret_watch ns nm hs) s = sse_secret_watch gl su ck reader cfg ns nm hs s"
| "serve_gateway gl su ck reader cfg (G_config ns nm hs) s = rest_get_config gl su ck cfg ns nm hs s"
| "serve_gateway gl su ck reader cfg (G_configs ns hs) s = rest_get_all_configs gl su ck cfg ns hs s"
| "serve_gateway gl su ck reader cfg G_preflight s = (cors_preflight gl cfg, s)"
| "serve_gateway gl su ck reader cfg G_healthz s = (healthz gl (su_codecs su) cfg (sv_cache s), s)"


section \<open>The token gate\<close>

lemma xor_word_0: "xor a b = (0 :: 'a::len word) \<longleftrightarrow> a = b"
proof
  assume "xor a b = 0"
  then have "xor (xor a b) b = b" by simp
  then show "a = b" by (simp add: xor.assoc)
qed simp

lemma byte_word_inj: "(of_nat (byte x) :: 8 word) = of_nat (byte y) \<longleftrightarrow> x = y"
  using nat_of_char_less_256 [of x] nat_of_char_less_256 [of y]
  by (simp add: word_of_nat_eq_iff take_bit_nat_eq_self)

lemma fold_diff:
  "foldl (\<lambda>diff (x, y). or diff (xor (of_nat (byte x)) (of_nat (byte y)))) (d :: 8 word) zs = 0 \<longleftrightarrow>
     d = 0 \<and> (\<forall>(x, y) \<in> set zs. x = y)"
  by (induction zs arbitrary: d) (auto simp: or_eq_0_iff xor_word_0 byte_word_inj)

lemma tokens_match_iff: "tokens_match a b \<longleftrightarrow> a = b"
  by (auto simp: tokens_match_def fold_diff list_eq_iff_zip_eq)

definition authorized :: "gateway_lib \<Rightarrow> http_gateway_config \<Rightarrow> header_map \<Rightarrow> bool" where
  "authorized gl cfg hs \<longleftrightarrow> hg_insecure cfg \<or>
     (\<exists>t. hg_auth_token cfg = Some t \<and> t \<noteq> [] \<and> provided_token gl hs = t)"

definition unauthorized_response :: "gateway_lib \<Rightarrow> codecs \<Rightarrow> http_gateway_config \<Rightarrow> http_response" where
  "unauthorized_response gl cd cfg =
     json_response gl cfg 401 (error_body cd ''unauthenticated'' ''missing or invalid bearer token'')"

lemma check_auth_eq:
  "check_auth gl cd cfg hs = (if authorized gl cfg hs then None else Some (unauthorized_response gl cd cfg))"
  by (auto simp: check_auth_def authorized_def unauthorized_response_def tokens_match_iff Let_def split: option.splits)

section \<open>The gateway adds nothing to the service\<close>

text \<open>The call of the service a request amounts to, if any.\<close>

definition decoded :: "'q \<Rightarrow> (string \<Rightarrow> string + 'q) \<Rightarrow> string \<Rightarrow> ('q request \<Rightarrow> rpc_call) \<Rightarrow> rpc_call option" where
  "decoded dflt dec body C = (case decode_request dflt dec body of Inl _ \<Rightarrow> None | Inr q \<Rightarrow> Some (C (request_new q)))"

definition rpc_named :: "gateway_lib \<Rightarrow> string \<Rightarrow> string \<Rightarrow> rpc_call option" where
  "rpc_named gl rpc body =
     (if rpc = ''Get'' then decoded get_request_default (gl_decode_get gl) body CGet
      else if rpc = ''GetAll'' then decoded [] (gl_decode_get_all gl) body CGetAll
      else if rpc = ''Apply'' then decoded apply_request_default (gl_decode_apply gl) body CApply
      else if rpc = ''BatchApply'' then decoded [] (gl_decode_batch gl) body CBatchApply
      else if rpc = ''DryRunApply'' then decoded apply_request_default (gl_decode_apply gl) body CDryRunApply
      else if rpc = ''Revert'' then decoded revert_request_default (gl_decode_revert gl) body CRevert
      else if rpc = ''GetSecret'' then decoded get_request_default (gl_decode_get gl) body CGetSecret
      else if rpc = ''GetAllSecrets'' then decoded [] (gl_decode_get_all gl) body CGetAllSecrets
      else if rpc = ''ApplySecret'' then decoded apply_request_default (gl_decode_apply gl) body CApplySecret
      else None)"

definition only_if :: "bool \<Rightarrow> 'a option \<Rightarrow> 'a option" where
  "only_if b x = (if b then x else None)"

fun gateway_call ::
  "gateway_lib \<Rightarrow> http_gateway_config \<Rightarrow> nat option list \<Rightarrow> 'w server \<Rightarrow> gateway_request \<Rightarrow> rpc_call option" where
  "gateway_call gl cfg reader s (G_rpc meth hs rpc body) =
     only_if (meth = ''POST'' \<and> authorized gl cfg hs) (rpc_named gl rpc body)"
| "gateway_call gl cfg reader s (G_config_watch ns nm hs) =
     only_if (authorized gl cfg hs \<and> config_cache_is_populated (sv_cache s))
       (Some (CSubscribe (request_new (config_subscribe_request gl ns nm hs))))"
| "gateway_call gl cfg reader s (G_secret_watch ns nm hs) =
     only_if (authorized gl cfg hs \<and> secret_cache_is_populated (sv_secret_cache s))
       (Some (CSubscribeSecrets reader (request_new (secret_subscribe_request gl ns nm hs))))"
| "gateway_call gl cfg reader s (G_config ns nm hs) =
     only_if (authorized gl cfg hs) (Some (CGet (request_new \<lparr>gr_namespace = ns, gr_name = nm\<rparr>)))"
| "gateway_call gl cfg reader s (G_configs ns hs) = only_if (authorized gl cfg hs) (Some (CGetAll (request_new ns)))"
| "gateway_call gl cfg reader s G_preflight = None"
| "gateway_call gl cfg reader s G_healthz = None"

text \<open>What the gateway makes of a call: the same effect on the server, the mapped status on an error, and
  on success a 200, or a 500 when the answer cannot be encoded or sent.\<close>

definition relays ::
  "gateway_lib \<Rightarrow> codecs \<Rightarrow> http_gateway_config \<Rightarrow> unit rpc \<times> 'w server \<Rightarrow> http_response \<times> 'w server \<Rightarrow> bool" where
  "relays gl cd cfg out resp \<longleftrightarrow> snd resp = snd out \<and>
     (case fst out of
        Inl e \<Rightarrow> fst resp = error_response gl cd cfg (status_to_error e)
      | Inr _ \<Rightarrow> hr_status (fst resp) = 200 \<or> hr_status (fst resp) = 500)"

lemma build_response_status: "hr_status (build_response gl st hs b) = st \<or> hr_status (build_response gl st hs b) = 500"
  by (simp add: build_response_def)

lemma relays_unary:
  assumes "serve su ck c = outcome (call (request_new q))" "decode_request dflt dec body = Inr q"
  shows "relays gl cd cfg (serve su ck c s) (finish gl cd cfg (run_unary dflt dec enc body call s))"
  using assms build_response_status
  by (auto simp: run_unary_def finish_def relays_def outcome_def encode_response_def json_response_def
      error_response_def split: sum.splits prod.splits)

lemma relays_streaming:
  assumes "serve su ck c = outcome (call (request_new q))" "decode_request dflt dec body = Inr q"
  shows "relays gl cd cfg (serve su ck c s) (run_server_streaming gl cd cfg dflt dec enc body call s)"
  using assms build_response_status
  by (auto simp: run_server_streaming_def relays_def outcome_def json_streaming_response_def
      split: sum.splits prod.splits)

lemma decoded_cases:
  "decoded dflt dec body C = Some c \<longleftrightarrow> (\<exists>q. decode_request dflt dec body = Inr q \<and> c = C (request_new q))"
  "decoded dflt dec body C = None \<longleftrightarrow> (\<exists>e. decode_request dflt dec body = Inl e)"
  by (auto simp: decoded_def split: sum.splits)

lemma undecoded:
  assumes "decode_request dflt dec body = Inl e"
  shows "snd (finish gl cd cfg (run_unary dflt dec enc body call s)) = s"
    and "snd (run_server_streaming gl cd cfg dflt dec enc' body call' s) = s"
  using assms by (simp_all add: run_unary_def run_server_streaming_def finish_def)

lemma dispatch_relays:
  assumes "authorized gl cfg hs" "rpc_named gl rpc body = Some c"
  shows "relays gl (su_codecs su) cfg (serve su ck c s) (dispatch gl su ck cfg ''POST'' hs rpc body s)"
  using assms unfolding rpc_named_def
  by (auto simp: dispatch_def check_auth_eq decoded_cases Let_def intro!: relays_unary relays_streaming
      split: if_splits)

lemma dispatch_inert:
  assumes "meth \<noteq> ''POST'' \<or> \<not> authorized gl cfg hs \<or> rpc_named gl rpc body = None"
  shows "snd (dispatch gl su ck cfg meth hs rpc body s) = s"
  using assms unfolding rpc_named_def
  by (auto simp: dispatch_def check_auth_eq decoded_cases undecoded Let_def split: if_splits)


lemma relays_watch:
  "relays gl cd cfg (outcome call s) (case call s of
      (Inl st, s') \<Rightarrow> (error_response gl cd cfg (status_to_error st), s')
    | (Inr sub, s') \<Rightarrow> (sse_response gl cfg (b sub), s'))"
  using build_response_status
  by (auto simp: relays_def outcome_def sse_response_def split: sum.splits prod.splits)

lemma serve_gateway_relays:
  assumes "gateway_call gl cfg reader s r = Some c"
  shows "relays gl (su_codecs su) cfg (serve su ck c s) (serve_gateway gl su ck reader cfg r s)"
proof (cases r)
  case (G_rpc meth hs rpc body)
  with assms show ?thesis by (auto simp: only_if_def dispatch_relays split: if_splits)
next
  case (G_config ns nm hs)
  with assms build_response_status show ?thesis
    by (auto simp: only_if_def rest_get_config_def check_auth_eq Let_def relays_def outcome_def finish_def
        encode_response_def json_response_def error_response_def split: if_splits sum.splits prod.splits)
next
  case (G_configs ns hs)
  with assms build_response_status show ?thesis
    by (auto simp: only_if_def rest_get_all_configs_def check_auth_eq Let_def relays_def outcome_def
        json_streaming_response_def split: if_splits sum.splits prod.splits)
qed (use assms in \<open>auto simp: only_if_def sse_config_watch_def sse_secret_watch_def check_auth_eq Let_def
      relays_watch split: if_splits\<close>)

lemma serve_gateway_inert:
  assumes "gateway_call gl cfg reader s r = None"
  shows "snd (serve_gateway gl su ck reader cfg r s) = s"
  using assms
  by (cases r) (auto simp: only_if_def dispatch_inert rest_get_config_def rest_get_all_configs_def
      sse_config_watch_def sse_secret_watch_def check_auth_eq Let_def split: if_splits)

text \<open>Every call of the gateway is anonymous.\<close>

lemma gateway_call_certs: "gateway_call gl cfg reader s r = Some c \<Longrightarrow> call_certs c = None"
  by (cases r) (auto simp: only_if_def rpc_named_def decoded_cases request_new_def split: if_splits)

lemma anonymous_not_permitted:
  assumes "call_certs c = None" "su_authz_mode su = Enforce" "snd (needs c) \<noteq> []"
  shows "\<not> permitted su c"
  using assms
  by (cases "snd (needs c)")
    (auto simp: permitted_def identity_of_def extract_identity_def authz_check_def identity_anonymous_def)

lemma needs_Nil: "snd (needs c) = [] \<longleftrightarrow> (\<exists>req. c = CBatchApply req \<and> rq_body req = [])"
  by (cases c) auto

lemma empty_batch_inert:
  assumes "serve su ck (CBatchApply req) s = (r, s')" "rq_body req = []"
  shows "sv_kube s' = sv_kube s"
  using assms
  by (auto simp: rpc_batch_apply_def io_bind_cases run_kube_def case_prod_eq handle_batch_apply_def batch_gate_def
      parse_batch_items_def gate_batch_versions_def sort_batch_items_def
      dest!: outcome_eqD rate_limit_apply_fields(1) request_id_eqD(1))


section \<open>What an event-stream client reads\<close>

text \<open>The parser of the event-stream format, as a browser runs it: the type and data buffers are reset at
  each dispatch, the last event id persists, comment lines and unknown fields are ignored, and a blank
  line with no data dispatches nothing. A message is its type, its data and the last event id.\<close>

definition field_value :: "string \<Rightarrow> string" where
  "field_value v = (case v of c # cs \<Rightarrow> if c = CHR '' '' then cs else v | [] \<Rightarrow> [])"

fun read_lines :: "string \<Rightarrow> string list \<Rightarrow> string \<Rightarrow> string list \<Rightarrow> (string \<times> string \<times> string) list" where
  "read_lines ty data lid [] = []"
| "read_lines ty data lid (l # ls) =
     (if l = [] then (if data = [] then read_lines [] [] lid ls
                      else (ty, join_str [newline] data, lid) # read_lines [] [] lid ls)
      else case split_once (CHR '':'') l of
          None \<Rightarrow> read_lines ty data lid ls
        | Some (f, v) \<Rightarrow>
            if f = ''event'' then read_lines (field_value v) data lid ls
            else if f = ''data'' then read_lines ty (data @ [field_value v]) lid ls
            else if f = ''id'' then read_lines ty data (field_value v) ls
            else read_lines ty data lid ls)"

definition read_events :: "string \<Rightarrow> string \<Rightarrow> (string \<times> string \<times> string) list" where
  "read_events lid bytes = read_lines [] [] lid (split_on newline bytes)"

text \<open>What the stream means: the frames of its events and of its terminal error, each with the last
  resource version seen.\<close>

fun stream_messages ::
  "(json \<Rightarrow> string) \<Rightarrow> ('i \<Rightarrow> string \<times> string \<times> string) \<Rightarrow> string \<Rightarrow> 'i sse_tick list \<Rightarrow>
   (string \<times> string \<times> string) list" where
  "stream_messages ts parts lid [] = []"
| "stream_messages ts parts lid (Item (Inr e) # rest) =
     (case parts e of (ty, eid, d) \<Rightarrow>
        let lid' = (if eid = [] then lid else eid) in (ty, d, lid') # stream_messages ts parts lid' rest)"
| "stream_messages ts parts lid (Item (Inl st) # rest) =
     [if st_code st = ResourceExhausted
      then (''RELOAD'', ts (JObj [(''reason'', JStr ''lagged''), (''message'', JStr (st_msg st))]), lid)
      else (''error'', ts (JObj [(''code'', JStr (code_name (st_code st))), (''message'', JStr (st_msg st))]), lid)]"
| "stream_messages ts parts lid (Upstream_end # rest) = []"
| "stream_messages ts parts lid (Keepalive # rest) = stream_messages ts parts lid rest"

lemma split_on_append:
  "c \<notin> set a \<Longrightarrow> split_on c (a @ c # b) = a # split_on c b"
  by (induction a) auto

lemma split_on_none: "c \<notin> set a \<Longrightarrow> split_on c a = [a]"
  by (induction a) auto

lemma field_value_space [simp]: "field_value (CHR '' '' # v) = v"
  by (simp add: field_value_def)

lemma read_frame:
  assumes "newline \<notin> set ty" "newline \<notin> set eid" "newline \<notin> set d"
  shows "read_events lid (sse_frame ty eid d @ rest) =
    (let lid' = (if eid = [] then lid else eid) in (ty, d, lid') # read_events lid' rest)"
proof -
  have ls: "split_on newline (sse_frame ty eid d @ rest) =
      (''event: '' @ ty) # (if eid = [] then [] else [''id: '' @ eid]) @ (''data: '' @ d) # [] # split_on newline rest"
    using assms split_on_append [of newline "''event: '' @ ty"] split_on_append [of newline "''id: '' @ eid"]
      split_on_append [of newline "''data: '' @ d" "newline # rest"]
    by (simp add: sse_frame_def)
  show ?thesis
    unfolding read_events_def ls by (simp add: Let_def)
qed

lemma read_keepalive: "read_events lid (keepalive_frame @ rest) = read_events lid rest"
  using split_on_append [of newline "'': keep-alive''" "newline # rest"]
  by (simp add: read_events_def keepalive_frame_def)


lemma read_terminal:
  assumes "\<And>v. newline \<notin> set (ts v)"
  shows "read_events lid (terminal_frame ts st) = stream_messages ts parts lid [Item (Inl st)]"
  using assms read_frame [of "''RELOAD''" "[]" _ lid "[]"] read_frame [of "''error''" "[]" _ lid "[]"]
  by (simp add: terminal_frame_def read_events_def Let_def)

lemma read_sse_stream:
  assumes "\<And>e. to_frame e = (case parts e of (ty, eid, d) \<Rightarrow> sse_frame ty eid d)"
    and "\<And>v. newline \<notin> set (ts v)"
    and "\<And>e ty eid d. Item (Inr e) \<in> set ticks \<Longrightarrow> parts e = (ty, eid, d) \<Longrightarrow> newline \<notin> set ty \<union> set eid \<union> set d"
  shows "read_events lid (concat (sse_event_stream ts to_frame ticks)) = stream_messages ts parts lid ticks"
  using assms(3)
proof (induction ticks arbitrary: lid)
  case Nil
  then show ?case by (simp add: read_events_def)
next
  case (Cons t ticks)
  note IH = Cons.IH [OF Cons.prems [OF list.set_intros(2)]]
  show ?case
  proof (cases t)
    case (Item x)
    show ?thesis
    proof (cases x)
      case (Inl st)
      then show ?thesis using Item read_terminal [OF assms(2)] by simp
    next
      case (Inr e)
      obtain ty eid d where p: "parts e = (ty, eid, d)" by (cases "parts e")
      with Cons.prems [of e] Item Inr show ?thesis
        by (simp add: assms(1) [of e] read_frame IH Let_def)
    qed
  next
    case Upstream_end
    then show ?thesis by (simp add: read_events_def)
  next
    case Keepalive
    then show ?thesis by (simp add: read_keepalive IH)
  qed
qed

definition config_parts :: "gateway_lib \<Rightarrow> config_event \<Rightarrow> string \<times> string \<times> string" where
  "config_parts gl ev = (event_type_name (event_type_i32 (ce_type ev)),
     (case ce_config ev of Some c \<Rightarrow> cm_resource_version c | None \<Rightarrow> []),
     (case ce_config ev of Some c \<Rightarrow> (case gl_encode_config gl c of Inr j \<Rightarrow> j | Inl _ \<Rightarrow> ''{}'') | None \<Rightarrow> ''{}''))"

lemma frame_config_event_parts:
  "frame_config_event gl e = (case config_parts gl e of (ty, eid, d) \<Rightarrow> sse_frame ty eid d)"
  by (simp add: frame_config_event_def config_parts_def Let_def split: option.splits)

section \<open>Arrays\<close>

fun encoded_prefix :: "('i \<Rightarrow> string + string) \<Rightarrow> 'i rpc list \<Rightarrow> string list" where
  "encoded_prefix enc [] = []"
| "encoded_prefix enc (Inl st # items) = []"
| "encoded_prefix enc (Inr i # items) = (case enc i of Inl _ \<Rightarrow> [] | Inr j \<Rightarrow> j # encoded_prefix enc items)"

lemma join_str_Cons: "join_str sep (x # xs) = x @ concat (map (\<lambda>y. sep @ y) xs)"
  by (induction xs arbitrary: x) auto

lemma stream_json_array_tail:
  "0 < n \<Longrightarrow> concat (stream_json_array enc n items) = concat (map (\<lambda>j. '','' @ j) (encoded_prefix enc items)) @ '']''"
  by (induction enc n items rule: stream_json_array.induct) (auto simp: close_array_def split: sum.splits)

lemma stream_json_array_text:
  "concat (stream_json_array enc 0 items) = ''['' @ join_str '','' (encoded_prefix enc items) @ '']''"
  by (cases "(enc, 0 :: nat, items)" rule: stream_json_array.cases)
    (auto simp: close_array_def stream_json_array_tail join_str_Cons split: sum.splits)

section \<open>Secret watches\<close>

lemma request_new_uniform:
  "rq_body (request_new q) = q"
  "caller su (request_new q) = caller su (request_new ())"
  "client_addr (request_new q) = ''unknown''"
  "request_id su (request_new q) = request_id su (request_new ())"
  by (simp_all add: request_new_def caller_def client_addr_def request_id_def fun_eq_iff)

lemma request_new_guards:
  "authorize su (request_new q) = authorize su (request_new ())"
  "admit_subscriber su (request_new q) = admit_subscriber su (request_new ())"
  "cache_accountant_for su (request_new q) = cache_accountant_for su (request_new ())"
  "log_rpc_entry su (request_new q) = log_rpc_entry su (request_new ())"
  "read_audit_capture su rpc (request_new q) = read_audit_capture su rpc (request_new ())"
  by (simp_all add: fun_eq_iff authorize_def admit_subscriber_def cache_accountant_for_def log_rpc_entry_def
      read_audit_capture_def request_new_uniform(2) [of _ q] request_new_uniform(4) [of _ q])

lemma rpc_subscribe_secrets_ignores_names:
  "rpc_subscribe_secrets su ck reader (request_new (secret_subscribe_request gl ns nm hs)) s =
   rpc_subscribe_secrets su ck reader (request_new (secret_subscribe_request gl ns other hs)) s"
proof -
  have "handle_subscribe_secrets cd now cache (secret_subscribe_request gl ns nm hs) reader bs =
      handle_subscribe_secrets cd now cache (secret_subscribe_request gl ns other hs) reader bs" for cd now cache bs
    by (simp add: handle_subscribe_secrets_def secret_subscribe_request_def split: prod.splits)
  moreover have "ssr_namespace (secret_subscribe_request gl ns x hs) = ns" for x
    by (simp add: secret_subscribe_request_def)
  ultimately show ?thesis
    unfolding rpc_subscribe_secrets_def read_audit_emit_def audit_of_def
      request_new_uniform(1,3) request_new_uniform(2) [where q = "secret_subscribe_request gl ns nm hs"]
      request_new_uniform(2) [where q = "secret_subscribe_request gl ns other hs"]
      request_new_guards [where q = "secret_subscribe_request gl ns nm hs"]
      request_new_guards [where q = "secret_subscribe_request gl ns other hs"]
    by simp
qed

lemma admit_subscriber_secret_cache:
  "admit_subscriber su req s = (r, s') \<Longrightarrow> sv_secret_cache s' = sv_secret_cache s"
  by (auto simp: admit_subscriber_def Let_def split: if_splits prod.splits admit.splits)

lemma rpc_subscribe_secrets_handled:
  assumes "rpc_subscribe_secrets su ck reader req s = (Inr ((task, ch), acct, g), s')"
  shows "\<exists>bs bs'. handle_subscribe_secrets (su_codecs su) (ck_now ck) (sv_secret_cache s) (rq_body req) reader bs =
    (Inr (task, ch), bs')"
  using assms
  by (auto simp: rpc_subscribe_secrets_def Let_def io_bind_cases case_prod_eq
      dest!: admit_subscriber_secret_cache read_audit_capture_eqD(4)) (auto split: sum.split_asm)

section \<open>Properties\<close>


text \<open>With access control enforced nothing that arrives over the gateway changes the cluster
  or the audit log, whatever the access rules, the method, the token and the body: its caller is
  always anonymous.\<close>

lemma gateway_inert_under_enforce:
  assumes "su_authz_mode su = Enforce" "serve_gateway gl su ck reader cfg r s = (resp, s')"
  shows "sv_kube s' = sv_kube s \<and> sv_audit s' = sv_audit s"
proof (cases "gateway_call gl cfg reader s r")
  case None
  with assms(2) serve_gateway_inert [OF None, of su ck] show ?thesis by simp
next
  case (Some c)
  then obtain x where run: "serve su ck c s = (x, s')"
    using serve_gateway_relays [OF Some, of su ck] assms(2) by (cases "serve su ck c s") (auto simp: relays_def)
  show ?thesis
  proof (cases "snd (needs c) = []")
    case True
    then obtain req where c: "c = CBatchApply req" "rq_body req = []" by (auto simp: needs_Nil)
    with serve_conduct [OF run] empty_batch_inert [of su ck req s x s'] run show ?thesis
      by (auto simp: conduct_def untouched_def log_gains_def)
  next
    case False
    with serve_conduct [OF run] anonymous_not_permitted [OF gateway_call_certs [OF Some] assms(1)] show ?thesis
      by (simp add: conduct_def untouched_def)
  qed
qed

text \<open>Property C30. What a browser reads back from the bytes of a config watch is exactly the sequence of
  events, in order and with their resource versions as last event ids; keep-alives are invisible, and
  an error of the subscription is the last message. Encoded JSON and resource versions contain no line
  break.\<close>

theorem sse_config_stream_read_back:
  assumes "\<forall>v. newline \<notin> set (ts v)"
    and "\<forall>c j. gl_encode_config gl c = Inr j \<longrightarrow> newline \<notin> set j"
    and "\<forall>e c. Item (Inr e) \<in> set ticks \<and> ce_config e = Some c \<longrightarrow> newline \<notin> set (cm_resource_version c)"
  shows "read_events lid (concat (sse_event_stream ts (frame_config_event gl) ticks)) =
    stream_messages ts (config_parts gl) lid ticks"
proof (rule read_sse_stream [OF frame_config_event_parts])
  fix e ty eid d
  assume "Item (Inr e) \<in> set ticks" "config_parts gl e = (ty, eid, d)"
  with assms(2,3) show "newline \<notin> set ty \<union> set eid \<union> set d"
    by (auto simp: config_parts_def event_type_name_def split: option.splits sum.splits if_splits)
qed (use assms(1) in simp)

text \<open>The chunks of a streamed array are always the text of one closed JSON array: the
  encodings of the items before the first that fails, separated by commas, also when there is none.\<close>

lemma streamed_array_is_closed:
  "concat (stream_json_array enc 0 items) = ''['' @ join_str '','' (encoded_prefix enc items) @ '']''"
  by (rule stream_json_array_text)

text \<open>The watch of a single secret does not depend on the name in its path: every name gets
  the same answer, and its stream starts with the snapshot events of all secrets of the namespace.\<close>

lemma secret_watch_ignores_name:
  assumes "sse_secret_watch gl su ck reader cfg ns nm hs s = (resp, s')"
    and "hr_body resp = B_secret_sse ((task, ch), acct, g)" "task \<noteq> T_done"
  shows "sse_secret_watch gl su ck reader cfg ns other hs s = (resp, s') \<and>
    payloads ch = map (snapshot_event (su_codecs su) (ck_now ck))
      (secret_cache_all_in_namespace (sv_secret_cache s) ns)"
proof
  show "sse_secret_watch gl su ck reader cfg ns other hs s = (resp, s')"
    using assms(1) rpc_subscribe_secrets_ignores_names [of su ck reader gl ns nm hs s other]
    by (simp add: sse_secret_watch_def Let_def split: option.splits if_splits)
  have "rpc_subscribe_secrets su ck reader (request_new (secret_subscribe_request gl ns nm hs)) s =
      (Inr ((task, ch), acct, g), s')"
    using assms(1,2)
    by (auto simp: sse_secret_watch_def sse_response_def build_response_def Let_def check_auth_eq
        unauthorized_response_def json_response_def cache_not_ready_def error_response_def
        split: if_splits prod.splits sum.splits)
  from rpc_subscribe_secrets_handled [OF this] obtain bs bs' where
    "handle_subscribe_secrets (su_codecs su) (ck_now ck) (sv_secret_cache s)
       (secret_subscribe_request gl ns nm hs) reader bs = (Inr (task, ch), bs')"
    by (auto simp: request_new_def)
  from handle_subscribe_secrets_delivers [OF this] assms(3)
  show "payloads ch = map (snapshot_event (su_codecs su) (ck_now ck))
      (secret_cache_all_in_namespace (sv_secret_cache s) ns)"
    by (auto simp: delivers_def secret_subscribe_request_def)
qed

section \<open>Examples\<close>

definition demo_gateway_lib :: gateway_lib where
  "demo_gateway_lib = \<lparr>gl_header_ok = (\<lambda>_. True), gl_to_str = Some,
     gl_decode_get = (\<lambda>_. Inl ''no''), gl_decode_get_all = (\<lambda>b. Inr b), gl_decode_apply = (\<lambda>_. Inl ''no''),
     gl_decode_batch = (\<lambda>_. Inl ''no''), gl_decode_revert = (\<lambda>_. Inl ''no''),
     gl_encode_config = (\<lambda>c. Inr ''{}''), gl_encode_secret = (\<lambda>c. Inr ''{}''), gl_encode_apply = Inr,
     gl_encode_batch = (\<lambda>_. Inr ''{}''), gl_encode_dry_run = (\<lambda>_. Inr ''{}''), gl_encode_revert = (\<lambda>_. Inr ''{}''),
     gl_encode_apply_secret = Inr\<rparr>"

definition demo_gateway_config :: http_gateway_config where
  "demo_gateway_config = \<lparr>hg_auth_token = None, hg_cors_allow_origin = None, hg_insecure = True\<rparr>"

theorem sse_config_stream_read_back_witness:
  "read_events [] (concat (sse_event_stream (\<lambda>_. ''{}'') (frame_config_event demo_gateway_lib)
     [Keepalive, Item (Inr \<lparr>ce_type = Deleted, ce_config = None\<rparr>), Item (Inl (Status ResourceExhausted ''lag''))])) =
   [(''DELETED'', ''{}'', []), (''RELOAD'', ''{}'', [])]"
  using sse_config_stream_read_back [of "\<lambda>_. ''{}''" demo_gateway_lib
      "[Keepalive, Item (Inr \<lparr>ce_type = Deleted, ce_config = None\<rparr>), Item (Inl (Status ResourceExhausted ''lag''))]" "[]"]
  by (simp add: demo_gateway_lib_def config_parts_def event_type_name_def Status_def)


text \<open>One secret \<open>b\<close> in the namespace, and a watch of the secret \<open>a\<close>.\<close>

definition demo_secret_server :: "demo_world server" where
  "demo_secret_server = demo_server\<lparr>sv_secret_cache := secret_cache_update
     ((secret_snapshot_default 0)\<lparr>ss_namespace := ''ns'', ss_name := ''b''\<rparr>) secret_cache_new\<rparr>"

lemma demo_secret_listing:
  "secret_cache_all_in_namespace (sv_secret_cache demo_secret_server) ''ns'' =
     [(secret_snapshot_default 0)\<lparr>ss_namespace := ''ns'', ss_name := ''b''\<rparr>]"
  "secret_cache_is_populated (sv_secret_cache demo_secret_server)"
  by (simp_all add: demo_secret_server_def demo_server_def secret_cache_all_in_namespace_def cow_all_in_namespace_def
      secret_cache_update_def cow_update_def insert_snap_def secret_cache_new_def with_capacity_def from_map_def
      secret_entry_def record_write_def hm_insert_def hm_values_def secret_cache_is_populated_def
      cow_is_populated_def Let_def)

lemma demo_secret_watch:
  "\<exists>ch s'. sse_secret_watch demo_gateway_lib demo_setup demo_clocks [] demo_gateway_config ''ns'' ''a'' []
       demo_secret_server =
     (sse_response demo_gateway_lib demo_gateway_config
        (B_secret_sse ((T_bridge, ch), cache_accountant_for demo_setup (request_new ()) ''secret'', Some ANONYMOUS)), s')"
proof -
  let ?req = "secret_subscribe_request demo_gateway_lib ''ns'' ''a'' []"
  have id: "request_id demo_setup (request_new ?req) s = (show_hex 1 @ ''-'' @ show_hex (unat (sv_seq s)), s\<lparr>sv_seq := sv_seq s + 1\<rparr>)"
    for s :: "demo_world server"
    by (simp add: request_id_def request_new_def demo_setup_def Let_def)
  have handled: "\<exists>ch. handle_subscribe_secrets demo_codecs 0 (sv_secret_cache demo_secret_server) ?req [] [(''ns'', 0)] =
      (Inr (T_bridge, ch), [(''ns'', 1)])"
    by (simp add: handle_subscribe_secrets_def secret_subscribe_request_def demo_secret_listing last_event_id_def
        header_str_def try_send_def channel_new_def reader_act_def backlog_def CHANNEL_CAPACITY_def get_broadcast_rx_def
        hm_get_Cons hm_insert_def Let_def)
  have anon: "caller demo_setup (request_new ?req) = identity_anonymous"
    by (simp add: caller_def request_new_def extract_identity_def)
  have fields: "su_authz_mode demo_setup = Disabled" "su_quota_mode demo_setup = QEnforce"
      "su_quota_table demo_setup = []" "su_quota_synced demo_setup" "su_default_max_subscribers demo_setup = 1"
      "su_codecs demo_setup = demo_codecs" "ssr_namespace ?req = ''ns''"
    by (simp_all add: demo_setup_def secret_subscribe_request_def)
  from handled obtain ch where h: "handle_subscribe_secrets demo_codecs 0 (sv_secret_cache demo_secret_server) ?req [] [(''ns'', 0)] =
      (Inr (T_bridge, ch), [(''ns'', 1)])" by blast
  have "\<exists>s'. rpc_subscribe_secrets demo_setup demo_clocks [] (request_new ?req) demo_secret_server =
      (Inr ((T_bridge, ch), cache_accountant_for demo_setup (request_new ?req) ''secret'', Some ANONYMOUS), s')"
    using h
    by (simp add: rpc_subscribe_secrets_def io_bind_def guard_def check_drain_def io_of_def authorize_def
        admit_subscriber_def sc_admit_def try_increment_def effective_subscriber_limit_def quota_for_def
        log_rpc_entry_def id read_audit_capture_def request_new_uniform(1) fields anon identity_anonymous_def
        demo_secret_server_def demo_server_def subscriber_counts_new_def sc_current_def Let_def)
  moreover have "cache_accountant_for demo_setup (request_new ?req) ''secret'' =
      cache_accountant_for demo_setup (request_new ()) ''secret''"
    by (simp add: request_new_guards(3) [of _ ?req])
  ultimately show ?thesis
    using demo_secret_listing(2)
    by (auto simp: sse_secret_watch_def check_auth_def demo_gateway_config_def Let_def)
qed

end
