(* ===== verification/Startup.thy ===== *)
theory Startup
  imports Http_Gateway
begin

text \<open>
  Startup and shutdown (\<open>startup.rs\<close>, \<open>grpc/serve.rs\<close>, \<open>grpc/tls.rs\<close>, the environment parsing of
  \<open>telemetry.rs\<close>): the resolution of TLS and of the gateway from the arguments, the state the server
  starts in, the metric sampler, and the health endpoint from boot to drain as a step relation. Files
  and the Kubernetes client are inputs.
\<close>

section \<open>Arguments\<close>

record args =
  a_grpc_addr :: string
  a_metrics_addr :: string
  a_namespace :: string
  a_name :: string
  a_secret_namespaces :: "string list"
  a_tls :: bool
  a_tls_cert :: "string option"
  a_tls_key :: "string option"
  a_tls_client_ca :: "string option"
  a_h2_initial_window_bytes :: "u32 option"
  a_h2_max_concurrent_streams :: "u32 option"
  a_broadcast_shards :: nat
  a_coalesce_window_ms :: u64
  a_default_max_subscribers :: u32
  a_default_max_applies_per_second :: u32
  a_default_cache_budget_bytes :: u64
  a_http_addr :: "string option"
  a_http_auth_token :: "string option"
  a_http_cors_allow_origin :: "string option"
  a_http_insecure :: bool

section \<open>TLS\<close>

type_synonym files = "string \<Rightarrow> string + string"

definition contains_str :: "string \<Rightarrow> string \<Rightarrow> bool" where
  "contains_str pat s \<longleftrightarrow> list_ex (\<lambda>k. take (length pat) (drop k s) = pat) [0..<length s + 1]"

definition read_file :: "files \<Rightarrow> string \<Rightarrow> string \<Rightarrow> string + string" where
  "read_file fs path label = (case fs path of
       Inl e \<Rightarrow> Inl (''failed to read '' @ label @ '' at '' @ path @ '': '' @ e)
     | Inr bytes \<Rightarrow>
         if bytes = [] then Inl (label @ '' at '' @ path @ '' is empty'')
         else if \<not> utf8_valid (take 64 bytes) then Inl (label @ '' at '' @ path @ '' is not valid UTF-8 PEM'')
         else if \<not> contains_str ''-----BEGIN'' (take 64 bytes) then
           Inl (label @ '' at '' @ path @ '' does not look like PEM (missing -----BEGIN header)'')
         else Inr bytes)"

record tls_paths =
  tp_cert :: string
  tp_key :: string
  tp_client_ca :: string

text \<open>The server identity and the authority every client certificate must be signed by.\<close>

record server_tls_config =
  tls_identity :: "string \<times> string"
  tls_client_ca_root :: string

definition build_server_tls_config :: "files \<Rightarrow> tls_paths \<Rightarrow> string + server_tls_config" where
  "build_server_tls_config fs p =
     rbind (read_file fs (tp_cert p) ''server cert'') (\<lambda>cert.
     rbind (read_file fs (tp_key p) ''server key'') (\<lambda>key.
     rbind (read_file fs (tp_client_ca p) ''client CA bundle'') (\<lambda>ca.
     Inr \<lparr>tls_identity = (cert, key), tls_client_ca_root = ca\<rparr>)))"

definition ok_or :: "'e \<Rightarrow> 'a option \<Rightarrow> 'e + 'a" where
  "ok_or e x = (case x of Some a \<Rightarrow> Inr a | None \<Rightarrow> Inl e)"

definition tls_missing :: "string \<Rightarrow> string \<Rightarrow> string" where
  "tls_missing flag var = ''TLS enabled but '' @ flag @ ''/'' @ var @
     '' not set. Pass --tls=false to disable (local dev only).''"

definition resolve_tls_config :: "files \<Rightarrow> args \<Rightarrow> string + server_tls_config option" where
  "resolve_tls_config fs a =
     (if \<not> a_tls a then Inr None
      else rbind (ok_or (tls_missing ''--tls-cert'' ''KONFIG_TLS_CERT'') (a_tls_cert a)) (\<lambda>cert.
           rbind (ok_or (tls_missing ''--tls-key'' ''KONFIG_TLS_KEY'') (a_tls_key a)) (\<lambda>key.
           rbind (ok_or (tls_missing ''--tls-client-ca'' ''KONFIG_TLS_CLIENT_CA'') (a_tls_client_ca a)) (\<lambda>ca.
           rbind (build_server_tls_config fs \<lparr>tp_cert = cert, tp_key = key, tp_client_ca = ca\<rparr>) (\<lambda>cfg.
           Inr (Some cfg))))))"

section \<open>Gateway\<close>

definition token_missing :: string where
  "token_missing = ''HTTP/JSON gateway enabled (--http-addr) but --http-auth-token/KONFIG_HTTP_AUTH_TOKEN not set. '' @
     ''The gateway exposes writes and secret reads over plaintext, so a bearer token is required. '' @
     ''Pass --http-insecure=true to explicitly opt out (cluster-internal only).''"

text \<open>The answer is the address to listen on with the configuration.\<close>

definition resolve_http_gateway_config :: "args \<Rightarrow> string + (string \<times> http_gateway_config) option" where
  "resolve_http_gateway_config a = (case a_http_addr a of
       None \<Rightarrow> Inr None
     | Some addr \<Rightarrow>
         if a_http_insecure a then
           Inr (Some (addr, \<lparr>hg_auth_token = None, hg_cors_allow_origin = a_http_cors_allow_origin a, hg_insecure = True\<rparr>))
         else rbind (ok_or token_missing (Option.bind (a_http_auth_token a) (\<lambda>t. if t \<noteq> [] then Some t else None))) (\<lambda>tok.
           Inr (Some (addr, \<lparr>hg_auth_token = Some tok, hg_cors_allow_origin = a_http_cors_allow_origin a, hg_insecure = False\<rparr>))))"

section \<open>The state the server starts in\<close>

definition normalize_secret_namespaces :: "string list \<Rightarrow> string list" where
  "normalize_secret_namespaces raw = filter (\<lambda>s. s \<noteq> []) raw"

definition MAX_BROADCAST_SHARDS :: nat where
  "MAX_BROADCAST_SHARDS = 16"

definition clamp_shards :: "nat \<Rightarrow> nat" where
  "clamp_shards n = min (max n MIN_BROADCAST_SHARDS) MAX_BROADCAST_SHARDS"

text \<open>\<open>spawn_all\<close> registers, for each namespace, a sender without receivers and a freshness entry.\<close>

definition spawn_all ::
  "string list \<Rightarrow> secret_broadcasts \<times> (string, last_event_at) hmap \<Rightarrow> secret_broadcasts \<times> (string, last_event_at) hmap" where
  "spawn_all namespaces st = foldl (\<lambda>(bs, lea) ns. (hm_insert ns 0 bs, last_event_at_for lea ns)) st namespaces"

text \<open>The settings of the transport that the server passes on.\<close>

record transport =
  tr_accept_http1 :: bool
  tr_keepalive_secs :: "nat \<times> nat"
  tr_stream_window :: "u32 option"
  tr_max_streams :: "u32 option"
  tr_tls :: "server_tls_config option"

definition apply_h2_overrides :: "transport \<Rightarrow> u32 option \<Rightarrow> u32 option \<Rightarrow> transport" where
  "apply_h2_overrides builder window streams =
     (let b1 = (case window of Some w \<Rightarrow> builder\<lparr>tr_stream_window := Some w\<rparr> | None \<Rightarrow> builder) in
      case streams of Some m \<Rightarrow> b1\<lparr>tr_max_streams := Some m\<rparr> | None \<Rightarrow> b1)"

text \<open>The libraries and the environment.\<close>

record ('w, 'v) environment =
  en_kube :: "string + 'w kube \<times> 'w"
  en_codecs :: codecs
  en_schema_lib :: "'v schema_lib"
  en_parse_x509 :: "string \<Rightarrow> x509_cert option"
  en_start_nanos :: nat
  en_files :: files
  en_authz_mode :: "string option"
  en_quota_mode :: "string option"
  en_k8s_events :: "string option"
  en_now :: instant
  en_bind :: "string \<Rightarrow> string + unit"
  en_accept_tls :: "server_tls_config \<Rightarrow> string + unit"

record ('w, 'v) boot =
  bo_setup :: "('w, 'v) server_setup"
  bo_server :: "'w server"
  bo_freshness :: "(string, last_event_at) hmap"
  bo_addr :: string
  bo_coalesce_window_ms :: u64
  bo_transport :: transport
  bo_gateway :: "(string \<times> http_gateway_config) option"

text \<open>\<open>serve\<close> up to the point where calls are accepted: the gateway's listener is bound first (a failure
  ends the process), then the transport takes the TLS settings.\<close>

definition serve_boot :: "('w, 'v) environment \<Rightarrow> args \<Rightarrow> server_tls_config option \<Rightarrow>
    (string \<times> http_gateway_config) option \<Rightarrow> (string + unit) \<times> transport" where
  "serve_boot en a tls gateway =
     (let b0 = \<lparr>tr_accept_http1 = True, tr_keepalive_secs = (20, 10), tr_stream_window = None,
                tr_max_streams = None, tr_tls = None\<rparr>;
          b1 = apply_h2_overrides b0 (a_h2_initial_window_bytes a) (a_h2_max_concurrent_streams a) in
      (rbind (case gateway of Some (addr, _) \<Rightarrow> en_bind en addr | None \<Rightarrow> Inr ()) (\<lambda>_.
         case tls of Some cfg \<Rightarrow> en_accept_tls en cfg | None \<Rightarrow> Inr ()),
       b1\<lparr>tr_tls := tls\<rparr>))"

text \<open>\<open>run\<close> up to the same point.\<close>

definition startup_run :: "('w, 'v) environment \<Rightarrow> args \<Rightarrow> string + ('w, 'v) boot" where
  "startup_run en a =
     rbind (resolve_tls_config (en_files en) a) (\<lambda>tls.
     rbind (resolve_http_gateway_config a) (\<lambda>gateway.
     rbind (en_kube en) (\<lambda>(kube, w).
     let (broadcasts, freshness) = spawn_all (normalize_secret_namespaces (a_secret_namespaces a))
           ([], last_event_at_for [] (a_namespace a));
         (bound, transport) = serve_boot en a tls gateway in
     rbind bound (\<lambda>_.
     Inr \<lparr>bo_setup =
            \<lparr>su_kube = kube, su_codecs = en_codecs en, su_schema_lib = en_schema_lib en,
             su_parse_x509 = en_parse_x509 en, su_start_nanos = en_start_nanos en,
             su_k8s_events_env = en_k8s_events en, su_broadcast_shards = clamp_shards (a_broadcast_shards a),
             su_authz_mode = authz_mode_from_env (en_authz_mode en), su_acl_table = [], su_acl_synced = False,
             su_schema_table = [], su_quota_mode = quota_mode_from_env (en_quota_mode en),
             su_quota_table = [], su_quota_synced = False,
             su_default_max_subscribers = a_default_max_subscribers a,
             su_default_max_applies_per_second = a_default_max_applies_per_second a,
             su_default_cache_budget_bytes = a_default_cache_budget_bytes a\<rparr>,
          bo_server =
            \<lparr>sv_kube = w, sv_cache = config_cache_new (config_snapshot_default (en_now en)),
             sv_secret_cache = secret_cache_new, sv_registry = registry_new,
             sv_secret_broadcasts = broadcasts,
             sv_draining = False, sv_counts = subscriber_counts_new, sv_limiter = [], sv_ledger = ledger_new,
             sv_seq = 0, sv_audit = [], sv_k8s_events = []\<rparr>,
          bo_freshness = freshness, bo_addr = a_grpc_addr a, bo_coalesce_window_ms = a_coalesce_window_ms a,
          bo_transport = transport, bo_gateway = gateway\<rparr>))))"

definition bo_tls :: "('w, 'v) boot \<Rightarrow> server_tls_config option" where
  "bo_tls b = tr_tls (bo_transport b)"

section \<open>The metric sampler\<close>

record gauges =
  ga_replay_depth :: "(string, nat) hmap"
  ga_stale_seconds :: "(string, rat) hmap"

definition sampler_tick ::
  "instant \<Rightarrow> instant \<Rightarrow> registry \<Rightarrow> (string, last_event_at) hmap \<Rightarrow> gauges \<Rightarrow> gauges" where
  "sampler_tick proc_start now rg lea g =
     \<lparr>ga_replay_depth = foldl (\<lambda>m (ns, bid). hm_insert ns (length (rg_bufs rg ! bid)) m) (ga_replay_depth g) (rg_replay rg),
      ga_stale_seconds = foldl (\<lambda>m (ns, t). hm_insert ns (case elapsed_secs proc_start now t of
          Some secs \<Rightarrow> secs | None \<Rightarrow> 0) m) (ga_stale_seconds g) lea\<rparr>"

section \<open>Health from boot to drain\<close>

datatype health = NotServing | Serving

text \<open>What the tasks around the server share: whether the cache has an entry, the drain flag, the
  health endpoint, whether the task that waits for the cache is still polling, and whether the shutdown
  sequence has set the endpoint.\<close>

record life =
  lf_populated :: bool
  lf_draining :: bool
  lf_health :: health
  lf_polling :: bool
  lf_drain_reported :: bool

definition life_start :: life where
  "life_start = \<lparr>lf_populated = False, lf_draining = False, lf_health = NotServing, lf_polling = True,
     lf_drain_reported = False\<rparr>"

inductive life_step :: "life \<Rightarrow> life \<Rightarrow> bool" where
  populated: "life_step s (s\<lparr>lf_populated := True\<rparr>)"
| gate_opens: "lf_polling s \<Longrightarrow> lf_populated s \<Longrightarrow>
    life_step s (s\<lparr>lf_health := Serving, lf_polling := False\<rparr>)"
| drain_begins: "\<not> lf_draining s \<Longrightarrow> life_step s (s\<lparr>lf_draining := True\<rparr>)"
| drain_reported: "lf_draining s \<Longrightarrow> \<not> lf_drain_reported s \<Longrightarrow>
    life_step s (s\<lparr>lf_health := NotServing, lf_drain_reported := True\<rparr>)"

inductive life_reach :: "life \<Rightarrow> bool" where
  start: "life_reach life_start"
| step: "life_reach s \<Longrightarrow> life_step s s' \<Longrightarrow> life_reach s'"

inductive_cases life_stepE: "life_step s s'"

section \<open>Telemetry settings\<close>

datatype 'f sampler = AlwaysOn | AlwaysOff | TraceIdRatioBased 'f | ParentBased "'f sampler"

definition resolve_sampler :: "(string \<Rightarrow> 'f option) \<Rightarrow> 'f \<Rightarrow> string option \<Rightarrow> string option \<Rightarrow> 'f sampler" where
  "resolve_sampler parse_f64 one sampler arg =
     (let ratio = (case Option.bind arg (\<lambda>a. parse_f64 (trim a)) of Some r \<Rightarrow> r | None \<Rightarrow> one) in
      case map_option trim sampler of
        Some s \<Rightarrow>
          if s = ''always_on'' then AlwaysOn
          else if s = ''always_off'' then AlwaysOff
          else if s = ''traceidratio'' then TraceIdRatioBased ratio
          else if s = ''parentbased_always_off'' then ParentBased AlwaysOff
          else if s = ''parentbased_traceidratio'' then ParentBased (TraceIdRatioBased ratio)
          else ParentBased AlwaysOn
      | None \<Rightarrow> ParentBased AlwaysOn)"

definition endpoint_from_env :: "string option \<Rightarrow> string option" where
  "endpoint_from_env var = (case var of Some v \<Rightarrow> if trim v \<noteq> [] then Some v else None | None \<Rightarrow> None)"

definition log_format_is_json :: "string option \<Rightarrow> bool" where
  "log_format_is_json raw \<longleftrightarrow> raw = Some ''json''"

definition sdk_disabled :: "string option \<Rightarrow> bool" where
  "sdk_disabled raw = (case raw of Some v \<Rightarrow> eq_ignore_ascii_case (trim v) ''true'' | None \<Rightarrow> False)"

definition non_blank_or :: "string \<Rightarrow> string option \<Rightarrow> string" where
  "non_blank_or dflt raw = (case map_option trim raw of Some s \<Rightarrow> if s \<noteq> [] then s else dflt | None \<Rightarrow> dflt)"

definition otel_trace_filter_spec :: "string option \<Rightarrow> string" where
  "otel_trace_filter_spec raw = non_blank_or ''konfig=debug'' raw"

definition service_name :: "string option \<Rightarrow> string" where
  "service_name raw = non_blank_or ''konfig'' raw"

text \<open>The settings an exporter is built with, if there is to be one.\<close>

record 'f tracer_settings =
  ts_endpoint :: string
  ts_sampler :: "'f sampler"
  ts_service_name :: string

definition build_tracer_provider ::
  "(string \<Rightarrow> 'f option) \<Rightarrow> 'f \<Rightarrow> (string \<Rightarrow> string option) \<Rightarrow> 'f tracer_settings option" where
  "build_tracer_provider parse_f64 one env =
     (if sdk_disabled (env ''OTEL_SDK_DISABLED'') then None
      else case endpoint_from_env (env ''OTEL_EXPORTER_OTLP_ENDPOINT'') of
          None \<Rightarrow> None
        | Some endpoint \<Rightarrow> Some
            \<lparr>ts_endpoint = (if trim endpoint = [] then ''http://localhost:4317'' else endpoint),
             ts_sampler = resolve_sampler parse_f64 one (env ''OTEL_TRACES_SAMPLER'') (env ''OTEL_TRACES_SAMPLER_ARG''),
             ts_service_name = service_name (env ''OTEL_SERVICE_NAME'')\<rparr>)"


section \<open>Lemmas\<close>

lemma startup_runD:
  assumes "startup_run en a = Inr b"
  shows "resolve_tls_config (en_files en) a = Inr (bo_tls b)"
    and "resolve_http_gateway_config a = Inr (bo_gateway b)"
    and "su_broadcast_shards (bo_setup b) = clamp_shards (a_broadcast_shards a)"
    and "su_authz_mode (bo_setup b) = authz_mode_from_env (en_authz_mode en)" "\<not> su_acl_synced (bo_setup b)"
    and "\<not> sv_draining (bo_server b)"
  using assms by (auto simp: startup_run_def serve_boot_def bo_tls_def rbind_def Let_def split: sum.splits prod.splits)

lemma resolve_tls_None: "resolve_tls_config fs a = Inr x \<Longrightarrow> x = None \<longleftrightarrow> \<not> a_tls a"
  by (auto simp: resolve_tls_config_def rbind_def split: if_splits sum.splits)

lemma resolve_tls_files:
  assumes "resolve_tls_config fs a = Inr (Some cfg)"
  shows "\<exists>cert key ca. a_tls_cert a = Some cert \<and> a_tls_key a = Some key \<and> a_tls_client_ca a = Some ca \<and>
    fs cert = Inr (fst (tls_identity cfg)) \<and> fs key = Inr (snd (tls_identity cfg)) \<and>
    fs ca = Inr (tls_client_ca_root cfg) \<and> tls_client_ca_root cfg \<noteq> []"
  using assms
  by (auto simp: resolve_tls_config_def build_server_tls_config_def read_file_def rbind_def ok_or_def
      split: if_splits sum.splits option.splits)

lemma resolve_http_authorized:
  assumes "resolve_http_gateway_config a = Inr (Some (addr, cfg))"
  shows "authorized gl cfg hs \<longleftrightarrow> a_http_insecure a \<or>
    (\<exists>t. a_http_auth_token a = Some t \<and> t \<noteq> [] \<and> provided_token gl hs = t)"
  using assms
  by (auto simp: resolve_http_gateway_config_def rbind_def ok_or_def authorized_def bind_eq_Some_conv
      split: if_splits sum.splits option.splits)

lemma clamp_shards_bounds: "1 \<le> clamp_shards n" "clamp_shards n \<le> 16" "1 \<le> n \<Longrightarrow> n \<le> 16 \<Longrightarrow> clamp_shards n = n"
  by (simp_all add: clamp_shards_def MIN_BROADCAST_SHARDS_def MAX_BROADCAST_SHARDS_def)

text \<open>A call with a target is refused while the access rules have not been listed.\<close>

lemma unsynced_refuses:
  assumes "su_authz_mode su = Enforce" "\<not> su_acl_synced su" "snd (needs c) \<noteq> []" "serve su ck c s = (r, s')"
  shows "(\<exists>e. r = Inl e) \<and> untouched s s'"
proof -
  have "\<not> permitted su c"
    using assms(1-3) by (cases "snd (needs c)") (auto simp: permitted_def authz_check_def)
  with serve_conduct [OF assms(4)] show ?thesis by (simp add: conduct_def)
qed

text \<open>The endpoint answers SERVING only after the gate has seen an entry.\<close>

lemma life_invariant:
  "life_reach s \<Longrightarrow> (lf_health s = Serving \<longrightarrow> lf_populated s \<and> \<not> lf_polling s) \<and>
    (lf_drain_reported s \<longrightarrow> lf_draining s)"
  by (induction rule: life_reach.induct) (auto simp: life_start_def elim!: life_stepE)

section \<open>Properties\<close>


text \<open>Property C34. The health endpoint never reports SERVING before the cache has an entry; but the task
  that opens the gate does not look at the drain flag, so a server that is told to stop before its
  first entry arrives can report SERVING again after it has reported the drain.\<close>

theorem health_lifecycle:
  "(\<forall>s. life_reach s \<longrightarrow> lf_health s = Serving \<longrightarrow> lf_populated s) \<and>
   (\<exists>s. life_reach s \<and> lf_draining s \<and> lf_drain_reported s \<and> lf_health s = Serving)"
proof
  show "\<forall>s. life_reach s \<longrightarrow> lf_health s = Serving \<longrightarrow> lf_populated s"
    using life_invariant by blast
  let ?s1 = "life_start\<lparr>lf_draining := True\<rparr>"
  let ?s2 = "?s1\<lparr>lf_health := NotServing, lf_drain_reported := True\<rparr>"
  let ?s3 = "?s2\<lparr>lf_populated := True\<rparr>"
  let ?s4 = "?s3\<lparr>lf_health := Serving, lf_polling := False\<rparr>"
  have "life_reach ?s1"
    by (rule life_reach.step [OF life_reach.start drain_begins]) (simp add: life_start_def)
  then have "life_reach ?s2"
    by (rule life_reach.step [OF _ drain_reported]) (simp_all add: life_start_def)
  then have "life_reach ?s3"
    by (rule life_reach.step [OF _ populated])
  then have "life_reach ?s4"
    by (rule life_reach.step [OF _ gate_opens]) (simp_all add: life_start_def)
  then show "\<exists>s. life_reach s \<and> lf_draining s \<and> lf_drain_reported s \<and> lf_health s = Serving"
    by (rule exI [where x = ?s4, OF conjI]) (simp add: life_start_def)
qed

theorem health_lifecycle_witness:
  "\<exists>s. life_reach s \<and> lf_draining s \<and> lf_health s = Serving \<and> lf_populated s"
  using health_lifecycle by blast

definition demo_args :: args where
  "demo_args = \<lparr>a_grpc_addr = ''0.0.0.0:50051'', a_metrics_addr = ''0.0.0.0:9090'', a_namespace = ''ns'', a_name = ''c'', a_secret_namespaces = [''ns'', []], a_tls = False,
     a_tls_cert = None, a_tls_key = None, a_tls_client_ca = None,
     a_h2_initial_window_bytes = None, a_h2_max_concurrent_streams = Some 100, a_broadcast_shards = 40,
     a_coalesce_window_ms = 0, a_default_max_subscribers = 0, a_default_max_applies_per_second = 0,
     a_default_cache_budget_bytes = 0, a_http_addr = Some ''0.0.0.0:8080'', a_http_auth_token = Some ''tok'',
     a_http_cors_allow_origin = None, a_http_insecure = False\<rparr>"

definition demo_environment :: "(demo_world, json) environment" where
  "demo_environment = \<lparr>en_kube = Inr (demo_kube, ([], 0)), en_codecs = demo_codecs, en_schema_lib = demo_schema_lib,
     en_parse_x509 = (\<lambda>_. None), en_start_nanos = 1, en_files = (\<lambda>_. Inl ''no such file''),
     en_authz_mode = Some ''enforce'', en_quota_mode = None, en_k8s_events = None, en_now = 0,
     en_bind = (\<lambda>_. Inr ()), en_accept_tls = (\<lambda>_. Inr ())\<rparr>"


end
