(* ===== verification/Consumer.thy ===== *)
theory Consumer
  imports Watchers
begin

text \<open>
  The client library (\<open>rust/konfig-consumer\<close>): the snapshot a handle reads (\<open>snapshot.rs\<close>), the driver
  that keeps the snapshots of one subscription up to date over reconnects (\<open>stream.rs\<close>), and the
  client that hands out the handles (\<open>lib.rs\<close>). A connection is the list of the events it delivered,
  each with the clock reading at which it was handled, and how it ended. The JSON parser is a
  parameter.
\<close>

section \<open>Snapshots\<close>

record consumer_spec =
  cns_schema_version :: u32
  cns_content :: json

record consumer_snapshot =
  cn_content :: json
  cn_schema_version :: u32
  cn_resource_version :: string
  cn_loaded_at :: instant
  cn_stale_since :: "instant option"

definition consumer_default :: "instant \<Rightarrow> consumer_snapshot" where
  "consumer_default now = \<lparr>cn_content = JNull, cn_schema_version = 0, cn_resource_version = [],
     cn_loaded_at = now, cn_stale_since = None\<rparr>"

definition compiled_in :: "instant \<Rightarrow> json \<Rightarrow> consumer_snapshot" where
  "compiled_in now content = \<lparr>cn_content = content, cn_schema_version = 0, cn_resource_version = [],
     cn_loaded_at = now, cn_stale_since = None\<rparr>"

definition consumer_from_spec :: "instant \<Rightarrow> consumer_spec \<Rightarrow> string \<Rightarrow> consumer_snapshot" where
  "consumer_from_spec now spec rv = \<lparr>cn_content = cns_content spec, cn_schema_version = cns_schema_version spec,
     cn_resource_version = rv, cn_loaded_at = now, cn_stale_since = None\<rparr>"

definition with_stale_since :: "instant \<Rightarrow> consumer_snapshot \<Rightarrow> consumer_snapshot" where
  "with_stale_since moment s = s\<lparr>cn_stale_since := Some moment\<rparr>"

definition consumer_default_content :: json where
  "consumer_default_content = JObj []"

type_synonym json_parser = "string \<Rightarrow> string + json"

definition snapshot_from_proto :: "json_parser \<Rightarrow> instant \<Rightarrow> config_msg \<Rightarrow> string + consumer_snapshot" where
  "snapshot_from_proto parse now cfg =
     rbind (if cm_content_json cfg = [] then Inr consumer_default_content else parse (cm_content_json cfg)) (\<lambda>content.
     Inr \<lparr>cn_content = content, cn_schema_version = cm_schema_version cfg,
       cn_resource_version = cm_resource_version cfg, cn_loaded_at = now, cn_stale_since = None\<rparr>)"

section \<open>The stream driver\<close>

definition CONSUMER_BACKOFF_STEPS_SECS :: "u64 list" where
  "CONSUMER_BACKOFF_STEPS_SECS = [1, 2, 4, 8, 16, 30]"

definition consumer_backoff_delay :: "usize \<Rightarrow> u64" where
  "consumer_backoff_delay attempt =
     (if unat attempt < length CONSUMER_BACKOFF_STEPS_SECS then CONSUMER_BACKOFF_STEPS_SECS ! unat attempt
      else last CONSUMER_BACKOFF_STEPS_SECS)"

type_synonym stores = "(string, consumer_snapshot) hmap"

text \<open>\<open>apply\<close>: the cursor advances with every version seen, the store only with a parseable change of a
  tracked name.\<close>

definition consumer_apply ::
  "json_parser \<Rightarrow> instant \<Rightarrow> config_event \<Rightarrow> stores \<times> string \<Rightarrow> stores \<times> string" where
  "consumer_apply parse now ev st = (case st of (stores, resume_rv) \<Rightarrow>
     (case ce_config ev of
        None \<Rightarrow> (stores, resume_rv)
      | Some cfg \<Rightarrow>
          let resume_rv' = (if cm_resource_version cfg \<noteq> [] then cm_resource_version cfg else resume_rv)
          in (case hm_get stores (cm_name cfg) of
                None \<Rightarrow> (stores, resume_rv')
              | Some _ \<Rightarrow>
                  (case ce_type ev of
                     Deleted \<Rightarrow> (stores, resume_rv')
                   | _ \<Rightarrow> (case snapshot_from_proto parse now cfg of
                         Inr snap \<Rightarrow> (hm_insert (cm_name cfg) snap stores, resume_rv')
                       | Inl _ \<Rightarrow> (stores, resume_rv'))))))"

definition consumer_mark_all_stale :: "instant \<Rightarrow> stores \<Rightarrow> stores" where
  "consumer_mark_all_stale now stores =
     hm_map_values (\<lambda>s. if cn_stale_since s \<noteq> None then s else s\<lparr>cn_stale_since := Some now\<rparr>) stores"

datatype consumer_stream_end = Clean | Stream_error

text \<open>A round of the reconnect loop: the subscription fails, or it opens, delivers its events and ends.
  The time of a failure is when the stores are marked.\<close>

datatype round = Refused instant | Opened "(instant \<times> config_event) list" consumer_stream_end instant

record driver =
  dv_stores :: stores
  dv_resume_rv :: string
  dv_attempt :: usize
  dv_last_event_at :: "instant option"
  dv_requests :: "string list"
  dv_sleeps :: "u64 list"

definition driver_new :: "stores \<Rightarrow> driver" where
  "driver_new stores = \<lparr>dv_stores = stores, dv_resume_rv = [], dv_attempt = 0, dv_last_event_at = None,
     dv_requests = [], dv_sleeps = []\<rparr>"

definition pump_event :: "json_parser \<Rightarrow> driver \<Rightarrow> instant \<times> config_event \<Rightarrow> driver" where
  "pump_event parse d te = (case te of (t, ev) \<Rightarrow>
     (case consumer_apply parse t ev (dv_stores d, dv_resume_rv d) of (stores, rv) \<Rightarrow>
        d\<lparr>dv_last_event_at := Some t, dv_stores := stores, dv_resume_rv := rv\<rparr>))"

definition consumer_pump :: "json_parser \<Rightarrow> (instant \<times> config_event) list \<Rightarrow> driver \<Rightarrow> driver" where
  "consumer_pump parse evs d = foldl (pump_event parse) d evs"

definition driver_round :: "json_parser \<Rightarrow> driver \<Rightarrow> round \<Rightarrow> driver" where
  "driver_round parse d r =
     (let d1 = d\<lparr>dv_requests := dv_requests d @ [dv_resume_rv d]\<rparr>;
          d2 = (case r of
              Opened evs e t \<Rightarrow>
                (let d' = consumer_pump parse evs (d1\<lparr>dv_attempt := 0\<rparr>)
                 in case e of Clean \<Rightarrow> d'
                    | Stream_error \<Rightarrow> d'\<lparr>dv_stores := consumer_mark_all_stale t (dv_stores d')\<rparr>)
            | Refused t \<Rightarrow> d1\<lparr>dv_stores := consumer_mark_all_stale t (dv_stores d1)\<rparr>)
      in d2\<lparr>dv_sleeps := dv_sleeps d2 @ [consumer_backoff_delay (dv_attempt d2)],
            dv_attempt := saturating_add (dv_attempt d2) 1\<rparr>)"

text \<open>The loop never exits: it is as long as the rounds it is given.\<close>

definition driver_run :: "json_parser \<Rightarrow> round list \<Rightarrow> driver \<Rightarrow> driver" where
  "driver_run parse rounds d = foldl (driver_round parse) d rounds"

section \<open>The raw event stream\<close>

record event_stream =
  es_resume_rv :: string
  es_attempt :: usize
  es_yielded :: "config_event list"
  es_requests :: "string list"
  es_sleeps :: "u64 list"

definition yield_event :: "event_stream \<Rightarrow> instant \<times> config_event \<Rightarrow> event_stream" where
  "yield_event s te = (case te of (t, ev) \<Rightarrow>
     s\<lparr>es_resume_rv := (case ce_config ev of
          Some cfg \<Rightarrow> if cm_resource_version cfg \<noteq> [] then cm_resource_version cfg else es_resume_rv s
        | None \<Rightarrow> es_resume_rv s),
       es_yielded := es_yielded s @ [ev]\<rparr>)"

definition stream_round :: "event_stream \<Rightarrow> round \<Rightarrow> event_stream" where
  "stream_round s r =
     (let s1 = s\<lparr>es_requests := es_requests s @ [es_resume_rv s]\<rparr>;
          s2 = (case r of
              Opened evs e t \<Rightarrow> foldl yield_event (s1\<lparr>es_attempt := 0\<rparr>) evs
            | Refused t \<Rightarrow> s1)
      in s2\<lparr>es_sleeps := es_sleeps s2 @ [consumer_backoff_delay (es_attempt s2)],
            es_attempt := saturating_add (es_attempt s2) 1\<rparr>)"

definition reconnecting_event_stream :: "round list \<Rightarrow> event_stream" where
  "reconnecting_event_stream rounds =
     foldl stream_round \<lparr>es_resume_rv = [], es_attempt = 0, es_yielded = [], es_requests = [], es_sleeps = []\<rparr> rounds"

section \<open>The client\<close>

datatype client_error = InvalidEndpoint string | Transport string | NoNames | Rpc status

text \<open>\<open>watch\<close> answers one handle for each name, all reading the stores of the driver it has spawned.\<close>

definition watch_stores :: "instant \<Rightarrow> string list \<Rightarrow> stores" where
  "watch_stores now names = foldl (\<lambda>m nm. hm_insert nm (consumer_default now) m) [] names"

definition client_watch :: "instant \<Rightarrow> string list \<Rightarrow> client_error + (string list \<times> driver)" where
  "client_watch now names =
     (if names = [] then Inl NoNames else Inr (names, driver_new (watch_stores now names)))"

definition client_watch_one :: "instant \<Rightarrow> string \<Rightarrow> client_error + (string \<times> driver)" where
  "client_watch_one now nm = rbind (client_watch now [nm]) (\<lambda>(handles, d). Inr (handles ! 0, d))"

definition handle_get_snapshot :: "string \<Rightarrow> driver \<Rightarrow> consumer_snapshot option" where
  "handle_get_snapshot nm d = hm_get (dv_stores d) nm"

definition apply_yaml :: "(json \<Rightarrow> string) \<Rightarrow> int \<Rightarrow> json \<Rightarrow> string" where
  "apply_yaml to_string v content =
     to_string (JObj [(''schema_version'', json_of_i64 v), (''content'', content)])"


section \<open>What happened, seen from one name\<close>

datatype happening = Ev instant config_event | Lost instant

fun happenings :: "round \<Rightarrow> happening list" where
  "happenings (Refused t) = [Lost t]"
| "happenings (Opened evs e t) = map (\<lambda>(t, ev). Ev t ev) evs @ (if e = Stream_error then [Lost t] else [])"

definition history :: "round list \<Rightarrow> happening list" where
  "history rounds = concat (map happenings rounds)"

text \<open>The snapshot an event puts in place for a name.\<close>

fun applied :: "json_parser \<Rightarrow> string \<Rightarrow> happening \<Rightarrow> consumer_snapshot option" where
  "applied parse nm (Lost t) = None"
| "applied parse nm (Ev t ev) = (case ce_config ev of
       None \<Rightarrow> None
     | Some cfg \<Rightarrow> if cm_name cfg = nm \<and> ce_type ev \<noteq> Deleted
         then (case snapshot_from_proto parse t cfg of Inr s \<Rightarrow> Some s | Inl _ \<Rightarrow> None) else None)"

definition newest_applied :: "json_parser \<Rightarrow> string \<Rightarrow> consumer_snapshot \<Rightarrow> happening list \<Rightarrow> consumer_snapshot" where
  "newest_applied parse nm dflt hs = last (dflt # List.map_filter (applied parse nm) hs)"

fun lost_at :: "happening \<Rightarrow> instant option" where
  "lost_at (Lost t) = Some t"
| "lost_at (Ev t ev) = None"

text \<open>When the connection was lost for the first time after the last change of the name.\<close>

definition losses :: "json_parser \<Rightarrow> string \<Rightarrow> happening list \<Rightarrow> instant list" where
  "losses parse nm hs =
     List.map_filter lost_at (rev (takeWhile (\<lambda>h. applied parse nm h = None) (rev hs)))"

definition lost_since :: "json_parser \<Rightarrow> string \<Rightarrow> happening list \<Rightarrow> instant option" where
  "lost_since parse nm hs = (case losses parse nm hs of [] \<Rightarrow> None | t # _ \<Rightarrow> Some t)"

text \<open>The last version seen, of any name.\<close>

fun version_of :: "happening \<Rightarrow> string option" where
  "version_of (Lost t) = None"
| "version_of (Ev t ev) = (case ce_config ev of
       None \<Rightarrow> None | Some cfg \<Rightarrow> if cm_resource_version cfg \<noteq> [] then Some (cm_resource_version cfg) else None)"

definition cursor :: "happening list \<Rightarrow> string" where
  "cursor hs = last ([] # List.map_filter version_of hs)"

text \<open>The effect of one happening on the driver.\<close>

fun happen :: "json_parser \<Rightarrow> stores \<times> string \<Rightarrow> happening \<Rightarrow> stores \<times> string" where
  "happen parse st (Ev t ev) = consumer_apply parse t ev st"
| "happen parse st (Lost t) = (consumer_mark_all_stale t (fst st), snd st)"

definition name_step :: "json_parser \<Rightarrow> string \<Rightarrow> consumer_snapshot \<Rightarrow> happening \<Rightarrow> consumer_snapshot" where
  "name_step parse nm s h = (case applied parse nm h of
       Some s' \<Rightarrow> s'
     | None \<Rightarrow> (case lost_at h of
           Some t \<Rightarrow> if cn_stale_since s \<noteq> None then s else s\<lparr>cn_stale_since := Some t\<rparr>
         | None \<Rightarrow> s))"

lemma happen_store:
  "hm_get (fst (happen parse st h)) nm = map_option (\<lambda>s. name_step parse nm s h) (hm_get (fst st) nm)"
  by (cases h; cases st)
    (auto simp: consumer_apply_def consumer_mark_all_stale_def name_step_def Let_def option.map_ident
      split: option.splits sum.splits event_type.splits)

lemma happen_cursor:
  "snd (happen parse st h) = (case version_of h of Some v \<Rightarrow> v | None \<Rightarrow> snd st)"
  by (cases h; cases st)
    (auto simp: consumer_apply_def Let_def split: option.splits sum.splits event_type.splits)

lemma happen_all_store:
  "hm_get (fst (foldl (happen parse) st hs)) nm = map_option (\<lambda>s. foldl (name_step parse nm) s hs) (hm_get (fst st) nm)"
  by (induction hs arbitrary: st) (simp_all add: happen_store option.map_comp comp_def option.map_ident)

lemma map_filter_snoc: "List.map_filter f (xs @ [x]) = List.map_filter f xs @ (case f x of Some y \<Rightarrow> [y] | None \<Rightarrow> [])"
  by (simp add: List.map_filter_def split: option.splits)

lemma happen_all_cursor:
  "snd (foldl (happen parse) st hs) = last (snd st # List.map_filter version_of hs)"
proof (induction hs rule: rev_induct)
  case (snoc h hs)
  then show ?case by (simp add: happen_cursor map_filter_snoc split: option.splits)
qed (simp add: List.map_filter_simps)

lemma applied_fresh: "applied parse nm h = Some s \<Longrightarrow> cn_stale_since s = None"
  by (cases h) (auto simp: snapshot_from_proto_def rbind_def split: option.splits sum.splits if_splits)

text \<open>The fold of a name is its newest snapshot, stale since the first loss after it.\<close>

lemma name_view:
  assumes "cn_stale_since dflt = None"
  shows "foldl (name_step parse nm) dflt hs = (newest_applied parse nm dflt hs)\<lparr>cn_stale_since := lost_since parse nm hs\<rparr>"
proof (induction hs rule: rev_induct)
  case Nil
  from assms show ?case by (simp add: newest_applied_def lost_since_def losses_def List.map_filter_simps)
next
  case (snoc h hs)
  show ?case
  proof (cases "applied parse nm h")
    case (Some s)
    with applied_fresh [OF Some] show ?thesis
      by (cases s) (simp add: name_step_def newest_applied_def lost_since_def losses_def map_filter_snoc List.map_filter_simps)
  next
    case None
    then have l: "losses parse nm (hs @ [h]) = losses parse nm hs @ (case lost_at h of Some t \<Rightarrow> [t] | None \<Rightarrow> [])"
      by (simp add: losses_def map_filter_snoc)
    from None have n: "newest_applied parse nm dflt (hs @ [h]) = newest_applied parse nm dflt hs"
      by (simp add: newest_applied_def map_filter_snoc)
    show ?thesis
      using None snoc by (simp add: name_step_def n lost_since_def l split: option.splits list.splits)
  qed
qed

text \<open>A round of the driver is its happenings.\<close>

lemma pump_happens:
  "(dv_stores (consumer_pump parse evs d), dv_resume_rv (consumer_pump parse evs d)) =
     foldl (happen parse) (dv_stores d, dv_resume_rv d) (map (\<lambda>(t, ev). Ev t ev) evs)"
  unfolding consumer_pump_def
  by (induction evs arbitrary: d) (auto simp: pump_event_def split: prod.splits)

lemma round_happens:
  "(dv_stores (driver_round parse d r), dv_resume_rv (driver_round parse d r)) =
     foldl (happen parse) (dv_stores d, dv_resume_rv d) (happenings r)"
proof (cases r)
  case (Opened evs e t)
  with pump_happens [of parse evs "d\<lparr>dv_requests := dv_requests d @ [dv_resume_rv d], dv_attempt := 0\<rparr>"]
  show ?thesis
    by (auto simp: driver_round_def Let_def prod_eq_iff split: consumer_stream_end.splits)
qed (simp add: driver_round_def)

lemma run_happens:
  "(dv_stores (driver_run parse rounds d), dv_resume_rv (driver_run parse rounds d)) =
     foldl (happen parse) (dv_stores d, dv_resume_rv d) (history rounds)"
  unfolding driver_run_def history_def
  by (induction rounds arbitrary: d) (simp_all add: round_happens)


section \<open>Requests and sleeps\<close>

definition streak :: "round list \<Rightarrow> nat" where
  "streak rounds = foldl (\<lambda>n r. case r of Opened evs e t \<Rightarrow> 1 | Refused t \<Rightarrow> n + 1) 0 rounds"

definition failures_before :: "round list \<Rightarrow> nat \<Rightarrow> nat" where
  "failures_before rounds k = (case rounds ! k of Opened evs e t \<Rightarrow> 0 | Refused t \<Rightarrow> streak (take k rounds))"

lemma consumer_backoff_schedule: "consumer_backoff_delay a = schedule (unat a)"
proof -
  have "CONSUMER_BACKOFF_STEPS_SECS = BACKOFF_STEPS_SECS"
    by (simp add: CONSUMER_BACKOFF_STEPS_SECS_def BACKOFF_STEPS_SECS_def)
  then have "consumer_backoff_delay a = backoff_delay a"
    by (simp add: consumer_backoff_delay_def backoff_delay_def)
  then show ?thesis by (simp add: backoff_delay_schedule_eq)
qed

lemma pump_keeps [simp]:
  "dv_attempt (consumer_pump parse evs d) = dv_attempt d"
  "dv_requests (consumer_pump parse evs d) = dv_requests d"
  "dv_sleeps (consumer_pump parse evs d) = dv_sleeps d"
  unfolding consumer_pump_def
  by (induction evs arbitrary: d) (auto simp: pump_event_def split: prod.splits)

lemma schedule_capped: "schedule (min (2 ^ 64 - 1) n) = schedule n"
  by (cases "n \<le> 2 ^ 64 - 1") (simp_all add: min_def schedule_def)

lemma round_fields:
  "dv_requests (driver_round parse d r) = dv_requests d @ [dv_resume_rv d]"
  "dv_sleeps (driver_round parse d r) = dv_sleeps d @
     [consumer_backoff_delay (case r of Opened evs e t \<Rightarrow> 0 | Refused t \<Rightarrow> dv_attempt d)]"
  "dv_attempt (driver_round parse d r) =
     saturating_add (case r of Opened evs e t \<Rightarrow> 0 | Refused t \<Rightarrow> dv_attempt d) 1"
  by (simp_all add: driver_round_def Let_def split: round.splits consumer_stream_end.splits)

lemma run_snoc: "driver_run parse (rounds @ [r]) d = driver_round parse (driver_run parse rounds d) r"
  by (simp add: driver_run_def)

lemma run_attempt:
  "unat (dv_attempt (driver_run parse rounds (driver_new stores))) = min (2 ^ 64 - 1) (streak rounds)"
proof (induction rounds rule: rev_induct)
  case Nil
  then show ?case by (simp add: driver_run_def driver_new_def streak_def)
next
  case (snoc r rounds)
  have s: "streak (rounds @ [r]) = (case r of Opened evs e t \<Rightarrow> 1 | Refused t \<Rightarrow> streak rounds + 1)"
    by (simp add: streak_def split: round.splits)
  show ?case
    using snoc by (auto simp: run_snoc round_fields s unat_saturating_add split: round.splits)
qed

lemma run_requests:
  "dv_requests (driver_run parse rounds (driver_new stores)) =
     map (\<lambda>k. cursor (history (take k rounds))) [0..<length rounds]"
proof (induction rounds rule: rev_induct)
  case (snoc r rounds)
  have c: "dv_resume_rv (driver_run parse rounds (driver_new stores)) = cursor (history rounds)"
    using run_happens [of parse rounds "driver_new stores"]
    by (simp add: prod_eq_iff happen_all_cursor cursor_def) (simp add: driver_new_def)
  show ?case
    using snoc by (simp add: run_snoc round_fields c)
qed (simp add: driver_run_def driver_new_def)

lemma run_sleeps:
  "dv_sleeps (driver_run parse rounds (driver_new stores)) =
     map (\<lambda>k. schedule (failures_before rounds k)) [0..<length rounds]"
proof (induction rounds rule: rev_induct)
  case (snoc r rounds)
  have old: "map (\<lambda>k. schedule (failures_before (rounds @ [r]) k)) [0..<length rounds] =
      map (\<lambda>k. schedule (failures_before rounds k)) [0..<length rounds]"
    by (auto simp: failures_before_def nth_append split: round.splits)
  have "consumer_backoff_delay (dv_attempt (driver_run parse rounds (driver_new stores))) = schedule (streak rounds)"
    using run_attempt [of parse rounds stores] schedule_capped [of "streak rounds"]
    by (simp add: consumer_backoff_schedule)
  moreover have "failures_before (rounds @ [r]) (length rounds) =
      (case r of Opened evs e t \<Rightarrow> 0 | Refused t \<Rightarrow> streak rounds)"
    by (simp add: failures_before_def split: round.splits)
  ultimately show ?case
    using snoc old by (cases r) (simp_all add: run_snoc round_fields consumer_backoff_schedule)
qed (simp add: driver_run_def driver_new_def)

text \<open>The raw stream.\<close>

lemma yield_keeps:
  "es_attempt (foldl yield_event s evs) = es_attempt s"
  "es_requests (foldl yield_event s evs) = es_requests s"
  "es_sleeps (foldl yield_event s evs) = es_sleeps s"
  "es_yielded (foldl yield_event s evs) = es_yielded s @ map snd evs"
  "es_resume_rv (foldl yield_event s evs) =
     last (es_resume_rv s # List.map_filter version_of (map (\<lambda>(t, ev). Ev t ev) evs))"
  by (induction evs arbitrary: s)
    (auto simp: yield_event_def List.map_filter_simps split: prod.splits option.splits)

lemma stream_follows_driver:
  assumes "es_resume_rv s = dv_resume_rv d" "es_attempt s = dv_attempt d"
    "es_requests s = dv_requests d" "es_sleeps s = dv_sleeps d"
  shows "es_resume_rv (stream_round s r) = dv_resume_rv (driver_round parse d r)"
    "es_attempt (stream_round s r) = dv_attempt (driver_round parse d r)"
    "es_requests (stream_round s r) = dv_requests (driver_round parse d r)"
    "es_sleeps (stream_round s r) = dv_sleeps (driver_round parse d r)"
proof -
  have rv: "dv_resume_rv (driver_round parse d r) = last (dv_resume_rv d # List.map_filter version_of (happenings r))"
    using round_happens [of parse d r] by (simp add: prod_eq_iff happen_all_cursor)
  show "es_resume_rv (stream_round s r) = dv_resume_rv (driver_round parse d r)"
    unfolding rv using assms by (cases r) (simp_all add: stream_round_def yield_keeps List.map_filter_def)
qed (use assms in \<open>simp_all add: round_fields\<close>, simp_all add: stream_round_def yield_keeps Let_def split: round.splits)

lemma raw_stream_follows:
  "es_requests (reconnecting_event_stream rounds) = dv_requests (driver_run parse rounds (driver_new stores)) \<and>
   es_sleeps (reconnecting_event_stream rounds) = dv_sleeps (driver_run parse rounds (driver_new stores)) \<and>
   es_attempt (reconnecting_event_stream rounds) = dv_attempt (driver_run parse rounds (driver_new stores)) \<and>
   es_resume_rv (reconnecting_event_stream rounds) = dv_resume_rv (driver_run parse rounds (driver_new stores))"
proof (induction rounds rule: rev_induct)
  case (snoc r rounds)
  then show ?case
    using stream_follows_driver [of "reconnecting_event_stream rounds" "driver_run parse rounds (driver_new stores)" r]
    by (simp add: run_snoc reconnecting_event_stream_def)
qed (simp add: reconnecting_event_stream_def driver_run_def driver_new_def)

lemma raw_stream_yields:
  "es_yielded (reconnecting_event_stream rounds) = concat (map (\<lambda>r. case r of
     Opened evs e t \<Rightarrow> map snd evs | Refused t \<Rightarrow> []) rounds)"
proof (induction rounds rule: rev_induct)
  case (snoc r rounds)
  then show ?case
    by (simp add: reconnecting_event_stream_def stream_round_def yield_keeps Let_def split: round.splits)
qed (simp add: reconnecting_event_stream_def)

lemma watch_stores_get:
  "hm_get (watch_stores now names) nm = (if nm \<in> set names then Some (consumer_default now) else None)"
proof -
  have "hm_get (foldl (\<lambda>m nm. hm_insert nm (consumer_default now) m) m names) nm =
      (if nm \<in> set names then Some (consumer_default now) else hm_get m nm)" for m
    by (induction names arbitrary: m) auto
  then show ?thesis by (simp add: watch_stores_def)
qed

section \<open>Properties\<close>

text \<open>What a handle reads, whatever the connections delivered and however they failed: the
  snapshot of the last event of its name that was not a deletion and whose content parsed (the default
  until there is one), and that snapshot is marked stale exactly when a connection was lost or refused
  after it, since the first such loss.\<close>

lemma consumer_view_exact:
  assumes "client_watch t0 names = Inr (handles, d)" "nm \<in> set handles"
  shows "handle_get_snapshot nm (driver_run parse rounds d) =
    Some ((newest_applied parse nm (consumer_default t0) (history rounds))\<lparr>cn_stale_since := lost_since parse nm (history rounds)\<rparr>)"
proof -
  have "handles = names" "d = driver_new (watch_stores t0 names)"
    using assms(1) by (auto simp: client_watch_def split: if_splits)
  moreover have "foldl (name_step parse nm) (consumer_default t0) (history rounds) =
      (newest_applied parse nm (consumer_default t0) (history rounds))\<lparr>cn_stale_since := lost_since parse nm (history rounds)\<rparr>"
    by (rule name_view) (simp add: consumer_default_def)
  ultimately show ?thesis
    using assms(2) run_happens [of parse rounds d] happen_all_store [of parse "(dv_stores d, dv_resume_rv d)" "history rounds" nm]
    by (simp add: handle_get_snapshot_def prod_eq_iff driver_new_def watch_stores_get)
qed

text \<open>Property C32. The client never gives up and never skips: every round sends one subscription request,
  carrying the last resource version any earlier event had, and is followed by a sleep of between 1
  and 30 seconds given by the number of failures since the last open stream; the raw event stream sends
  the same requests, sleeps as long, and yields every event once and in order.\<close>

theorem consumer_reconnects_forever:
  "dv_requests (driver_run parse rounds (driver_new stores)) =
     map (\<lambda>k. cursor (history (take k rounds))) [0..<length rounds] \<and>
   dv_sleeps (driver_run parse rounds (driver_new stores)) =
     map (\<lambda>k. schedule (failures_before rounds k)) [0..<length rounds] \<and>
   list_all (\<lambda>secs. 1 \<le> secs \<and> secs \<le> 30) (dv_sleeps (driver_run parse rounds (driver_new stores))) \<and>
   es_requests (reconnecting_event_stream rounds) = dv_requests (driver_run parse rounds (driver_new stores)) \<and>
   es_sleeps (reconnecting_event_stream rounds) = dv_sleeps (driver_run parse rounds (driver_new stores)) \<and>
   es_yielded (reconnecting_event_stream rounds) =
     concat (map (\<lambda>r. case r of Opened evs e t \<Rightarrow> map snd evs | Refused t \<Rightarrow> []) rounds)"
  using raw_stream_follows [of rounds parse stores]
  by (simp add: run_requests run_sleeps raw_stream_yields list_all_iff schedule_props)

definition demo_msg :: "string \<Rightarrow> string \<Rightarrow> config_msg" where
  "demo_msg nm rv = \<lparr>cm_namespace = ''ns'', cm_name = nm, cm_schema_version = 1, cm_content_json = [],
     cm_resource_version = rv, cm_age_ms = 0, cm_stale_since_ms = -1\<rparr>"

definition demo_rounds :: "round list" where
  "demo_rounds = [Refused 1, Opened [(2, \<lparr>ce_type = Snapshot, ce_config = Some (demo_msg ''a'' ''7'')\<rparr>),
     (3, \<lparr>ce_type = Deleted, ce_config = Some (demo_msg ''a'' ''8'')\<rparr>)] Stream_error 4]"

end
