(* ===== verification/End_To_End.thy ===== *)
theory End_To_End
  imports Startup Consumer
begin

text \<open>
  From a write to its readers: the write path, the watch that reports the write, the cache behind
  \<open>Get\<close>, the fan-out to a subscriber and the handle of a client, put together. What the API server
  promises of a watch is stated where it is used.
\<close>

section \<open>What a handle shows\<close>

text \<open>What a handle shows of a snapshot, and the change an event makes to it.\<close>

definition shown :: "consumer_snapshot \<Rightarrow> json \<times> u32 \<times> string" where
  "shown s = (cn_content s, cn_schema_version s, cn_resource_version s)"

definition change :: "json_parser \<Rightarrow> string \<Rightarrow> config_event \<Rightarrow> (json \<times> u32 \<times> string) option" where
  "change parse nm ev = map_option shown (applied parse nm (Ev 0 ev))"

lemma map_filter_append: "List.map_filter f (xs @ ys) = List.map_filter f xs @ List.map_filter f ys"
  by (simp add: List.map_filter_def)

lemma applied_shown: "map_option shown (applied parse nm (Ev t ev)) = change parse nm ev"
  by (auto simp: change_def shown_def snapshot_from_proto_def rbind_def split: option.splits sum.splits)

lemma shown_stale [simp]: "shown (s\<lparr>cn_stale_since := x\<rparr>) = shown s"
  by (simp add: shown_def)

lemma shown_step: "shown (name_step parse nm s (Ev t ev)) = (case change parse nm ev of Some v \<Rightarrow> v | None \<Rightarrow> shown s)"
  using applied_shown [of parse nm t ev, symmetric]
  by (auto simp: name_step_def simp del: applied.simps split: option.splits)

lemma shown_lost: "shown (name_step parse nm s (Lost t)) = shown s"
  by (simp add: name_step_def)

lemma shown_events:
  "shown (foldl (name_step parse nm) s (map (\<lambda>(t, ev). Ev t ev) evs)) =
     last (shown s # List.map_filter (change parse nm) (map snd evs))"
proof (induction evs rule: rev_induct)
  case (snoc te evs)
  then show ?case
    by (cases te) (simp add: shown_step map_filter_snoc split: option.splits)
qed (simp add: List.map_filter_def)

lemma round_shown:
  assumes "hm_get (dv_stores d) nm = Some s"
  shows "\<exists>s'. handle_get_snapshot nm (driver_round parse d (Opened evs e t)) = Some s' \<and>
    shown s' = last (shown s # List.map_filter (change parse nm) (map snd evs))"
  using assms round_happens [of parse d "Opened evs e t"]
    happen_all_store [of parse "(dv_stores d, dv_resume_rv d)" "happenings (Opened evs e t)" nm]
  by (simp add: handle_get_snapshot_def prod_eq_iff shown_events shown_lost)


section \<open>The object a watch reports\<close>

text \<open>The derived deserialiser of \<open>ConfigSpec\<close> reads the two fields; only \<open>content\<close> may be missing.\<close>

definition reads_back :: "codecs \<Rightarrow> bool" where
  "reads_back cd \<longleftrightarrow> (\<forall>v spec. spec_from_value cd v = Inr spec \<longrightarrow>
     fst (spec_view (Some v)) = spec_schema_version spec \<and>
     (\<forall>c. json_get ''content'' v = Some c \<longrightarrow> spec_content spec = c))"

text \<open>The JSON text of a value parses back to the value.\<close>

definition json_reads_back :: "codecs \<Rightarrow> json_parser \<Rightarrow> json \<Rightarrow> bool" where
  "json_reads_back cd parse v \<longleftrightarrow> (\<exists>js. to_json_string cd v = Inr js \<and> js \<noteq> [] \<and> parse js = Inr v)"

text \<open>An object as the cluster stores it under a key.\<close>

definition is_stored :: "codecs \<Rightarrow> 'w store \<Rightarrow> 'w \<Rightarrow> string \<Rightarrow> string \<Rightarrow> dynamic_object \<Rightarrow> bool" where
  "is_stored cd stored w ns nm obj \<longleftrightarrow>
     meta_namespace (obj_metadata obj) = Some ns \<and> meta_name (obj_metadata obj) = Some nm \<and>
     stored w (ns, nm) = spec_view (json_get ''spec'' (obj_data obj)) \<and> parse_config_object cd 0 obj \<noteq> None"

definition object_version :: "dynamic_object \<Rightarrow> string" where
  "object_version obj = unwrap_or_default (meta_resource_version (obj_metadata obj))"

definition object_labels :: "dynamic_object \<Rightarrow> labels" where
  "object_labels obj = (case meta_labels (obj_metadata obj) of Some l \<Rightarrow> l | None \<Rightarrow> [])"

lemma parse_stored:
  assumes "reads_back cd" "is_stored cd stored w ns nm obj" "stored w (ns, nm) = view_of_spec spec"
  shows "parse_config_object cd t obj =
    Some ((from_spec t nm ns spec (object_version obj))\<lparr>cs_labels := object_labels obj\<rparr>)"
proof -
  from assms(2) obtain v spec' where v: "json_get ''spec'' (obj_data obj) = Some v" "spec_from_value cd v = Inr spec'"
    by (auto simp: is_stored_def parse_config_object_def Let_def split: option.splits sum.splits)
  with assms have "spec_view (Some v) = view_of_spec spec"
    by (simp add: is_stored_def)
  then have "json_get ''content'' v = Some (spec_content spec)" "fst (spec_view (Some v)) = spec_schema_version spec"
    by (simp_all add: spec_view_def view_of_spec_def)
  with assms(1) v(2) have "spec' = spec"
    by (auto simp: reads_back_def)
  with v assms(2) show ?thesis
    by (auto simp: is_stored_def parse_config_object_def Let_def object_version_def object_labels_def from_spec_def
        unwrap_or_default_def split: option.splits)
qed

section \<open>The write\<close>

lemma log_rpc_entry_kube [simp]: "sv_kube (log_rpc_entry su req s) = sv_kube s"
  by (auto simp: log_rpc_entry_def request_id_def Let_def split: option.splits)

lemma rpc_apply_stored:
  assumes "kube_laws (su_kube su) stored" "spec_codec_ok (su_codecs su)"
    and "rpc_apply su ck req s = (Inr rv, s')"
  shows "\<exists>spec. spec_from_yaml (su_codecs su) (ar_yaml_content (rq_body req)) = Inr spec \<and>
    stored (sv_kube s') (ar_namespace (rq_body req), ar_name (rq_body req)) = view_of_spec spec"
proof -
  let ?b = "rq_body req"
  from assms(3) obtain s1 where a: "audited su ck req ''Apply'' (ar_namespace ?b) (ar_name ?b)
      (parse_config_schema_version (su_codecs su) (ar_yaml_content ?b)) id
      (handle_apply (su_kube su) (su_codecs su) (su_schema_lib su) (su_schema_table su) ?b) s1 = (Inr rv, s')"
    by (auto simp: rpc_apply_def Let_def io_bind_cases)
  then obtain w where h: "handle_apply (su_kube su) (su_codecs su) (su_schema_lib su) (su_schema_table su) ?b w =
      (Inr rv, sv_kube s')"
    by (auto simp: audited_def run_kube_def Let_def emit_record_def audit_emit_def maybe_emit_k8s_event_def
        split: prod.splits if_splits)
  show ?thesis
    using apply_inner_store [OF assms(1,2) h [unfolded handle_apply_def]] by auto
qed

section \<open>The read\<close>

lemma rpc_get_hit:
  assumes "\<not> sv_draining s" "authorize su req Read (gr_namespace (rq_body req)) (gr_name (rq_body req)) = Inr ()"
    and "config_cache_get (sv_cache s) (gr_namespace (rq_body req)) (gr_name (rq_body req)) = Some snap"
  shows "fst (rpc_get su ck req s) = Inr (snapshot_to_proto (su_codecs su) (ck_now ck) snap)"
proof -
  have "\<not> sv_draining (log_rpc_entry su req s)" "sv_cache (log_rpc_entry su req s) = sv_cache s"
    using assms(1) by (auto simp: log_rpc_entry_def request_id_def Let_def split: option.splits)
  with assms show ?thesis
    by (simp add: rpc_get_def io_bind_def guard_def io_of_def check_drain_def handle_get_def Let_def)
qed

lemma newest_none_later: "(\<forall>s \<in> set ss. cs_name s \<noteq> nm) \<Longrightarrow> newest ss ns nm = None"
  by (auto simp: newest_def find_None_iff)

lemma cache_after_watch:
  assumes "parse_config_object cd t obj = Some snap" "cs_namespace snap = ns" "cs_name snap = nm"
    and "ws_events stream = before @ (t, Apply obj) # later"
    and "\<forall>s \<in> set (stream_snapshots cd later). cs_name s \<noteq> nm"
    and "batch \<Longrightarrow> framed False (ws_events stream)" "batch \<Longrightarrow> \<not> frame_open False (ws_events stream)"
  shows "config_cache_get (fst (snd (pump_config_events cd t0 batch stream c lea))) ns nm = Some snap"
proof -
  have "newest (stream_snapshots cd (ws_events stream)) ns nm = Some snap"
    using assms(1-3) newest_none_later [OF assms(5)]
    by (simp add: assms(4) stream_snapshots_append stream_snapshots_Cons newest_append newest_Cons)
  then show ?thesis
    using get_route_all_framed [OF assms(6,7)] by (simp add: pump_config_events_split)
qed

section \<open>The subscription\<close>

text \<open>The frames a receiver of shard \<open>i\<close> gets while the pump handles a connection.\<close>

definition frames_received :: "shard_set \<Rightarrow> shard_set \<Rightarrow> nat \<Rightarrow> broadcast_frame list" where
  "frames_received sh sh' i = drop (length (sn_sent (sh_senders sh ! i))) (sn_sent (sh_senders sh' ! i))"

lemma frames_received_pump:
  assumes "i < length (sh_senders (pm_shards st))" "sn_receivers (sh_senders (pm_shards st) ! i) \<noteq> 0"
  shows "frames_received (pm_shards st) (pm_shards (pump_subscribe_namespace_events cd span_of window evs st)) i =
    List.map_filter (frame_of cd span_of) evs"
  using assms
  by (simp add: pump_subscribe_namespace_events_def coalesced_loop_immediate pump_immediate_fan_out
      frames_received_def fan_out_def)

lemma live_items_frames: "live_items (map Frame frs) = map (\<lambda>fr. (bf_event fr, bf_labels fr)) frs"
  by (induction frs) simp_all

lemma bridge_payloads:
  assumes "bridge_broadcast matches f (map Frame frs) ch = (Continue, ch')"
  shows "drop (length (payloads ch)) (payloads ch') = allowed matches f (map (\<lambda>fr. (bf_event fr, bf_labels fr)) frs)"
proof -
  have "payloads ch @ allowed matches f (live_items (map Frame frs)) = payloads ch'"
    using bridge_broadcast_delivers [of matches f "map Frame frs" ch] by (simp add: delivers_def assms)
  then have "payloads ch' = payloads ch @ allowed matches f (live_items (map Frame frs))" by simp
  then show ?thesis by (simp add: live_items_frames)
qed

text \<open>An event changes a name only if the snapshot it carries has that name.\<close>

lemma frame_changes:
  assumes "frame_of cd span_of e = Some fr" "change parse nm (bf_event fr) \<noteq> None"
  shows "\<exists>s \<in> set (stream_snapshots cd [e]). cs_name s = nm"
proof -
  obtain t ev where e: "e = (t, ev)" by (cases e)
  from assms(1) obtain ty obj snap where o: "event_object ev = Some (ty, obj)" "parse_config_object cd t obj = Some snap"
      "bf_event fr = \<lparr>ce_type = ty, ce_config = Some (snapshot_to_proto cd t snap)\<rparr>"
    by (auto simp: e frame_of_def process_namespace_event_def Let_def split: option.splits)
  with assms(2) have "cs_name snap = nm" "ty \<noteq> Deleted"
    by (auto simp: change_def snapshot_to_proto_def split: if_splits)
  with o show ?thesis
    by (cases ev) (auto simp: e stream_snapshots_Cons stream_snapshots_def List.map_filter_simps)
qed

lemma no_later_change:
  assumes "\<forall>s \<in> set (stream_snapshots cd later). cs_name s \<noteq> nm"
  shows "List.map_filter (change parse nm) (allowed matches f
    (map (\<lambda>fr. (bf_event fr, bf_labels fr)) (List.map_filter (frame_of cd span_of) later))) = []"
proof -
  have "change parse nm (bf_event fr) = None" if e: "e \<in> set later" "frame_of cd span_of e = Some fr" for e fr
  proof (rule ccontr)
    assume "change parse nm (bf_event fr) \<noteq> None"
    with frame_changes [OF e(2)] obtain s where s: "s \<in> set (stream_snapshots cd [e])" "cs_name s = nm" by blast
    from e(1) obtain xs ys where "later = xs @ e # ys" by (meson split_list)
    then have "set (stream_snapshots cd [e]) \<subseteq> set (stream_snapshots cd later)"
      using stream_snapshots_append [of cd xs "e # ys"] stream_snapshots_append [of cd "[e]" ys] by auto
    with s assms show False by auto
  qed
  then show ?thesis
    by (auto simp: allowed_def List.map_filter_def filter_empty_conv)
qed

lemma frame_of_apply:
  assumes "parse_config_object cd t obj = Some snap"
  shows "\<exists>fr. frame_of cd span_of (t, Apply obj) = Some fr \<and> bf_labels fr = cs_labels snap \<and>
    bf_event fr = \<lparr>ce_type = Modified, ce_config = Some (snapshot_to_proto cd t snap)\<rparr>"
  by (simp add: frame_of_def process_namespace_event_def Let_def assms)

lemma subscriber_sees:
  assumes "parse_config_object cd t obj = Some snap" "cs_name snap = nm"
    and "filter_allow matches f nm (cs_labels snap)"
    and "parse (cm_content_json (snapshot_to_proto cd t snap)) = Inr (cs_content snap)"
    and "cm_content_json (snapshot_to_proto cd t snap) \<noteq> []"
    and "evs = before @ (t, Apply obj) # later" "\<forall>s \<in> set (stream_snapshots cd later). cs_name s \<noteq> nm"
    and "i < length (sh_senders (pm_shards st))" "sn_receivers (sh_senders (pm_shards st) ! i) \<noteq> 0"
    and "bridge_broadcast matches f (map Frame (frames_received (pm_shards st)
      (pm_shards (pump_subscribe_namespace_events cd span_of window evs st)) i)) ch = (Continue, ch')"
    and "handle_get_snapshot nm d = Some s0" "map snd devs = drop (length (payloads ch)) (payloads ch')"
  shows "\<exists>s1. handle_get_snapshot nm (driver_round parse d (Opened devs e t')) = Some s1 \<and>
    shown s1 = (cs_content snap, cs_schema_version snap, cs_resource_version snap)"
proof -
  let ?items = "map (\<lambda>fr. (bf_event fr, bf_labels fr))" and ?frames = "List.map_filter (frame_of cd span_of)"
  from frame_of_apply [OF assms(1)] obtain fr where fr: "frame_of cd span_of (t, Apply obj) = Some fr"
      "bf_labels fr = cs_labels snap" "bf_event fr = \<lparr>ce_type = Modified, ce_config = Some (snapshot_to_proto cd t snap)\<rparr>"
    by blast
  have let_through: "filter_allows_event matches f (bf_event fr) (bf_labels fr)"
    using assms(2,3) by (simp add: filter_allows_event_def config_event_name_def fr snapshot_to_proto_def)
  have ch: "change parse nm (bf_event fr) = Some (cs_content snap, cs_schema_version snap, cs_resource_version snap)"
    using assms(2,4,5) by (simp add: change_def fr shown_def snapshot_from_proto_def rbind_def)
      (simp add: snapshot_to_proto_def shown_def)
  have "map snd devs = allowed matches f (?items (?frames before)) @ bf_event fr # allowed matches f (?items (?frames later))"
    using assms(12) bridge_payloads [OF assms(10)] let_through fr(1)
    by (simp add: frames_received_pump [OF assms(8,9)] assms(6) allowed_def List.map_filter_def)
  then have "List.map_filter (change parse nm) (map snd devs) =
      List.map_filter (change parse nm) (allowed matches f (?items (?frames before))) @
      [(cs_content snap, cs_schema_version snap, cs_resource_version snap)]"
    using no_later_change [OF assms(7), of parse matches f span_of] ch
    by (simp add: map_filter_append List.map_filter_simps)
  with round_shown [of d nm s0 parse devs e t'] assms(11) show ?thesis
    by (simp add: handle_get_snapshot_def)
qed

section \<open>Property\<close>

text \<open>Property C11. A write reaches its readers. Suppose an \<open>Apply\<close> call succeeds and the watches of the
  server then report the object the cluster stores, as the last of that name. Then \<open>Get\<close> by an
  authorized caller answers the version and content of the applied YAML text, whether or not the
  relist is batched; and a client whose subscription follows the broadcast and lets the name through
  holds a handle that shows that version and content, with the resource version of the object.\<close>

theorem write_reaches_readers:
  assumes "kube_laws (su_kube su) stored" "spec_codec_ok (su_codecs su)" "reads_back (su_codecs su)"
    and "\<forall>spec. spec_from_yaml (su_codecs su) (ar_yaml_content (rq_body req)) = Inr spec \<longrightarrow>
      json_reads_back (su_codecs su) parse (spec_content spec)"
    and "rpc_apply su ck req s = (Inr rv, s')"
    and "ns = ar_namespace (rq_body req)" "nm = ar_name (rq_body req)"
    and "is_stored (su_codecs su) stored (sv_kube s') ns nm obj"
    and "ws_events stream = before @ (t, Apply obj) # later"
    and "\<forall>x \<in> set (stream_snapshots (su_codecs su) later). cs_name x \<noteq> nm"
    and "batch \<Longrightarrow> framed False (ws_events stream)" "batch \<Longrightarrow> \<not> frame_open False (ws_events stream)"
    and "rq_body getter = \<lparr>gr_namespace = ns, gr_name = nm\<rparr>" "authorize su getter Read ns nm = Inr ()"
    and "\<not> sv_draining s'"
    and "filter_allow matches f nm (object_labels obj)"
    and "i < length (sh_senders (pm_shards st))" "sn_receivers (sh_senders (pm_shards st) ! i) \<noteq> 0"
    and "bridge_broadcast matches f (map Frame (frames_received (pm_shards st)
      (pm_shards (pump_subscribe_namespace_events (su_codecs su) span_of window (ws_events stream) st)) i)) ch = (Continue, ch')"
    and "handle_get_snapshot nm d = Some s0" "map snd devs = drop (length (payloads ch)) (payloads ch')"
  shows "\<exists>spec msg s1. spec_from_yaml (su_codecs su) (ar_yaml_content (rq_body req)) = Inr spec \<and>
    fst (rpc_get su ck' getter (s'\<lparr>sv_cache := fst (snd (pump_config_events (su_codecs su) t0 batch stream (sv_cache s') lea))\<rparr>))
      = Inr msg \<and>
    cm_schema_version msg = spec_schema_version spec \<and> parse (cm_content_json msg) = Inr (spec_content spec) \<and>
    handle_get_snapshot nm (driver_round parse d (Opened devs e t')) = Some s1 \<and>
    shown s1 = (spec_content spec, spec_schema_version spec, object_version obj)"
proof -
  let ?cd = "su_codecs su"
  let ?c = "fst (snd (pump_config_events ?cd t0 batch stream (sv_cache s') lea))"
  from rpc_apply_stored [OF assms(1,2,5)] obtain spec where spec:
      "spec_from_yaml ?cd (ar_yaml_content (rq_body req)) = Inr spec" "stored (sv_kube s') (ns, nm) = view_of_spec spec"
    by (auto simp: assms(6,7))
  define snap where "snap = (from_spec t nm ns spec (object_version obj))\<lparr>cs_labels := object_labels obj\<rparr>"
  have snap: "parse_config_object ?cd t obj = Some snap"
    unfolding snap_def by (rule parse_stored [OF assms(3,8) spec(2)])
  have fields: "cs_namespace snap = ns" "cs_name snap = nm" "cs_labels snap = object_labels obj"
      "cs_content snap = spec_content spec" "cs_schema_version snap = spec_schema_version spec"
      "cs_resource_version snap = object_version obj" "cs_content_json_cache snap = None"
    by (simp_all add: snap_def from_spec_def)
  from assms(4) spec(1) obtain js where js: "to_json_string ?cd (spec_content spec) = Inr js" "js \<noteq> []" "parse js = Inr (spec_content spec)"
    unfolding json_reads_back_def by blast
  have json: "cm_content_json (snapshot_to_proto ?cd now snap) = js" for now
    using js(1) by (simp add: snapshot_to_proto_def content_json_def fields ok_or_default_def)
  have "config_cache_get ?c ns nm = Some snap"
    by (rule cache_after_watch [OF snap fields(1,2) assms(9-12)])
  then have "fst (rpc_get su ck' getter (s'\<lparr>sv_cache := ?c\<rparr>)) = Inr (snapshot_to_proto ?cd (ck_now ck') snap)"
    using assms(13-15) by (intro rpc_get_hit) simp_all
  moreover have "cm_schema_version (snapshot_to_proto ?cd (ck_now ck') snap) = spec_schema_version spec"
    by (simp add: snapshot_to_proto_def fields)
  moreover have "\<exists>s1. handle_get_snapshot nm (driver_round parse d (Opened devs e t')) = Some s1 \<and>
      shown s1 = (cs_content snap, cs_schema_version snap, cs_resource_version snap)"
    by (rule subscriber_sees [OF snap fields(2) _ _ _ assms(9,10,17-21)])
      (use assms(16) js in \<open>simp_all add: fields json\<close>)
  ultimately show ?thesis
    using spec(1) js(3) by (auto simp: fields json)
qed

definition demo_pump :: pump_state where
  "demo_pump = \<lparr>pm_shards = \<lparr>sh_senders = [\<lparr>sn_receivers = 1, sn_sent = []\<rparr>], sh_next = 1\<rparr>, pm_buf = [], pm_events = 0\<rparr>"

definition demo_written :: dynamic_object where
  "demo_written = demo_stored_object ''ns'' ''a'' (JObj [(''schema_version'', JNum (PosInt 3)), (''content'', JNull)]) 1"

definition demo_watch :: "dynamic_object watch_stream" where
  "demo_watch = \<lparr>ws_events = [(5, Apply demo_written)], ws_end = Ended\<rparr>"

definition demo_broadcast :: config_event where
  "demo_broadcast = \<lparr>ce_type = Modified, ce_config = Some \<lparr>cm_namespace = ''ns'', cm_name = ''a'', cm_schema_version = 3,
     cm_content_json = ''null'', cm_resource_version = ''1'', cm_age_ms = elapsed_ms 5 5, cm_stale_since_ms = stale_ms 5 None\<rparr>\<rparr>"

lemma demo_written_parsed: "parse_config_object demo_codecs t demo_written =
    Some (from_spec t ''a'' ''ns'' (demo_spec 3) ''1'')"
proof -
  have "show_nat 1 = ''1''" by code_simp
  then show ?thesis
    by (simp add: parse_config_object_def demo_written_def demo_stored_object_def empty_meta_def demo_codecs_def
        demo_spec_def Let_def)
qed

lemma demo_rpc_apply:
  "\<exists>s'. rpc_apply demo_setup demo_clocks (demo_call (demo_req ''a'' ''3'')) demo_server = (Inr ''1'', s') \<and>
     sv_kube s' = ([((''ns'', ''a''), JObj [(''schema_version'', JNum (PosInt 3)), (''content'', JNull)])], 1) \<and>
     \<not> sv_draining s'"
proof -
  have body: "rq_body (demo_call b) = b" for b :: apply_request by (simp add: demo_call_def)
  have "show_nat 1 = ''1''" by code_simp
  then show ?thesis
    using demo_apply
    by (auto simp: rpc_apply_def io_bind_def guard_def check_drain_def io_of_def authorize_def
      rate_limit_apply_def apply_admission_def effective_apply_rate_def quota_for_def audited_def run_kube_def
      log_rpc_entry_def demo_request_id body demo_setup_def demo_server_def emit_record_def
      maybe_emit_k8s_event_def audit_emit_def Let_def)
qed

lemma demo_frames:
  "frames_received (pm_shards demo_pump) (pm_shards (pump_subscribe_namespace_events demo_codecs (\<lambda>_. None) 0
     (ws_events demo_watch) demo_pump)) 0 =
   [\<lparr>bf_sent_at = 5, bf_event = demo_broadcast, bf_labels = [], bf_parent_span = None\<rparr>]"
proof -
  have "frame_of demo_codecs (\<lambda>_. None) (5, Apply demo_written) =
      Some \<lparr>bf_sent_at = 5, bf_event = demo_broadcast, bf_labels = [], bf_parent_span = None\<rparr>"
  proof -
    have "parent_span_of (\<lambda>_. None) demo_written = None"
      by (simp add: parent_span_of_def demo_written_def demo_stored_object_def empty_meta_def)
    then show ?thesis
      by (simp add: frame_of_def process_namespace_event_def Let_def demo_written_parsed)
        (simp add: from_spec_def demo_broadcast_def snapshot_to_proto_def content_json_def demo_spec_def
          ok_or_default_def demo_codecs_def Let_def)
  qed
  then show ?thesis
    by (subst frames_received_pump) (simp_all add: demo_pump_def demo_watch_def List.map_filter_simps)
qed

theorem write_reaches_readers_witness:
  "\<exists>s' s1. rpc_apply demo_setup demo_clocks (demo_call (demo_req ''a'' ''3'')) demo_server = (Inr ''1'', s') \<and>
     handle_get_snapshot ''a'' (driver_round (\<lambda>_. Inr JNull) (driver_new [(''a'', consumer_default 0)])
       (Opened [(6, demo_broadcast)] Clean 7)) = Some s1 \<and> shown s1 = (JNull, 3, ''1'')"
proof -
  from demo_rpc_apply obtain s' where s': "rpc_apply demo_setup demo_clocks (demo_call (demo_req ''a'' ''3'')) demo_server = (Inr ''1'', s')"
      "sv_kube s' = ([((''ns'', ''a''), JObj [(''schema_version'', JNum (PosInt 3)), (''content'', JNull)])], 1)"
      "\<not> sv_draining s'"
    by blast
  have su: "su_kube demo_setup = demo_kube" "su_codecs demo_setup = demo_codecs" "su_authz_mode demo_setup = Disabled"
    by (simp_all add: demo_setup_def)
  have rb: "reads_back demo_codecs"
    by (auto simp: reads_back_def demo_codecs_def spec_view_def split: option.splits)
  have js: "\<forall>spec. spec_from_yaml demo_codecs ''3'' = Inr spec \<longrightarrow> json_reads_back demo_codecs (\<lambda>_. Inr JNull) (spec_content spec)"
    by (simp add: demo_yaml) (simp add: demo_spec_def json_reads_back_def demo_codecs_def)
  have st: "is_stored demo_codecs demo_store (sv_kube s') ''ns'' ''a'' demo_written"
    using demo_written_parsed [of 0]
    by (simp add: is_stored_def s'(2) demo_store_def demo_written_def demo_stored_object_def empty_meta_def hm_get_def)
  have br: "bridge_broadcast demo_matcher demo_any [Frame \<lparr>bf_sent_at = 5, bf_event = demo_broadcast, bf_labels = [],
      bf_parent_span = None\<rparr>] (channel_new []) = (Continue, (channel_new [])\<lparr>ch_sent := [Inr demo_broadcast]\<rparr>)"
    by (simp add: filter_allows_event_def config_event_name_def demo_broadcast_def demo_any_def filter_allow_def
        demo_matcher_def try_send_def reader_act_def channel_new_def backlog_def CHANNEL_CAPACITY_def)
  have "show_nat 1 = ''1''" by code_simp
  then have rest: "filter_allow demo_matcher demo_any ''a'' (object_labels demo_written)" "object_version demo_written = ''1''"
    by (simp_all add: filter_allow_def demo_any_def demo_matcher_def object_version_def demo_written_def
        demo_stored_object_def empty_meta_def)
  have facts: "kube_laws (su_kube demo_setup) demo_store" "spec_codec_ok (su_codecs demo_setup)" "reads_back (su_codecs demo_setup)"
    by (simp_all add: su rb demo_kube_laws demo_codec_ok)
  have req: "''ns'' = ar_namespace (rq_body (demo_call (demo_req ''a'' ''3'')))" "''a'' = ar_name (rq_body (demo_call (demo_req ''a'' ''3'')))"
      "ar_yaml_content (rq_body (demo_call (demo_req ''a'' ''3''))) = ''3''"
    by (simp_all add: demo_call_def demo_req_def)
  have watch: "ws_events demo_watch = [] @ (5, Apply demo_written) # []"
      "\<forall>x \<in> set (stream_snapshots (su_codecs demo_setup) []). cs_name x \<noteq> ''a''"
      "rq_body (demo_call \<lparr>gr_namespace = ''ns'', gr_name = ''a''\<rparr>) = \<lparr>gr_namespace = ''ns'', gr_name = ''a''\<rparr>"
      "authorize demo_setup (demo_call \<lparr>gr_namespace = ''ns'', gr_name = ''a''\<rparr>) Read ''ns'' ''a'' = Inr ()"
      "0 < length (sh_senders (pm_shards demo_pump))" "sn_receivers (sh_senders (pm_shards demo_pump) ! 0) \<noteq> 0"
    by (simp_all add: demo_watch_def stream_snapshots_def List.map_filter_simps demo_call_def authorize_def su demo_pump_def)
  have client: "handle_get_snapshot ''a'' (driver_new [(''a'', consumer_default 0)]) = Some (consumer_default 0)"
      "map snd [(6, demo_broadcast)] = drop (length (payloads (channel_new [] :: config_event channel)))
        (payloads ((channel_new [])\<lparr>ch_sent := [Inr demo_broadcast]\<rparr>))"
    by (simp_all add: handle_get_snapshot_def driver_new_def hm_get_def payloads_def channel_new_def)
  have br': "bridge_broadcast demo_matcher demo_any (map Frame (frames_received (pm_shards demo_pump)
      (pm_shards (pump_subscribe_namespace_events (su_codecs demo_setup) (\<lambda>_. None) 0 (ws_events demo_watch) demo_pump)) 0))
      (channel_new []) = (Continue, (channel_new [])\<lparr>ch_sent := [Inr demo_broadcast]\<rparr>)"
    using br by (simp add: su demo_frames)
  have js': "\<forall>spec. spec_from_yaml (su_codecs demo_setup) (ar_yaml_content (rq_body (demo_call (demo_req ''a'' ''3'')))) = Inr spec \<longrightarrow>
      json_reads_back (su_codecs demo_setup) (\<lambda>_. Inr JNull) (spec_content spec)"
    unfolding su req(3) by (rule js)
  have st': "is_stored (su_codecs demo_setup) demo_store (sv_kube s') ''ns'' ''a'' demo_written"
    unfolding su by (rule st)
  note reach = write_reaches_readers [where batch = False, OF facts js' s'(1) req(1,2) st'
      watch(1,2) _ _ watch(3,4) s'(3) rest(1) watch(5,6) br' client]
  from reach [where e = Clean and t' = 7] obtain spec s1 where
      "spec_from_yaml demo_codecs ''3'' = Inr spec"
      "handle_get_snapshot ''a'' (driver_round (\<lambda>_. Inr JNull) (driver_new [(''a'', consumer_default 0)])
        (Opened [(6, demo_broadcast)] Clean 7)) = Some s1"
      "shown s1 = (spec_content spec, spec_schema_version spec, object_version demo_written)"
    unfolding su req(3) by blast
  with s'(1) rest(2) show ?thesis
    by (auto simp: demo_yaml demo_spec_def)
qed

end
