(* ===== verification/Client_Sdk.thy ===== *)
theory Client_Sdk
  imports End_To_End
begin

text \<open>
  The rest of the client library (\<open>rust/konfig-consumer\<close>): building a client and its unary calls
  (\<open>lib.rs\<close>), the life of the driver task that the handles of one \<open>watch\<close> share, and the staleness gauge
  (\<open>metrics.rs\<close>). The transport and the metrics registry are libraries: whether an endpoint or a TLS
  setting is accepted and what a registration returns are parameters, and a call is a function of the
  request.
\<close>

section \<open>Building a client\<close>

definition endpoint :: "(string \<Rightarrow> bool) \<Rightarrow> string \<Rightarrow> client_error + string" where
  "endpoint valid raw = (if valid raw then Inr raw else Inl (InvalidEndpoint raw))"

definition client_connect :: "(string \<Rightarrow> bool) \<Rightarrow> string \<Rightarrow> client_error + string" where
  "client_connect valid raw = endpoint valid raw"

definition client_connect_tls ::
  "(string \<Rightarrow> bool) \<Rightarrow> ('t \<Rightarrow> string \<Rightarrow> string + string) \<Rightarrow> string \<Rightarrow> 't \<Rightarrow> client_error + string" where
  "client_connect_tls valid tls_config raw tls =
     rbind (endpoint valid raw) (\<lambda>ep. case tls_config tls ep of Inl e \<Rightarrow> Inl (Transport e) | Inr ep' \<Rightarrow> Inr ep')"

section \<open>Unary calls\<close>

definition rpc_result :: "'a rpc \<times> 'w \<Rightarrow> (client_error + 'a) \<times> 'w" where
  "rpc_result rw = (case rw of (Inl st, w) \<Rightarrow> (Inl (Rpc st), w) | (Inr a, w) \<Rightarrow> (Inr a, w))"

definition client_get ::
  "(get_request \<Rightarrow> ('w, config_msg) io) \<Rightarrow> string \<Rightarrow> string \<Rightarrow> 'w \<Rightarrow> (client_error + config_msg) \<times> 'w" where
  "client_get call ns nm w = rpc_result (call \<lparr>gr_namespace = ns, gr_name = nm\<rparr> w)"

definition client_apply ::
  "(apply_request \<Rightarrow> ('w, 'a) io) \<Rightarrow> (json \<Rightarrow> string) \<Rightarrow> string \<Rightarrow> string \<Rightarrow> json \<Rightarrow> int \<Rightarrow> 'w \<Rightarrow> (client_error + unit) \<times> 'w" where
  "client_apply call to_string ns nm content v w =
     (case rpc_result (call \<lparr>ar_namespace = ns, ar_name = nm, ar_yaml_content = apply_yaml to_string v content\<rparr> w) of
        (Inl e, w') \<Rightarrow> (Inl e, w') | (Inr a, w') \<Rightarrow> (Inr (), w'))"

definition client_subscribe :: "round list \<Rightarrow> event_stream" where
  "client_subscribe rounds = reconnecting_event_stream rounds"

section \<open>Handles and the driver task\<close>

text \<open>The handles of one \<open>watch\<close> by name, the count of their references to the task, whether it has been
  aborted, and the driver it runs.\<close>

record subscription =
  sb_handles :: "string list"
  sb_refs :: nat
  sb_aborted :: bool
  sb_driver :: driver

definition watch_new :: "string list \<times> driver \<Rightarrow> subscription" where
  "watch_new w = (case w of (names, d) \<Rightarrow>
     \<lparr>sb_handles = names, sb_refs = length names, sb_aborted = False, sb_driver = d\<rparr>)"

datatype watch_act = Clone_handle nat | Drop_handle nat | Driver_round round

definition clone_handle :: "nat \<Rightarrow> subscription \<Rightarrow> subscription" where
  "clone_handle i sb =
     (if i < length (sb_handles sb)
      then sb\<lparr>sb_handles := sb_handles sb @ [sb_handles sb ! i], sb_refs := sb_refs sb + 1\<rparr> else sb)"

text \<open>The last reference drops the \<open>DriverTask\<close>, which aborts the task.\<close>

definition drop_handle :: "nat \<Rightarrow> subscription \<Rightarrow> subscription" where
  "drop_handle i sb =
     (if i < length (sb_handles sb)
      then (let sb1 = sb\<lparr>sb_handles := take i (sb_handles sb) @ drop (Suc i) (sb_handles sb), sb_refs := sb_refs sb - 1\<rparr>
            in if sb_refs sb1 = 0 then sb1\<lparr>sb_aborted := True\<rparr> else sb1)
      else sb)"

fun watch_step :: "json_parser \<Rightarrow> subscription \<Rightarrow> watch_act \<Rightarrow> subscription" where
  "watch_step parse sb (Clone_handle i) = clone_handle i sb"
| "watch_step parse sb (Drop_handle i) = drop_handle i sb"
| "watch_step parse sb (Driver_round r) = (if sb_aborted sb then sb else sb\<lparr>sb_driver := driver_round parse (sb_driver sb) r\<rparr>)"

definition watch_run :: "json_parser \<Rightarrow> subscription \<Rightarrow> watch_act list \<Rightarrow> subscription" where
  "watch_run parse sb acts = foldl (watch_step parse) sb acts"

section \<open>The staleness gauge\<close>

definition register_stale_seconds :: "(string \<Rightarrow> 'r \<Rightarrow> string + 'r) \<Rightarrow> 'r \<Rightarrow> string + (rat \<times> 'r)" where
  "register_stale_seconds register registry =
     (case register ''konfig_consumer_stale_seconds'' registry of Inl e \<Rightarrow> Inl e | Inr r \<Rightarrow> Inr (0, r))"

definition consumer_elapsed_secs :: "instant \<Rightarrow> instant option \<Rightarrow> rat option" where
  "consumer_elapsed_secs now last_event_at = map_option (\<lambda>t. as_secs_f64 (now - t)) last_event_at"

text \<open>One tick of \<open>spawn_stale_sampler\<close>.\<close>

definition stale_sampler_tick :: "instant \<Rightarrow> instant option \<Rightarrow> rat" where
  "stale_sampler_tick now last_event_at = (case consumer_elapsed_secs now last_event_at of Some s \<Rightarrow> s | None \<Rightarrow> 0)"

section \<open>Lemmas\<close>

definition rounds_in :: "watch_act list \<Rightarrow> round list" where
  "rounds_in acts = List.map_filter (\<lambda>a. case a of Driver_round r \<Rightarrow> Some r | _ \<Rightarrow> None) acts"

text \<open>The task is aborted exactly when no handle is left, and until then has run every round.\<close>

definition watch_inv :: "json_parser \<Rightarrow> string list \<Rightarrow> driver \<Rightarrow> watch_act list \<Rightarrow> subscription \<Rightarrow> bool" where
  "watch_inv parse names d acts sb \<longleftrightarrow> sb_refs sb = length (sb_handles sb) \<and> (sb_aborted sb \<longleftrightarrow> sb_handles sb = []) \<and>
     set (sb_handles sb) \<subseteq> set names \<and> (\<not> sb_aborted sb \<longrightarrow> sb_driver sb = driver_run parse (rounds_in acts) d)"

lemma rounds_in_snoc: "rounds_in (acts @ [a]) = rounds_in acts @ (case a of Driver_round r \<Rightarrow> [r] | _ \<Rightarrow> [])"
  by (simp add: rounds_in_def map_filter_snoc split: watch_act.splits)

lemma removed_handle:
  "i < length xs \<Longrightarrow> length (take i xs @ drop (Suc i) xs) = length xs - 1"
  "set (take i xs @ drop (Suc i) xs) \<subseteq> set xs"
  by (auto dest: in_set_takeD in_set_dropD)

lemma drop_handle_fields:
  assumes "i < length (sb_handles sb)" "sb_refs sb = length (sb_handles sb)"
  defines "rest \<equiv> take i (sb_handles sb) @ drop (Suc i) (sb_handles sb)"
  shows "sb_handles (drop_handle i sb) = rest" "sb_refs (drop_handle i sb) = length rest"
    "sb_driver (drop_handle i sb) = sb_driver sb" "sb_aborted (drop_handle i sb) \<longleftrightarrow> sb_aborted sb \<or> rest = []"
proof -
  have "sb_refs sb - 1 = length rest"
    using removed_handle(1) [OF assms(1)] assms(2) by (simp add: rest_def)
  then have "drop_handle i sb = (if rest = [] then sb\<lparr>sb_handles := rest, sb_refs := length rest, sb_aborted := True\<rparr>
      else sb\<lparr>sb_handles := rest, sb_refs := length rest\<rparr>)"
    using assms(1) unfolding drop_handle_def rest_def [symmetric] Let_def by simp
  then show "sb_handles (drop_handle i sb) = rest" "sb_refs (drop_handle i sb) = length rest"
      "sb_driver (drop_handle i sb) = sb_driver sb" "sb_aborted (drop_handle i sb) \<longleftrightarrow> sb_aborted sb \<or> rest = []"
    by simp_all
qed

lemma watch_step_inv:
  assumes "watch_inv parse names d acts sb"
  shows "watch_inv parse names d (acts @ [a]) (watch_step parse sb a)"
proof (cases a)
  case (Clone_handle i)
  with assms show ?thesis
    by (auto simp: watch_inv_def clone_handle_def rounds_in_snoc)
next
  case (Drop_handle i)
  show ?thesis
  proof (cases "i < length (sb_handles sb)")
    case True
    then have "\<not> sb_aborted sb" using assms by (auto simp: watch_inv_def)
    moreover note drop_handle_fields [OF True] removed_handle(2) [of i "sb_handles sb"]
    ultimately show ?thesis
      using assms Drop_handle unfolding watch_inv_def
      by (simp add: rounds_in_snoc) blast
  next
    case False
    with assms Drop_handle show ?thesis by (simp add: watch_inv_def drop_handle_def rounds_in_snoc)
  qed
next
  case (Driver_round r)
  with assms show ?thesis
    by (auto simp: watch_inv_def rounds_in_snoc driver_run_def)
qed

interpretation watch: traced_machine "watch_step parse" "watch_inv parse names d" for parse names d
  by unfold_locales (rule watch_step_inv)

lemma watch_run_inv:
  assumes "names \<noteq> []"
  shows "watch_inv parse names d acts (watch_run parse (watch_new (names, d)) acts)"
  unfolding watch_run_def
  by (rule watch.run_keeps)
    (use assms in \<open>simp add: watch_new_def watch_inv_def rounds_in_def driver_run_def List.map_filter_simps\<close>)

lemma watch_over:
  assumes "sb_aborted sb" "sb_handles sb = []"
  shows "watch_run parse sb acts = sb"
proof -
  have "watch_step parse sb a = sb" for a
    using assms by (cases a) (simp_all add: clone_handle_def drop_handle_def)
  then show ?thesis
    unfolding watch_run_def by (induction acts) simp_all
qed

section \<open>Properties\<close>

text \<open>Property C31. The handles of one \<open>watch\<close> and the task they share. However handles are cloned and
  dropped while the task runs, it is aborted exactly when the last of them is gone and nothing happens
  after that; as long as one is left it reads the snapshot of the last event of its name that was not a
  deletion and whose content parsed (the default until there is one), over all rounds the task has
  run, marked stale exactly since the first loss of connection after it.\<close>

theorem handles_share_driver:
  assumes "client_watch t0 names = Inr (handles, d)" "sb = watch_run parse (watch_new (handles, d)) acts"
    and "hs = history (rounds_in acts)"
  shows "(sb_aborted sb \<longleftrightarrow> sb_handles sb = []) \<and> (sb_handles sb = [] \<longrightarrow> watch_run parse sb later = sb) \<and>
    (\<forall>nm \<in> set (sb_handles sb). handle_get_snapshot nm (sb_driver sb) =
       Some ((newest_applied parse nm (consumer_default t0) hs)\<lparr>cn_stale_since := lost_since parse nm hs\<rparr>))"
proof -
  have "handles = names" "names \<noteq> []"
    using assms(1) by (auto simp: client_watch_def split: if_splits)
  then have inv: "watch_inv parse handles d acts sb"
    unfolding assms(2) by (simp add: watch_run_inv)
  have "handle_get_snapshot nm (sb_driver sb) =
      Some ((newest_applied parse nm (consumer_default t0) hs)\<lparr>cn_stale_since := lost_since parse nm hs\<rparr>)"
    if "nm \<in> set (sb_handles sb)" for nm
    using consumer_view_exact [OF assms(1), of nm parse "rounds_in acts"] inv that
    by (auto simp: watch_inv_def assms(3))
  with inv watch_over [of sb parse later] show ?thesis
    by (auto simp: watch_inv_def)
qed

definition watch_demo_acts :: "watch_act list" where
  "watch_demo_acts = [Clone_handle 0, Drop_handle 1] @ map Driver_round demo_rounds @ [Drop_handle 0]"

theorem handles_share_driver_witness:
  "\<exists>d sb. client_watch 0 [''a'', ''b''] = Inr ([''a'', ''b''], d) \<and>
     sb = watch_run (\<lambda>_. Inl ''no'') (watch_new ([''a'', ''b''], d)) watch_demo_acts \<and> sb_handles sb = [''a''] \<and>
     map_option (\<lambda>s. (cn_resource_version s, cn_stale_since s)) (handle_get_snapshot ''a'' (sb_driver sb)) = Some (''7'', Some 4)"
proof -
  obtain d where w: "client_watch 0 [''a'', ''b''] = Inr ([''a'', ''b''], d)"
    by (simp add: client_watch_def)
  let ?sb = "watch_run (\<lambda>_. Inl ''no'') (watch_new ([''a'', ''b''], d)) watch_demo_acts"
  have h: "sb_handles ?sb = [''a'']"
    by (simp add: watch_run_def watch_new_def watch_demo_acts_def clone_handle_def drop_handle_def demo_rounds_def Let_def)
  have r: "rounds_in watch_demo_acts = demo_rounds"
    by (simp add: rounds_in_def watch_demo_acts_def demo_rounds_def List.map_filter_def)
  have "newest_applied (\<lambda>_. Inl ''no'') ''a'' (consumer_default 0) (history demo_rounds) =
      (case snapshot_from_proto (\<lambda>_. Inl ''no'') 2 (demo_msg ''a'' ''7'') of Inr s \<Rightarrow> s)"
    "lost_since (\<lambda>_. Inl ''no'') ''a'' (history demo_rounds) = Some 4"
    "cn_resource_version (case snapshot_from_proto (\<lambda>_. Inl ''no'') 2 (demo_msg ''a'' ''7'') of Inr s \<Rightarrow> s) = ''7''"
    by (simp_all add: newest_applied_def lost_since_def losses_def history_def demo_rounds_def List.map_filter_def
        demo_msg_def snapshot_from_proto_def rbind_def consumer_default_content_def)
  then have "map_option (\<lambda>s. (cn_resource_version s, cn_stale_since s)) (handle_get_snapshot ''a'' (sb_driver ?sb)) = Some (''7'', Some 4)"
    using handles_share_driver [OF w refl refl, of "\<lambda>_. Inl ''no''" watch_demo_acts "[]"] by (simp add: h r)
  with w h show ?thesis by blast
qed

section \<open>Calls and gauge against the server\<close>

text \<open>JSON is YAML: the server's reader gets from the printed object the version and the content that went
  in, if the version fits, and fails otherwise.\<close>

definition reads_client_json :: "codecs \<Rightarrow> (json \<Rightarrow> string) \<Rightarrow> bool" where
  "reads_client_json cd to_string \<longleftrightarrow> (\<forall>v content. if 0 \<le> v \<and> v < 2 ^ 32
     then spec_from_yaml cd (apply_yaml to_string v content) = Inr \<lparr>spec_schema_version = of_int v, spec_content = content\<rparr>
     else isl (spec_from_yaml cd (apply_yaml to_string v content)))"

text \<open>An \<open>apply\<close> of the client that succeeds has stored its version and content above the stored version; one
  that fails, also for a version out of range, reports the status of the service and has changed
  nothing.\<close>

lemma client_apply_store:
  assumes "kube_laws k stored" "spec_codec_ok cd" "reads_client_json cd to_string"
    and "client_apply (handle_apply k cd lib table) to_string ns nm content v w = (r, w')"
  shows "case r of
      Inr u \<Rightarrow> 0 \<le> v \<and> v < 2 ^ 32 \<and> fst (stored w (ns, nm)) < of_int v \<and>
        stored w' = (stored w)((ns, nm) := (of_int v, Some content))
    | Inl e \<Rightarrow> (\<exists>st. e = Rpc st) \<and> stored w' = stored w"
proof -
  obtain r0 w0 where run: "apply_inner k cd lib table ns nm (apply_yaml to_string v content) w = (r0, w0)" by fastforce
  note st = apply_inner_store [OF assms(1,2) run]
  have eq: "w' = w0" "r = (case r0 of Inl st \<Rightarrow> Inl (Rpc st) | Inr a \<Rightarrow> Inr ())"
    using assms(4) run by (auto simp: client_apply_def rpc_result_def handle_apply_def split: sum.splits)
  have yaml: "if 0 \<le> v \<and> v < 2 ^ 32
     then spec_from_yaml cd (apply_yaml to_string v content) = Inr \<lparr>spec_schema_version = of_int v, spec_content = content\<rparr>
     else isl (spec_from_yaml cd (apply_yaml to_string v content))"
    using assms(3) unfolding reads_client_json_def by blast
  show ?thesis
  proof (cases r0)
    case (Inl e)
    then show ?thesis using st eq by simp
  next
    case (Inr a)
    with st obtain spec where spec: "spec_from_yaml cd (apply_yaml to_string v content) = Inr spec"
        "fst (stored w (ns, nm)) < spec_schema_version spec" "stored w0 = (stored w)((ns, nm) := view_of_spec spec)"
      by auto
    with yaml have "0 \<le> v \<and> v < 2 ^ 32" "spec = \<lparr>spec_schema_version = of_int v, spec_content = content\<rparr>"
      by (auto split: if_splits)
    with spec eq Inr show ?thesis by (simp add: view_of_spec_def)
  qed
qed

fun event_at :: "happening \<Rightarrow> instant option" where
  "event_at (Ev t ev) = Some t"
| "event_at (Lost t) = None"

text \<open>The gauge counts from the last event: losing the connection does not move its start.\<close>

lemma pump_last_event:
  "dv_last_event_at (consumer_pump parse evs d) = last (dv_last_event_at d # map (Some \<circ> fst) evs)"
  unfolding consumer_pump_def
  by (induction evs rule: rev_induct) (auto simp: pump_event_def split: prod.splits)

lemma round_last_event:
  "dv_last_event_at (driver_round parse d r) = last (dv_last_event_at d # map Some (List.map_filter event_at (happenings r)))"
  by (cases r) (auto simp: driver_round_def Let_def pump_last_event List.map_filter_def comp_def case_prod_unfold
      split: consumer_stream_end.splits)

lemma run_last_event:
  "dv_last_event_at (driver_run parse rounds d) = last (dv_last_event_at d # map Some (List.map_filter event_at (history rounds)))"
proof (induction rounds arbitrary: d)
  case (Cons r rounds)
  have "last (last (x # as) # bs) = last (x # as @ bs)" for x :: "instant option" and as bs
    by (cases bs) auto
  with Cons show ?case
    by (simp add: driver_run_def history_def round_last_event List.map_filter_def)
qed (simp add: driver_run_def history_def List.map_filter_def)

end
