(* ===== verification/Operator_Cli.thy ===== *)
theory Operator_Cli
  imports Apply_Path
begin

text \<open>
  The operator's command line (\<open>tools/konfig-cli/src/main.rs\<close>): eight commands that work on the cluster
  directly, without the server. A command prints lines, may change the cluster, and ends with an exit
  code or with an error that \<open>main\<close> returns. Files, YAML printing and the texts of library errors are
  inputs.
\<close>

section \<open>Commands and their results\<close>

datatype command =
    Cmd_Apply string string string
  | Cmd_Batch_Apply "string list"
  | Cmd_Dry_Run string string string
  | Cmd_Get string string
  | Cmd_Revert string string string
  | Cmd_Import_Configmap string string "string option"
  | Cmd_Get_Secret string string bool
  | Cmd_Apply_Secret string string string

datatype cli_end = Done | Exit_Code nat | Returned_Error string

record cli_output =
  co_stdout :: "string list"
  co_stderr :: "string list"
  co_end :: cli_end

definition printed :: "string list \<Rightarrow> cli_output" where
  "printed ls = \<lparr>co_stdout = ls, co_stderr = [], co_end = Done\<rparr>"

definition cli_error :: "string \<Rightarrow> cli_output" where
  "cli_error e = \<lparr>co_stdout = [], co_stderr = [], co_end = Returned_Error e\<rparr>"

record cli_env =
  ce_read_to_string :: "string \<Rightarrow> string + string"
  ce_yaml_of :: "json \<Rightarrow> string + string"
  ce_status_text :: "status \<Rightarrow> string"
  ce_debug_str :: "string \<Rightarrow> string"

text \<open>The answer of a handler, or its status under a heading.\<close>

definition report :: "cli_env \<Rightarrow> string \<Rightarrow> ('a \<Rightarrow> string list) \<Rightarrow> 'a rpc \<times> 'w \<Rightarrow> cli_output \<times> 'w" where
  "report en what lines_of res = (case res of
       (Inl s, w) \<Rightarrow> (cli_error (what @ '' failed: '' @ ce_status_text en s), w)
     | (Inr a, w) \<Rightarrow> (printed (lines_of a), w))"

section \<open>Apply, dry run, revert\<close>

definition cmd_apply ::
  "cli_env \<Rightarrow> 'w kube \<Rightarrow> codecs \<Rightarrow> 'v schema_lib \<Rightarrow> string \<Rightarrow> string \<Rightarrow> string \<Rightarrow> 'w \<Rightarrow> cli_output \<times> 'w" where
  "cmd_apply en k cd lib ns nm yaml_file w = (case ce_read_to_string en yaml_file of
       Inl e \<Rightarrow> (cli_error e, w)
     | Inr yaml \<Rightarrow> report en ''Apply''
         (\<lambda>rv. [''Applied '' @ ns @ ''/'' @ nm @ '' (resource_version: '' @ rv @ '')''])
         (apply_inner k cd lib [] ns nm yaml w))"

text \<open>\<open>splitn(3, ':')\<close> with three parts.\<close>

definition split_item :: "string \<Rightarrow> (string \<times> string \<times> string) option" where
  "split_item s = Option.bind (split_once CHR '':'' s) (\<lambda>(ns, r).
     map_option (\<lambda>(nm, path). (ns, nm, path)) (split_once CHR '':'' r))"

fun batch_requests :: "cli_env \<Rightarrow> string list \<Rightarrow> string + apply_request list" where
  "batch_requests en [] = Inr []"
| "batch_requests en (item # items) = (case split_item item of
       None \<Rightarrow> Inl (''malformed --item '' @ ce_debug_str en item @ ''; expected NAMESPACE:NAME:YAML_PATH'')
     | Some (ns, nm, path) \<Rightarrow> (case ce_read_to_string en path of
           Inl e \<Rightarrow> Inl (''cannot read '' @ path @ '' for '' @ ns @ ''/'' @ nm @ '': '' @ e)
         | Inr yaml \<Rightarrow> rbind (batch_requests en items) (\<lambda>reqs.
             Inr (\<lparr>ar_namespace = ns, ar_name = nm, ar_yaml_content = yaml\<rparr> # reqs))))"

definition cmd_batch_apply ::
  "cli_env \<Rightarrow> 'w kube \<Rightarrow> codecs \<Rightarrow> 'v schema_lib \<Rightarrow> string list \<Rightarrow> 'w \<Rightarrow> cli_output \<times> 'w" where
  "cmd_batch_apply en k cd lib items w = (case batch_requests en items of
       Inl e \<Rightarrow> (cli_error e, w)
     | Inr reqs \<Rightarrow> report en ''BatchApply''
         (map (\<lambda>r. br_namespace r @ ''/'' @ br_name r @ '' -> '' @ br_resource_version r))
         (handle_batch_apply k cd lib [] reqs w))"

definition cmd_dry_run ::
  "cli_env \<Rightarrow> 'w kube \<Rightarrow> codecs \<Rightarrow> string \<Rightarrow> string \<Rightarrow> string \<Rightarrow> 'w \<Rightarrow> cli_output \<times> 'w" where
  "cmd_dry_run en k cd ns nm yaml_file w = (case ce_read_to_string en yaml_file of
       Inl e \<Rightarrow> (cli_error e, w)
     | Inr yaml \<Rightarrow> report en ''DryRunApply''
         (\<lambda>resp. [''# Dry-run diff for '' @ ns @ ''/'' @ nm @ '' (NO changes written)'',
            ''schema_version: '' @ show_nat (unat (dr_current_schema_version resp)) @ '' -> '' @
              show_nat (unat (dr_proposed_schema_version resp)),
            ''--- current content'',
            (if dr_current_content_json resp = [] then ''<absent>'' else dr_current_content_json resp),
            ''+++ proposed content'', dr_proposed_content_json resp])
         (handle_dry_run_apply k cd \<lparr>ar_namespace = ns, ar_name = nm, ar_yaml_content = yaml\<rparr> w))"

definition cmd_revert ::
  "cli_env \<Rightarrow> 'w kube \<Rightarrow> codecs \<Rightarrow> string \<Rightarrow> string \<Rightarrow> string \<Rightarrow> 'w \<Rightarrow> cli_output \<times> 'w" where
  "cmd_revert en k cd ns nm rv w = report en ''Revert''
     (\<lambda>resp. [''Reverted '' @ ns @ ''/'' @ nm @ '' to resource_version='' @ rv @ '' (new schema_version: '' @
        show_nat (unat (rr_schema_version resp)) @ '', new resource_version: '' @ rr_resource_version resp @ '')''])
     (handle_revert k cd ns nm rv w)"

section \<open>Get and import\<close>

definition cmd_get :: "cli_env \<Rightarrow> 'w kube \<Rightarrow> string \<Rightarrow> string \<Rightarrow> 'w \<Rightarrow> cli_output \<times> 'w" where
  "cmd_get en k ns nm w = (case k_get k ns nm w of
       (Inr obj, w') \<Rightarrow>
         (case ce_yaml_of en (case json_get ''spec'' (obj_data obj) of Some v \<Rightarrow> v | None \<Rightarrow> JNull) of
            Inl e \<Rightarrow> (cli_error e, w') | Inr yaml \<Rightarrow> (printed [yaml], w'))
     | (Inl e, w') \<Rightarrow>
         if api_status_code e = Some 404
         then (\<lparr>co_stdout = [], co_stderr = [''Config '' @ ns @ ''/'' @ nm @ '' not found''], co_end = Exit_Code 1\<rparr>, w')
         else (cli_error (kube_error_text e), w'))"

definition rightarrow :: string where
  "rightarrow = map char_of [226, 134, 146 :: nat]"

definition cmd_import_configmap :: "'w kube \<Rightarrow> string \<Rightarrow> string \<Rightarrow> string \<Rightarrow> 'w \<Rightarrow> cli_output \<times> 'w" where
  "cmd_import_configmap k ns cm_nm target w = (case import_configmap k ns cm_nm target w of
       (Inl e, w') \<Rightarrow> (cli_error (kube_error_text e), w')
     | (Inr rv, w') \<Rightarrow> (printed [''Imported '' @ ns @ ''/'' @ cm_nm @ '' '' @ rightarrow @ '' Config '' @ ns @ ''/'' @
         target @ '' (rv: '' @ rv @ '')''], w'))"

section \<open>Secrets\<close>

definition secret_line :: "bool \<Rightarrow> string \<times> string \<Rightarrow> string" where
  "secret_line reveal = (\<lambda>(key, raw). key @ '': '' @
     (if reveal then if utf8_valid raw then raw else ''<binary>'' else ''<REDACTED>''))"

definition cmd_get_secret :: "'w kube \<Rightarrow> string \<Rightarrow> string \<Rightarrow> bool \<Rightarrow> 'w \<Rightarrow> cli_output \<times> 'w" where
  "cmd_get_secret k ns nm reveal w = (case k_get_secret k ns nm w of
       (Inl e, w') \<Rightarrow> (cli_error (''kube get error: '' @ kube_error_text e), w')
     | (Inr sec, w') \<Rightarrow> (printed ([''namespace: '' @ ns, ''name: '' @ nm,
           ''schema_version: '' @ show_nat (unat (parse_secret_schema_version sec))] @
           (case secret_data sec of Some d \<Rightarrow> map (secret_line reveal) d | None \<Rightarrow> [''# No data keys.''])), w'))"

definition cmd_apply_secret :: "'w kube \<Rightarrow> codecs \<Rightarrow> string \<Rightarrow> string \<Rightarrow> string \<Rightarrow> 'w \<Rightarrow> cli_output \<times> 'w" where
  "cmd_apply_secret k cd ns nm yaml w = (case map_from_yaml cd yaml of
       Inl e \<Rightarrow> (cli_error (''invalid YAML: '' @ e), w)
     | Inr plain \<Rightarrow>
        (let incoming = (case Option.bind (bt_get plain ''schema_version'') parse_u32 of Some v \<Rightarrow> v | None \<Rightarrow> 0);
             (got, w1) = k_get_secret k ns nm w;
             current = (case got of Inr s \<Rightarrow> Inr (parse_secret_schema_version s)
               | Inl e \<Rightarrow> if api_status_code e = Some 404 then Inr 0 else Inl (''kube get error: '' @ kube_error_text e))
         in case current of
              Inl e \<Rightarrow> (cli_error e, w1)
            | Inr cur \<Rightarrow>
                if incoming \<le> cur
                then (cli_error (''schema_version must be > current ('' @ show_nat (unat cur) @ ''); got '' @
                        show_nat (unat incoming)), w1)
                else (case k_patch_secret k ns nm (build_secret_patch nm ns incoming
                         (map (\<lambda>(key, v). (key, base64_encode cd v))
                            (filter (\<lambda>(key, v). key \<noteq> ''schema_version'') plain))) w1 of
                    (Inl e, w2) \<Rightarrow> (cli_error (''kube patch error: '' @ kube_error_text e), w2)
                  | (Inr s, w2) \<Rightarrow> (printed [''Applied '' @ ns @ ''/'' @ nm @ '' (resource_version: '' @
                      unwrap_or_default (meta_resource_version (secret_metadata s)) @ '')''], w2))))"

section \<open>Dispatch\<close>

fun cli_main ::
  "cli_env \<Rightarrow> 'w kube \<Rightarrow> codecs \<Rightarrow> 'v schema_lib \<Rightarrow> command \<Rightarrow> 'w \<Rightarrow> cli_output \<times> 'w" where
  "cli_main en k cd lib (Cmd_Apply ns nm f) w = cmd_apply en k cd lib ns nm f w"
| "cli_main en k cd lib (Cmd_Batch_Apply items) w = cmd_batch_apply en k cd lib items w"
| "cli_main en k cd lib (Cmd_Dry_Run ns nm f) w = cmd_dry_run en k cd ns nm f w"
| "cli_main en k cd lib (Cmd_Get ns nm) w = cmd_get en k ns nm w"
| "cli_main en k cd lib (Cmd_Revert ns nm rv) w = cmd_revert en k cd ns nm rv w"
| "cli_main en k cd lib (Cmd_Import_Configmap ns nm target) w =
     cmd_import_configmap k ns nm (case target of Some t \<Rightarrow> t | None \<Rightarrow> nm) w"
| "cli_main en k cd lib (Cmd_Get_Secret ns nm reveal) w = cmd_get_secret k ns nm reveal w"
| "cli_main en k cd lib (Cmd_Apply_Secret ns nm f) w = (case ce_read_to_string en f of
       Inl e \<Rightarrow> (cli_error (''cannot read '' @ f @ '': '' @ e), w)
     | Inr yaml \<Rightarrow> cmd_apply_secret k cd ns nm yaml w)"

section \<open>What a command does to the cluster\<close>

text \<open>The service call a command amounts to, when it is one that writes a Config through the version
  gate and its files can be read; and whether that call succeeds.\<close>

fun cli_call :: "cli_env \<Rightarrow> command \<Rightarrow> write_call option" where
  "cli_call en (Cmd_Apply ns nm f) = (case ce_read_to_string en f of
       Inl e \<Rightarrow> None | Inr yaml \<Rightarrow> Some (Call_Apply \<lparr>ar_namespace = ns, ar_name = nm, ar_yaml_content = yaml\<rparr>))"
| "cli_call en (Cmd_Batch_Apply items) = (case batch_requests en items of
       Inl e \<Rightarrow> None | Inr reqs \<Rightarrow> Some (Call_Batch reqs))"
| "cli_call en (Cmd_Revert ns nm rv) = Some (Call_Revert ns nm rv)"
| "cli_call en cmd = None"

fun call_succeeds :: "'w kube \<Rightarrow> codecs \<Rightarrow> 'v schema_lib \<Rightarrow> 'v schema_table \<Rightarrow> 'w \<Rightarrow> write_call \<Rightarrow> bool" where
  "call_succeeds k cd lib table w (Call_Apply req) = (\<exists>rv. fst (handle_apply k cd lib table req w) = Inr rv)"
| "call_succeeds k cd lib table w (Call_Batch reqs) = (\<exists>rs. fst (handle_batch_apply k cd lib table reqs w) = Inr rs)"
| "call_succeeds k cd lib table w (Call_Revert ns nm rv) = (\<exists>resp. fst (handle_revert k cd ns nm rv w) = Inr resp)"

fun is_import :: "command \<Rightarrow> bool" where
  "is_import (Cmd_Import_Configmap ns nm target) = True"
| "is_import cmd = False"

text \<open>Secrets and ConfigMaps are other objects than Configs.\<close>

definition secrets_apart :: "'w kube \<Rightarrow> 'w store \<Rightarrow> bool" where
  "secrets_apart k stored \<longleftrightarrow>
     (\<forall>ns nm w. stored (snd (k_get_secret k ns nm w)) = stored w) \<and>
     (\<forall>ns nm s w. stored (snd (k_patch_secret k ns nm s w)) = stored w) \<and>
     (\<forall>ns nm w. stored (snd (k_get_configmap k ns nm w)) = stored w)"

lemma secrets_apartD:
  assumes "secrets_apart k stored"
  shows "k_get_secret k ns nm w = (r, w') \<Longrightarrow> stored w' = stored w"
    and "k_patch_secret k ns nm s w = (r, w') \<Longrightarrow> stored w' = stored w"
    and "k_get_configmap k ns nm w = (rc, w') \<Longrightarrow> stored w' = stored w"
  using assms unfolding secrets_apart_def by (metis snd_conv)+

lemma report_result:
  "report en what ls (r, w) = (out, w') \<longleftrightarrow> w' = w \<and>
     out = (case r of Inl s \<Rightarrow> cli_error (what @ '' failed: '' @ ce_status_text en s) | Inr a \<Rightarrow> printed (ls a))"
  by (auto simp: report_def split: sum.splits)

lemma cli_end_simps [simp]:
  "co_end (cli_error e) \<noteq> Done" "co_end (printed ls) = Done"
  by (simp_all add: cli_error_def printed_def)

text \<open>An item of a batch is split at its first two colons, so a path may contain more of them.\<close>

lemma split_item_joined:
  assumes "CHR '':'' \<notin> set ns" "CHR '':'' \<notin> set nm"
  shows "split_item (ns @ CHR '':'' # nm @ CHR '':'' # path) = Some (ns, nm, path)"
  using assms by (simp add: split_item_def split_once_Some_iff [THEN iffD2] bind_eq_Some_conv)

lemma cli_call_run:
  assumes "cli_call en cmd = Some c" "cli_main en k cd lib cmd w = (out, w')"
  shows "w' = run_call k cd lib [] w c \<and> (co_end out = Done \<longleftrightarrow> call_succeeds k cd lib [] w c)"
proof (cases cmd)
  case (Cmd_Apply ns nm f)
  with assms obtain yaml where y: "ce_read_to_string en f = Inr yaml"
    "c = Call_Apply \<lparr>ar_namespace = ns, ar_name = nm, ar_yaml_content = yaml\<rparr>"
    by (auto split: sum.splits)
  with assms(2) Cmd_Apply show ?thesis
    by (cases "apply_inner k cd lib [] ns nm yaml w")
      (auto simp: cmd_apply_def report_result handle_apply_def split: sum.splits)
next
  case (Cmd_Batch_Apply items)
  with assms obtain reqs where "batch_requests en items = Inr reqs" "c = Call_Batch reqs"
    by (auto split: sum.splits)
  with assms(2) Cmd_Batch_Apply show ?thesis
    by (cases "handle_batch_apply k cd lib [] reqs w")
      (auto simp: cmd_batch_apply_def report_result split: sum.splits)
next
  case (Cmd_Revert ns nm rv)
  with assms show ?thesis
    by (cases "handle_revert k cd ns nm rv w") (auto simp: cmd_revert_def report_result split: sum.splits)
qed (use assms in auto)

lemma dry_run_store:
  assumes "kube_laws k stored" "handle_dry_run_apply k cd req w = (r, w')"
  shows "stored w' = stored w"
  using assms(2) kube_lawsD(1) [OF assms(1), of "ar_namespace req" "ar_name req" w]
  by (cases "k_get k (ar_namespace req) (ar_name req) w")
    (auto simp: handle_dry_run_apply_def io_bind_cases split: sum.splits if_splits)

lemma apply_secret_store:
  assumes "secrets_apart k stored" "cmd_apply_secret k cd ns nm yaml w = (out, w')"
  shows "stored w' = stored w"
  using assms(2) secrets_apartD [OF assms(1)]
  by (auto simp: cmd_apply_secret_def Let_def split: sum.splits prod.splits if_splits)

lemma cli_no_call_store:
  assumes laws: "kube_laws k stored" and apart: "secrets_apart k stored"
    and "cli_call en cmd = None" "\<not> is_import cmd" "cli_main en k cd lib cmd w = (out, w')"
  shows "stored w' = stored w"
proof (cases cmd)
  case (Cmd_Dry_Run ns nm f)
  show ?thesis
  proof (cases "ce_read_to_string en f")
    case (Inr yaml)
    let ?req = "\<lparr>ar_namespace = ns, ar_name = nm, ar_yaml_content = yaml\<rparr>"
    obtain r v where "handle_dry_run_apply k cd ?req w = (r, v)"
      by (cases "handle_dry_run_apply k cd ?req w")
    with assms(5) Cmd_Dry_Run Inr dry_run_store [OF laws this] show ?thesis
      by (simp add: cmd_dry_run_def report_result)
  qed (use assms(5) Cmd_Dry_Run in \<open>simp add: cmd_dry_run_def\<close>)
next
  case (Cmd_Get ns nm)
  with assms(5) kube_lawsD(1) [OF laws, of ns nm w] show ?thesis
    by (cases "k_get k ns nm w") (auto simp: cmd_get_def split: sum.splits if_splits)
next
  case (Cmd_Get_Secret ns nm reveal)
  with assms(5) secrets_apartD(1) [OF apart, of ns nm w] show ?thesis
    by (cases "k_get_secret k ns nm w") (auto simp: cmd_get_secret_def split: sum.splits)
next
  case (Cmd_Apply_Secret ns nm f)
  with assms(5) show ?thesis
    by (auto split: sum.splits dest: apply_secret_store [OF apart])
qed (use assms in \<open>auto simp: cmd_apply_def cmd_batch_apply_def split: sum.splits\<close>)

lemma cli_versions:
  assumes "kube_laws k stored" "secrets_apart k stored" "spec_codec_ok cd" "\<not> is_import cmd"
  shows "versions_le (stored w) (stored (snd (cli_main en k cd lib cmd w)))"
proof -
  obtain out w' where run: "cli_main en k cd lib cmd w = (out, w')"
    by (cases "cli_main en k cd lib cmd w")
  show ?thesis
  proof (cases "cli_call en cmd")
    case None
    with cli_no_call_store [OF assms(1,2) None assms(4) run] run show ?thesis by simp
  next
    case (Some c)
    with cli_call_run [OF Some run] run_call_versions [OF assms(1,3), of w lib "[]" c] run show ?thesis by simp
  qed
qed

text \<open>An import writes what the ConfigMap says, whatever is stored.\<close>

lemma import_configmap_store:
  assumes laws: "kube_laws k stored" and apart: "secrets_apart k stored"
    and run: "import_configmap k ns cm_nm target w = (r, w')"
  shows "case r of Inl e \<Rightarrow> stored w' = stored w
    | Inr rv \<Rightarrow> \<exists>cm d. fst (k_get_configmap k ns cm_nm w) = Inr cm \<and> d = (case cm_data cm of None \<Rightarrow> [] | Some d \<Rightarrow> d) \<and>
        stored w' = (stored w)((ns, target) := (parse_schema_version_from_data d, Some (JObj (content_from_data d))))"
proof -
  obtain g w1 where g: "k_get_configmap k ns cm_nm w = (g, w1)"
    by (cases "k_get_configmap k ns cm_nm w")
  have s1: "stored w1 = stored w"
    by (rule secrets_apartD(3) [OF apart g])
  show ?thesis
  proof (cases g)
    case (Inl e)
    with run g s1 show ?thesis by (auto simp: import_configmap_def)
  next
    case (Inr cm)
    let ?d = "case cm_data cm of None \<Rightarrow> [] | Some d \<Rightarrow> d"
    let ?body = "build_import_patch_body ns target (parse_schema_version_from_data ?d) (content_from_data ?d)"
    have view: "spec_view (json_get ''spec'' ?body) =
        (parse_schema_version_from_data ?d, Some (JObj (content_from_data ?d)))"
      by (simp add: build_import_patch_body_def spec_view_def ucast_u32_u64)
    show ?thesis
      using run g s1 Inr laws view
      by (auto simp: import_configmap_def Let_def kube_laws_def patch_stores_def split: sum.splits prod.splits)
        (metis fst_conv snd_conv sum.case)+
  qed
qed

section \<open>Properties\<close>

text \<open>Property C35. A command that applies, applies a batch or reverts leaves the cluster exactly as the
  service call of the same name with an empty schema registry would, and ends well exactly when that
  call succeeds. Every other command but an import, and every command whose files cannot be read,
  leaves all stored Configs as they were. So over any sequence of commands without imports no stored
  version decreases.\<close>

theorem cli_acts_as_service:
  assumes "kube_laws k stored" "secrets_apart k stored" "spec_codec_ok cd"
  shows "(\<forall>cmd w out w'. cli_main en k cd lib cmd w = (out, w') \<and> \<not> is_import cmd \<longrightarrow>
      (case cli_call en cmd of
         Some c \<Rightarrow> w' = run_call k cd lib [] w c \<and> (co_end out = Done \<longleftrightarrow> call_succeeds k cd lib [] w c)
       | None \<Rightarrow> stored w' = stored w)) \<and>
    (\<forall>cmds w key. list_all (\<lambda>cmd. \<not> is_import cmd) cmds \<longrightarrow>
      fst (stored w key) \<le> fst (stored (foldl (\<lambda>w cmd. snd (cli_main en k cd lib cmd w)) w cmds) key))"
proof (intro conjI allI impI)
  fix cmd w out w' assume "cli_main en k cd lib cmd w = (out, w') \<and> \<not> is_import cmd"
  then show "case cli_call en cmd of
      Some c \<Rightarrow> w' = run_call k cd lib [] w c \<and> (co_end out = Done \<longleftrightarrow> call_succeeds k cd lib [] w c)
    | None \<Rightarrow> stored w' = stored w"
    using cli_call_run [of en cmd _ k cd lib w out w'] cli_no_call_store [OF assms(1,2), of en cmd cd lib w out w']
    by (auto split: option.splits)
next
  fix cmds w key assume "list_all (\<lambda>cmd. \<not> is_import cmd) cmds"
  then have "versions_le (stored w) (stored (foldl (\<lambda>w cmd. snd (cli_main en k cd lib cmd w)) w cmds))"
  proof (induction cmds arbitrary: w)
    case (Cons cmd cmds)
    then show ?case
      using cli_versions [OF assms, of cmd w en lib] by (auto intro: versions_le_trans)
  qed simp
  then show "fst (stored w key) \<le> fst (stored (foldl (\<lambda>w cmd. snd (cli_main en k cd lib cmd w)) w cmds) key)"
    unfolding versions_le_def by blast
qed

definition demo_cli_env :: cli_env where
  "demo_cli_env = \<lparr>ce_read_to_string = (\<lambda>path. if path = ''five.yaml'' then Inr ''5'' else Inl ''no such file''),
     ce_yaml_of = (\<lambda>v. Inr ''spec''), ce_status_text = (\<lambda>s. []), ce_debug_str = (\<lambda>s. s)\<rparr>"

lemma demo_secrets_apart: "secrets_apart demo_kube demo_store"
  by (simp add: secrets_apart_def demo_kube_def)

theorem cli_acts_as_service_witness:
  "snd (cli_main demo_cli_env demo_kube demo_codecs demo_schema_lib (Cmd_Apply ''ns'' ''a'' ''five.yaml'') ([], 0)) =
     run_call demo_kube demo_codecs demo_schema_lib [] ([], 0) (Call_Apply (demo_req ''a'' ''5''))"
proof -
  let ?cmd = "Cmd_Apply ''ns'' ''a'' ''five.yaml''"
  obtain out w' where run: "cli_main demo_cli_env demo_kube demo_codecs demo_schema_lib ?cmd ([], 0) = (out, w')"
    by (cases "cli_main demo_cli_env demo_kube demo_codecs demo_schema_lib ?cmd ([], 0)")
  have "cli_call demo_cli_env ?cmd = Some (Call_Apply (demo_req ''a'' ''5''))"
    by (simp add: demo_cli_env_def demo_req_def)
  with conjunct1 [OF cli_acts_as_service [OF demo_kube_laws demo_secrets_apart demo_codec_ok,
      where en = demo_cli_env and lib = demo_schema_lib]] run
  show ?thesis by fastforce
qed

text \<open>An import is not gated: when it succeeds the target holds the version and the values
  of the ConfigMap, whatever version was stored before, so it can lower a version.\<close>

lemma import_ignores_stored_version:
  assumes "kube_laws k stored" "secrets_apart k stored"
    and "cli_main en k cd lib (Cmd_Import_Configmap ns cm_nm (Some target)) w = (out, w')" "co_end out = Done"
  shows "\<exists>cm. fst (k_get_configmap k ns cm_nm w) = Inr cm \<and>
    stored w' = (stored w)((ns, target) :=
      (parse_schema_version_from_data (case cm_data cm of None \<Rightarrow> [] | Some d \<Rightarrow> d),
       Some (JObj (content_from_data (case cm_data cm of None \<Rightarrow> [] | Some d \<Rightarrow> d)))))"
proof -
  obtain r v where run: "import_configmap k ns cm_nm target w = (r, v)"
    by (cases "import_configmap k ns cm_nm target w")
  with assms(3,4) obtain rv where "r = Inr rv" "v = w'"
    by (auto simp: cmd_import_configmap_def split: sum.splits)
  with import_configmap_store [OF assms(1,2) run] show ?thesis by simp
qed

definition demo_configmap_kube :: "demo_world kube" where
  "demo_configmap_kube = demo_kube\<lparr>k_get_configmap := (\<lambda>ns nm w. (Inr \<lparr>cm_metadata = empty_meta, cm_data = None\<rparr>, w))\<rparr>"

lemma demo_configmap_kube_laws: "kube_laws demo_configmap_kube demo_store" "secrets_apart demo_configmap_kube demo_store"
  using demo_kube_laws demo_secrets_apart
  by (simp_all add: demo_configmap_kube_def kube_laws_def reads_pure_def get_returns_stored_def patch_stores_def
      secrets_apart_def)

text \<open>Property C36. Without \<open>--reveal\<close> the values of a secret have no influence on what \<open>get-secret\<close>
  prints: two secrets with the same annotations and the same keys give the same output.\<close>

theorem get_secret_redacts:
  assumes "k_get_secret k ns nm w1 = (Inr s1, w1')" "k_get_secret k ns nm w2 = (Inr s2, w2')"
    and "meta_annotations (secret_metadata s1) = meta_annotations (secret_metadata s2)"
    and "map_option (map fst) (secret_data s1) = map_option (map fst) (secret_data s2)"
  shows "fst (cli_main en k cd lib (Cmd_Get_Secret ns nm False) w1) =
    fst (cli_main en k cd lib (Cmd_Get_Secret ns nm False) w2)"
proof -
  have line: "map (secret_line False) d = map (\<lambda>key. key @ '': <REDACTED>'') (map fst d)" for d
    by (induction d) (auto simp: secret_line_def)
  have "(case secret_data s1 of Some d \<Rightarrow> map (secret_line False) d | None \<Rightarrow> [''# No data keys.'']) =
      (case secret_data s2 of Some d \<Rightarrow> map (secret_line False) d | None \<Rightarrow> [''# No data keys.''])"
    using assms(4) by (cases "secret_data s1"; cases "secret_data s2") (simp_all add: line del: map_map)
  with assms(1-3) show ?thesis
    by (simp add: cmd_get_secret_def parse_secret_schema_version_def)
qed

definition demo_secret_of :: "string \<Rightarrow> kube_secret" where
  "demo_secret_of v = \<lparr>secret_metadata = empty_meta, secret_data = Some [(''pw'', v)]\<rparr>"

definition demo_secret_kube :: "(string kube)" where
  "demo_secret_kube = \<lparr>k_get = (\<lambda>_ _ w. (Inl (Kube_Other []), w)), k_patch = (\<lambda>_ _ _ w. (Inl (Kube_Other []), w)),
     k_list_at = (\<lambda>_ _ _ w. (Inl (Kube_Other []), w)),
     k_get_secret = (\<lambda>ns nm w. (Inr (demo_secret_of w), w)),
     k_patch_secret = (\<lambda>_ _ s w. (Inr s, w)), k_get_configmap = (\<lambda>_ _ w. (Inl (Kube_Other []), w)),
     k_subsec_nanos = (\<lambda>w. (0, w)), k_traceparent = (\<lambda>w. None)\<rparr>"

theorem get_secret_redacts_witness:
  "fst (cli_main demo_cli_env demo_secret_kube demo_codecs demo_schema_lib (Cmd_Get_Secret ''ns'' ''s'' False) ''one'') =
   fst (cli_main demo_cli_env demo_secret_kube demo_codecs demo_schema_lib (Cmd_Get_Secret ''ns'' ''s'' False) ''two'')"
  by (rule get_secret_redacts [of _ _ _ _ "demo_secret_of ''one''" _ _ "demo_secret_of ''two''"])
    (simp_all add: demo_secret_kube_def demo_secret_of_def)

end
