(* ===== verification/Ieee64.thy ===== *)
theory Ieee64
  imports Float64 Konfig_Types
begin

text \<open>
  The \<open>f64\<close> values of Rust with signed zeros, infinities and NaN, their arithmetic, comparisons and bit
  patterns, for the code that computes with numbers it has read.
\<close>

section \<open>Values and operations\<close>

text \<open>A finite value is its sign (true when negative) and its magnitude.\<close>

datatype f64 = NaN | Inf bool | Fin bool rat

fun f64_val :: "f64 \<Rightarrow> rat" where
  "f64_val (Fin s m) = (if s then - m else m)"
| "f64_val _ = 0"

definition f64_pack :: "bool \<Rightarrow> rat \<Rightarrow> f64" where
  "f64_pack s m = (let r = f64_round m in if 2 ^ 1024 \<le> r then Inf s else Fin s r)"

definition f64_of_rat :: "rat \<Rightarrow> f64" where
  "f64_of_rat r = f64_pack (r < 0) \<bar>r\<bar>"

fun f64_neg :: "f64 \<Rightarrow> f64" where
  "f64_neg NaN = NaN"
| "f64_neg (Inf s) = Inf (\<not> s)"
| "f64_neg (Fin s m) = Fin (\<not> s) m"

fun f64_add :: "f64 \<Rightarrow> f64 \<Rightarrow> f64" where
  "f64_add (Fin s a) (Fin t b) =
     (let v = f64_val (Fin s a) + f64_val (Fin t b) in if v = 0 then Fin (s \<and> t) 0 else f64_of_rat v)"
| "f64_add (Inf s) (Fin t b) = Inf s"
| "f64_add (Fin s a) (Inf t) = Inf t"
| "f64_add (Inf s) (Inf t) = (if s = t then Inf s else NaN)"
| "f64_add NaN b = NaN"
| "f64_add a NaN = NaN"

definition f64_sub :: "f64 \<Rightarrow> f64 \<Rightarrow> f64" where
  "f64_sub a b = f64_add a (f64_neg b)"

fun f64_mul :: "f64 \<Rightarrow> f64 \<Rightarrow> f64" where
  "f64_mul (Fin s a) (Fin t b) = f64_pack (s \<noteq> t) (a * b)"
| "f64_mul (Inf s) (Fin t b) = (if b = 0 then NaN else Inf (s \<noteq> t))"
| "f64_mul (Fin s a) (Inf t) = (if a = 0 then NaN else Inf (s \<noteq> t))"
| "f64_mul (Inf s) (Inf t) = Inf (s \<noteq> t)"
| "f64_mul NaN b = NaN"
| "f64_mul a NaN = NaN"

fun f64_div :: "f64 \<Rightarrow> f64 \<Rightarrow> f64" where
  "f64_div (Fin s a) (Fin t b) =
     (if b = 0 then if a = 0 then NaN else Inf (s \<noteq> t) else f64_pack (s \<noteq> t) (a / b))"
| "f64_div (Inf s) (Fin t b) = Inf (s \<noteq> t)"
| "f64_div (Fin s a) (Inf t) = Fin (s \<noteq> t) 0"
| "f64_div (Inf s) (Inf t) = NaN"
| "f64_div NaN b = NaN"
| "f64_div a NaN = NaN"

text \<open>Comparison: by rank, and never with NaN.\<close>

fun f64_rank :: "f64 \<Rightarrow> int \<times> rat" where
  "f64_rank (Inf s) = (if s then (- 1, 0) else (1, 0))"
| "f64_rank x = (0, f64_val x)"

definition f64_lt :: "f64 \<Rightarrow> f64 \<Rightarrow> bool" where
  "f64_lt a b \<longleftrightarrow> a \<noteq> NaN \<and> b \<noteq> NaN \<and> f64_rank a < f64_rank b"

definition f64_le :: "f64 \<Rightarrow> f64 \<Rightarrow> bool" where
  "f64_le a b \<longleftrightarrow> a \<noteq> NaN \<and> b \<noteq> NaN \<and> f64_rank a \<le> f64_rank b"

definition f64_of_bits :: "u64 \<Rightarrow> f64" where
  "f64_of_bits w =
     (let b = uint w; s = (2 ^ 63 \<le> b); e = (b div 2 ^ 52) mod 2048; m = b mod 2 ^ 52
      in if e = 2047 then if m = 0 then Inf s else NaN
         else if e = 0 then Fin s (of_int m * pow2 (- 1074))
         else Fin s (of_int (2 ^ 52 + m) * pow2 (e - 1075)))"

text \<open>\<open>serde_json\<close>: a number as a double.\<close>

fun json_as_f64 :: "json \<Rightarrow> f64 option" where
  "json_as_f64 (JNum (PosInt n)) = Some (f64_of_rat (of_int (uint n)))"
| "json_as_f64 (JNum (NegInt n)) = Some (f64_of_rat (of_int n))"
| "json_as_f64 (JNum (Float_bits b)) = Some (f64_of_bits b)"
| "json_as_f64 _ = None"

section \<open>Lemmas\<close>

fun f64_finite :: "f64 \<Rightarrow> bool" where
  "f64_finite (Fin s m) \<longleftrightarrow> 0 \<le> m"
| "f64_finite _ \<longleftrightarrow> False"

fun f64_nonpos :: "f64 \<Rightarrow> bool" where
  "f64_nonpos NaN \<longleftrightarrow> False"
| "f64_nonpos (Inf s) \<longleftrightarrow> s"
| "f64_nonpos (Fin s m) \<longleftrightarrow> 0 \<le> m \<and> (s \<or> m = 0)"

lemma f64_round_zero [simp]: "f64_round 0 = 0"
  by (simp add: f64_round_def)

lemma f64_pack_nonpos: "s \<or> m = 0 \<Longrightarrow> f64_nonpos (f64_pack s m)"
  by (auto simp: f64_pack_def Let_def f64_round_nonneg)

lemma f64_sub_nonpos:
  assumes "f64_finite a" "f64_finite b" "f64_le a b"
  shows "f64_nonpos (f64_sub a b)"
proof -
  obtain s m t n where ab: "a = Fin s m" "b = Fin t n"
    using assms by (cases a; cases b) auto
  let ?v = "f64_val a + f64_val (Fin (\<not> t) n)"
  have v: "?v \<le> 0"
    using assms(3) by (auto simp: ab f64_le_def split: if_splits)
  show ?thesis
  proof (cases "?v = 0")
    case True
    then show ?thesis by (simp add: ab f64_sub_def Let_def)
  next
    case False
    with v have "f64_nonpos (f64_of_rat ?v)"
      by (auto simp: f64_of_rat_def intro!: f64_pack_nonpos)
    with False show ?thesis by (simp add: ab f64_sub_def Let_def)
  qed
qed

lemma f64_div_nonpos:
  assumes "f64_nonpos a" "f64_finite b" "f64_lt (Fin False 0) b"
  shows "f64_nonpos (f64_div a b)"
proof -
  obtain n where b: "b = Fin False n" "0 < n"
    using assms(2,3) by (cases b) (auto simp: f64_lt_def split: if_splits)
  with assms(1) show ?thesis
    by (cases a) (auto intro!: f64_pack_nonpos)
qed

lemma f64_nonpos_not_above: "f64_nonpos a \<Longrightarrow> f64_le (Fin False 0) t \<Longrightarrow> \<not> f64_lt t a"
  by (cases a; cases t) (auto simp: f64_lt_def f64_le_def split: if_splits)

lemma f64_le_trans: "f64_le a b \<Longrightarrow> f64_le b c \<Longrightarrow> f64_le a c"
  by (auto simp: f64_le_def)

lemma f64_le_lt_trans: "f64_le a b \<Longrightarrow> f64_lt b c \<Longrightarrow> f64_lt a c"
  by (auto simp: f64_le_def f64_lt_def)

lemma f64_not_le: "a \<noteq> NaN \<Longrightarrow> b \<noteq> NaN \<Longrightarrow> \<not> f64_le a b \<longleftrightarrow> f64_lt b a"
  by (auto simp: f64_le_def f64_lt_def)

lemma f64_of_int_exact: "0 \<le> n \<Longrightarrow> n < 2 ^ 53 \<Longrightarrow> f64_of_rat (of_int n) = Fin False (of_int n)"
proof -
  assume n: "0 \<le> n" "n < 2 ^ 53"
  have "(of_int n :: rat) < 2 ^ 53"
    by (rule of_int_less_2_53 [OF n(2)])
  also have "(2 ^ 53 :: rat) < 2 ^ 1024"
    by (rule power_strict_increasing) simp_all
  finally show ?thesis
    using n by (simp add: f64_of_rat_def f64_pack_def Let_def f64_round_int)
qed

text \<open>Scaling an integer by at least one does not lower it.\<close>

lemma f64_mul_ge:
  assumes "0 \<le> n" "n < 2 ^ 53" "f64_finite t" "f64_le (Fin False 1) t"
  shows "f64_le (Fin False (of_int n)) (f64_mul (Fin False (of_int n)) t)"
proof -
  obtain m where t: "t = Fin False m" "1 \<le> m"
    using assms(3,4) by (cases t) (auto simp: f64_le_def split: if_splits)
  then have "of_int n \<le> of_int n * m"
    using assms(1) mult_left_mono [of 1 m "of_int n :: rat"] by simp
  then have "of_int n \<le> f64_round (of_int n * m)"
    using assms(1,2) by (rule f64_round_ge_int)
  with t show ?thesis
    by (simp add: f64_pack_def Let_def f64_le_def)
qed

end
