(* ===== verification/Flamebearer.thy ===== *)
theory Flamebearer
  imports Ieee64
begin

text \<open>
  The profile reader of \<open>tools/konfig-flamediff/src/flamebearer.rs\<close>: decoding the flat rows of a flame
  graph into bars with parent links, ranking the hottest frames, and rewriting the profile as pprof
  protobuf. An index out of range, where the program panics, is \<open>None\<close>. Bytes are characters.
\<close>

unbundle bit_operations_syntax

section \<open>Profiles and bars\<close>

text \<open>\<open>i64\<close> values as integers with the wrap-around of a release build.\<close>

definition i64 :: "int \<Rightarrow> int" where
  "i64 n = signed_take_bit 63 n"

record flamebearer =
  fb_names :: "string list"
  fb_levels :: "int list list"
  fb_num_ticks :: int
  fb_sample_rate :: int
  fb_units :: string

record bar =
  b_x0 :: int
  b_x1 :: int
  b_self :: int
  b_name_idx :: nat
  b_parent :: "nat option"

definition as_usize :: "int \<Rightarrow> nat" where
  "as_usize n = nat (n mod 2 ^ 64)"

text \<open>One row: groups of four numbers under a cursor; a rest of fewer than four is ignored.\<close>

fun decode_row :: "int \<Rightarrow> int list \<Rightarrow> bar list" where
  "decode_row x (off # tot # slf # nm # row) =
     (let x0 = i64 (x + off); x1 = i64 (x0 + tot)
      in \<lparr>b_x0 = x0, b_x1 = x1, b_self = slf, b_name_idx = as_usize nm, b_parent = None\<rparr> # decode_row x1 row)"
| "decode_row x _ = []"

text \<open>The forward-only search for parents in the row above.\<close>

definition advance :: "bar list \<Rightarrow> int \<Rightarrow> nat \<Rightarrow> nat" where
  "advance parents x0 k = k + length (takeWhile (\<lambda>p. b_x1 p \<le> x0) (drop k parents))"

fun link_row :: "bar list \<Rightarrow> nat \<Rightarrow> bar list \<Rightarrow> bar list" where
  "link_row parents k [] = []"
| "link_row parents k (b # bs) =
     (let k' = advance parents (b_x0 b) k;
          b' = (if k' < length parents \<and> b_x0 (parents ! k') \<le> b_x0 b \<and> b_x1 b \<le> b_x1 (parents ! k')
                then b\<lparr>b_parent := Some k'\<rparr> else b)
      in b' # link_row parents k' bs)"

fun link_rows :: "bar list \<Rightarrow> bar list list \<Rightarrow> bar list list" where
  "link_rows prev [] = []"
| "link_rows prev (row # rows) = (let row' = link_row prev 0 row in row' # link_rows row' rows)"

definition decode_levels :: "flamebearer \<Rightarrow> bar list list" where
  "decode_levels fb = (case map (decode_row 0) (fb_levels fb) of
       [] \<Rightarrow> [] | row # rows \<Rightarrow> row # link_rows row rows)"

section \<open>Reading a profile\<close>

fun json_as_array :: "json \<Rightarrow> json list option" where
  "json_as_array (JArr vs) = Some vs"
| "json_as_array _ = None"

fun json_as_str :: "json \<Rightarrow> string option" where
  "json_as_str (JStr s) = Some s"
| "json_as_str _ = None"

fun json_as_i64 :: "json \<Rightarrow> int option" where
  "json_as_i64 (JNum (PosInt n)) = (if uint n < 2 ^ 63 then Some (uint n) else None)"
| "json_as_i64 (JNum (NegInt n)) = Some n"
| "json_as_i64 _ = None"

definition unwrap_or :: "'a \<Rightarrow> 'a option \<Rightarrow> 'a" where
  "unwrap_or d x = (case x of Some a \<Rightarrow> a | None \<Rightarrow> d)"

text \<open>Collecting into a \<open>Result\<close>: the first error, or all values.\<close>

fun collect :: "('e + 'a) list \<Rightarrow> 'e + 'a list" where
  "collect [] = Inr []"
| "collect (r # rs) = rbind r (\<lambda>a. rbind (collect rs) (\<lambda>as. Inr (a # as)))"

text \<open>What the tools use of the file system, \<open>serde_json\<close>, \<open>rustc_demangle\<close> and \<open>regex\<close>, and the printing of
  floating-point numbers with a given precision.\<close>

record tool_env =
  te_read :: "string \<Rightarrow> string + string"
  te_parse_json :: "string \<Rightarrow> string + json"
  te_pretty :: "json \<Rightarrow> string"
  te_demangle :: "string \<Rightarrow> string"
  te_regex :: "string \<Rightarrow> string + (string \<Rightarrow> bool)"
  te_write :: "string \<Rightarrow> string \<Rightarrow> string + unit"
  te_mkdir :: "string \<Rightarrow> string + unit"
  te_list_dir :: "string \<Rightarrow> string list option"
  te_fmt :: "nat \<Rightarrow> f64 \<Rightarrow> string"
  te_fmt_signed :: "nat \<Rightarrow> f64 \<Rightarrow> string"

definition read_json :: "tool_env \<Rightarrow> (string \<Rightarrow> string) \<Rightarrow> string \<Rightarrow> string + json" where
  "read_json te unreadable path = (case te_read te path of
       Inl e \<Rightarrow> Inl (unreadable e)
     | Inr text \<Rightarrow> (case te_parse_json te text of
         Inl e \<Rightarrow> Inl (''invalid JSON in '' @ path @ '': '' @ e) | Inr v \<Rightarrow> Inr v))"

definition required :: "string \<Rightarrow> 'a option \<Rightarrow> string + 'a" where
  "required msg x = (case x of Some a \<Rightarrow> Inr a | None \<Rightarrow> Inl msg)"

text \<open>The unit is only ever compared with \<open>samples\<close>, so its lower case matters on ASCII letters only.\<close>

definition load :: "tool_env \<Rightarrow> string \<Rightarrow> string + flamebearer" where
  "load te path =
     rbind (read_json te (\<lambda>e. ''read '' @ path @ '': '' @ e) path) (\<lambda>raw.
     let fb = unwrap_or raw (json_get ''flamebearer'' raw) in
     rbind (required (path @ '': missing flamebearer.names array'') (Option.bind (json_get ''names'' fb) json_as_array)) (\<lambda>ns.
     rbind (required (path @ '': missing flamebearer.levels array'') (Option.bind (json_get ''levels'' fb) json_as_array)) (\<lambda>ls.
     rbind (collect (map (\<lambda>l. rbind (required (path @ '': a level is not an array'') (json_as_array l))
         (\<lambda>row. Inr (map (\<lambda>n. unwrap_or 0 (json_as_i64 n)) row))) ls)) (\<lambda>levels.
     let meta = json_get ''metadata'' raw in
     Inr \<lparr>fb_names = map (\<lambda>v. te_demangle te (unwrap_or [] (json_as_str v))) ns, fb_levels = levels,
          fb_num_ticks = unwrap_or 0 (Option.bind (json_get ''numTicks'' fb) json_as_i64),
          fb_sample_rate = unwrap_or 0 (Option.bind (Option.bind meta (json_get ''sampleRate'')) json_as_i64),
          fb_units = to_ascii_lowercase
            (unwrap_or ''samples'' (Option.bind (Option.bind meta (json_get ''units'')) json_as_str))\<rparr>))))"

section \<open>The hottest frames\<close>

definition name_at :: "flamebearer \<Rightarrow> bar \<Rightarrow> string option" where
  "name_at fb b = (if b_name_idx b < length (fb_names fb) then Some (fb_names fb ! b_name_idx b) else None)"

definition add_self :: "(string, int) hmap \<Rightarrow> string \<times> int \<Rightarrow> (string, int) hmap" where
  "add_self m = (\<lambda>(name, s). hm_insert name (i64 (unwrap_or 0 (hm_get m name) + s)) m)"

text \<open>The nearest integer, halves away from zero, of a non-negative double.\<close>

definition f64_nearest :: "rat \<Rightarrow> int" where
  "f64_nearest x = \<lfloor>x + 1 / 2\<rfloor>"

definition round4 :: "rat \<Rightarrow> rat" where
  "round4 x = f64_round (of_int (f64_nearest (f64_round (x * 10000))) / 10000)"

definition self_pct :: "int \<Rightarrow> int \<Rightarrow> rat" where
  "self_pct s tot = round4 (f64_round (f64_round (f64_round (of_int s) / f64_round (of_int tot)) * 100))"

definition total_ticks :: "flamebearer \<Rightarrow> (string, int) hmap \<Rightarrow> int" where
  "total_ticks fb by_name =
     (if 0 < fb_num_ticks fb then fb_num_ticks fb
      else let s = foldl (\<lambda>a v. i64 (a + v)) 0 (hm_values by_name) in if 0 < s then s else 1)"

definition top_frames :: "flamebearer \<Rightarrow> nat \<Rightarrow> (string \<Rightarrow> bool) option \<Rightarrow> (string \<times> rat) list option" where
  "top_frames fb n exclude =
     (let bars = concat (decode_levels fb)
      in map_option (\<lambda>names.
           let by_name = foldl add_self [] (zip names (map b_self bars));
               tot = total_ticks fb by_name;
               rows = sort_key (\<lambda>(name, s). (- s, name))
                 (filter (\<lambda>(name, s). case exclude of None \<Rightarrow> True | Some re \<Rightarrow> \<not> re name) by_name)
           in map (\<lambda>(name, s). (name, self_pct s tot)) (take n (filter (\<lambda>(name, s). 0 < s) rows)))
         (those (map (name_at fb) bars)))"

definition frames_to_json :: "tool_env \<Rightarrow> (string \<times> rat) list \<Rightarrow> string" where
  "frames_to_json te frames = te_pretty te (JObj [(''frames'', JArr (map (\<lambda>(name, pct).
     JObj [(''name'', JStr name), (''self_pct'', JNum (Float_bits (of_int (f64_bits pct))))]) frames))])"

section \<open>Protobuf\<close>

definition byte_char :: "u64 \<Rightarrow> char" where
  "byte_char b = char_of (unat b)"

function varint :: "u64 \<Rightarrow> string" where
  "varint n =
     (let b = n AND 0x7f; n' = drop_bit 7 n
      in if n' \<noteq> 0 then byte_char (b OR 0x80) # varint n' else [byte_char b])"
  by pat_completeness auto

termination
proof (relation "measure unat")
  fix n b n' :: u64
  assume "n' = drop_bit 7 n" "n' \<noteq> 0"
  then have "unat n' = unat n div 128"
    by (simp add: drop_bit_eq_div unat_div)
  moreover have "unat n' \<noteq> 0"
    using \<open>n' \<noteq> 0\<close> by (simp add: unat_eq_0)
  ultimately show "(n', n) \<in> measure unat"
    by simp
qed simp

declare varint.simps [simp del]

definition tag :: "u64 \<Rightarrow> u64 \<Rightarrow> string" where
  "tag field wire = varint (push_bit 3 field OR wire)"

definition vfield :: "u64 \<Rightarrow> u64 \<Rightarrow> string" where
  "vfield field val = tag field 0 @ varint val"

definition lfield :: "u64 \<Rightarrow> string \<Rightarrow> string" where
  "lfield field data = tag field 2 @ varint (of_nat (length data)) @ data"

definition packed :: "u64 \<Rightarrow> u64 list \<Rightarrow> string" where
  "packed field vals = lfield field (concat (map varint vals))"

record interner =
  in_strings :: "string list"
  in_idx :: "(string, u64) hmap"

definition interner_new :: interner where
  "interner_new = \<lparr>in_strings = [[]], in_idx = [([], 0)]\<rparr>"

definition intern :: "string \<Rightarrow> interner \<Rightarrow> u64 \<times> interner" where
  "intern s it = (case hm_get (in_idx it) s of
       Some i \<Rightarrow> (i, it)
     | None \<Rightarrow>
         (let i = of_nat (length (in_strings it))
          in (i, \<lparr>in_strings = in_strings it @ [s], in_idx = hm_insert s i (in_idx it)\<rparr>)))"

section \<open>The pprof profile\<close>

record pprof_tables =
  pt_strings :: interner
  pt_name_loc :: "(string, u64) hmap"
  pt_functions :: string
  pt_locations :: string

definition function_msg :: "u64 \<Rightarrow> u64 \<Rightarrow> string" where
  "function_msg fid name_idx = vfield 1 fid @ vfield 2 name_idx @ vfield 4 name_idx"

definition location_msg :: "u64 \<Rightarrow> u64 \<Rightarrow> string" where
  "location_msg lid fid = vfield 1 lid @ lfield 4 (vfield 1 fid)"

definition add_name :: "pprof_tables \<Rightarrow> string \<Rightarrow> pprof_tables" where
  "add_name t name = (case hm_get (pt_name_loc t) name of
       Some _ \<Rightarrow> t
     | None \<Rightarrow>
         (let fid = of_nat (length (pt_name_loc t)) + 1; lid = fid;
              (name_idx, strings) = intern name (pt_strings t)
          in \<lparr>pt_strings = strings, pt_name_loc = hm_insert name lid (pt_name_loc t),
              pt_functions = pt_functions t @ lfield 5 (function_msg fid name_idx),
              pt_locations = pt_locations t @ lfield 4 (location_msg lid fid)\<rparr>))"

definition tables_new :: pprof_tables where
  "tables_new = \<lparr>pt_strings = interner_new, pt_name_loc = [], pt_functions = [], pt_locations = []\<rparr>"

text \<open>The bars from a bar up to its root.\<close>

fun walk :: "bar list list \<Rightarrow> nat \<Rightarrow> nat \<Rightarrow> bar list" where
  "walk per_depth 0 i = [per_depth ! 0 ! i]"
| "walk per_depth (Suc d) i = per_depth ! Suc d ! i #
     (case b_parent (per_depth ! Suc d ! i) of Some k \<Rightarrow> walk per_depth d k | None \<Rightarrow> [])"

definition hot_bars :: "bar list list \<Rightarrow> (nat \<times> nat) list" where
  "hot_bars per_depth = concat (map (\<lambda>d. map (Pair d)
     (filter (\<lambda>i. 0 < b_self (per_depth ! d ! i)) [0..<length (per_depth ! d)])) [0..<length per_depth])"

definition sample_msg :: "u64 list \<Rightarrow> u64 \<Rightarrow> string" where
  "sample_msg stack val = packed 1 stack @ packed 2 [val]"

text \<open>The kind and unit of the values, their scale and the period.\<close>

definition value_kind :: "flamebearer \<Rightarrow> string \<times> string \<times> int \<times> u64" where
  "value_kind fb =
     (if fb_units fb = ''samples'' \<and> 0 < fb_sample_rate fb
      then let ns = f64_nearest (f64_round (1000000000 / f64_round (of_int (fb_sample_rate fb))))
           in (''cpu'', ''nanoseconds'', ns, of_int ns)
      else (''samples'', ''count'', 1, 1))"

definition value_type_msg :: "string \<Rightarrow> string \<Rightarrow> interner \<Rightarrow> string \<times> interner" where
  "value_type_msg ty unit it =
     (let (i, it1) = intern ty it; (j, it2) = intern unit it1 in (vfield 1 i @ vfield 2 j, it2))"

definition to_pprof :: "flamebearer \<Rightarrow> string option" where
  "to_pprof fb =
     (let per_depth = decode_levels fb; (st_type, st_unit, scale, period) = value_kind fb
      in map_option (\<lambda>names.
           let t = foldl add_name tables_new names;
               loc = (\<lambda>b. case Option.bind (name_at fb b) (hm_get (pt_name_loc t)) of Some l \<Rightarrow> l | None \<Rightarrow> 0);
               samples = concat (map (\<lambda>(d, i). lfield 2 (sample_msg (map loc (walk per_depth d i))
                   (of_int (i64 (b_self (per_depth ! d ! i) * scale))))) (hot_bars per_depth));
               (value_type, it1) = value_type_msg st_type st_unit (pt_strings t);
               (period_type, it2) = value_type_msg st_type st_unit it1
           in lfield 1 value_type @ samples @ pt_functions t @ pt_locations t @
              lfield 11 period_type @ vfield 12 period @ concat (map (lfield 6) (in_strings it2)))
         (those (map (name_at fb) (concat per_depth))))"

section \<open>Parents\<close>

text \<open>A row is well formed when its bars are disjoint, in order and not empty.\<close>

definition row_ok :: "bar list \<Rightarrow> bool" where
  "row_ok bs \<longleftrightarrow> sorted_wrt (\<lambda>a b. b_x1 a \<le> b_x0 b) bs \<and> (\<forall>b \<in> set bs. b_x0 b < b_x1 b)"

definition covers :: "bar \<Rightarrow> bar \<Rightarrow> bool" where
  "covers p b \<longleftrightarrow> b_x0 p \<le> b_x0 b \<and> b_x1 b \<le> b_x1 p"

lemma advance_passed: "k \<le> i \<Longrightarrow> i < advance ps x k \<Longrightarrow> b_x1 (ps ! i) \<le> x"
proof -
  assume i: "k \<le> i" "i < advance ps x k"
  let ?run = "takeWhile (\<lambda>p. b_x1 p \<le> x) (drop k ps)"
  have "?run ! (i - k) \<in> set ?run"
    using i by (intro nth_mem) (simp add: advance_def)
  moreover have "?run ! (i - k) = ps ! i"
    using i length_takeWhile_le [of "\<lambda>p. b_x1 p \<le> x" "drop k ps"]
    by (subst takeWhile_nth) (auto simp: advance_def)
  ultimately show ?thesis
    by (metis set_takeWhileD)
qed

lemma advance_stops: "advance ps x k < length ps \<Longrightarrow> x < b_x1 (ps ! advance ps x k)"
  using nth_length_takeWhile [of "\<lambda>p. b_x1 p \<le> x" "drop k ps"] by (auto simp: advance_def not_le)

lemma advance_ge: "k \<le> advance ps x k"
  by (simp add: advance_def)

lemma cover_unique:
  assumes "row_ok ps" "i < length ps" "x < b_x1 (ps ! i)" "\<forall>h < i. b_x1 (ps ! h) \<le> x"
    and b: "b_x0 b = x" "b_x0 b < b_x1 b" and k: "k < length ps" "covers (ps ! k) b"
  shows "k = i"
proof (rule ccontr)
  assume "k \<noteq> i"
  then consider "k < i" | "i < k" by linarith
  then show False
  proof cases
    case 1
    with assms(4) b k(2) show False by (auto simp: covers_def)
  next
    case 2
    with assms(1) k(1) have "b_x1 (ps ! i) \<le> b_x0 (ps ! k)"
      by (auto simp: row_ok_def sorted_wrt_iff_nth_less)
    with assms(3) b k(2) show False by (auto simp: covers_def)
  qed
qed

lemma link_row_parents:
  assumes "row_ok ps" "row_ok bs" "\<forall>i < k. \<forall>b \<in> set bs. b_x1 (ps ! i) \<le> b_x0 b" "\<forall>b \<in> set bs. b_parent b = None"
    and "j < length bs"
  shows "b_parent (link_row ps k bs ! j) = Some i \<longleftrightarrow> i < length ps \<and> covers (ps ! i) (bs ! j)"
  using assms(2-5)
proof (induction bs arbitrary: k j)
  case (Cons b bs)
  let ?k = "advance ps (b_x0 b) k"
  have sorted: "b_x1 b \<le> b_x0 b'" if "b' \<in> set bs" for b'
    using Cons.prems(1) that by (simp add: row_ok_def)
  have pos: "b_x0 b < b_x1 b"
    using Cons.prems(1) by (simp add: row_ok_def)
  have passed: "\<forall>h < ?k. b_x1 (ps ! h) \<le> b_x0 b"
    using Cons.prems(2) advance_passed [of k _ ps "b_x0 b"] by (metis list.set_intros(1) not_le)
  show ?case
  proof (cases j)
    case 0
    show ?thesis
    proof (cases "?k < length ps")
      case True
      note u = cover_unique [OF assms(1) True advance_stops [OF True] passed refl pos]
      have "b_parent (link_row ps k (b # bs) ! j) = (if covers (ps ! ?k) b then Some ?k else None)"
        using 0 True Cons.prems(3) by (simp add: Let_def covers_def)
      with 0 True u [of i] show ?thesis by auto
    next
      case False
      then have "\<not> covers (ps ! i) b" if "i < length ps" for i
        using passed [rule_format, of i] pos that by (simp add: covers_def)
      with 0 False Cons.prems(3) show ?thesis
        by (auto simp: Let_def)
    qed
  next
    case (Suc j')
    have "\<forall>h < ?k. \<forall>b' \<in> set bs. b_x1 (ps ! h) \<le> b_x0 b'"
      using passed sorted pos by force
    with Cons.IH [of ?k j'] Cons.prems Suc show ?thesis
      by (simp add: Let_def row_ok_def)
  qed
qed simp

lemma link_row_same:
  "length (link_row ps k bs) = length bs"
  "j < length bs \<Longrightarrow> b_x0 (link_row ps k bs ! j) = b_x0 (bs ! j) \<and> b_x1 (link_row ps k bs ! j) = b_x1 (bs ! j) \<and>
     b_self (link_row ps k bs ! j) = b_self (bs ! j) \<and> b_name_idx (link_row ps k bs ! j) = b_name_idx (bs ! j)"
  by (induction bs arbitrary: k j) (auto simp: Let_def nth_Cons split: nat.splits)

text \<open>What a profile must be for its rows to be well formed: offsets not negative, widths positive, no
  overflow of the cursor.\<close>

fun level_ok :: "int \<Rightarrow> int list \<Rightarrow> bool" where
  "level_ok x (off # tot # slf # nm # row) \<longleftrightarrow>
     0 \<le> off \<and> 0 < tot \<and> x + off + tot < 2 ^ 63 \<and> level_ok (x + off + tot) row"
| "level_ok x _ \<longleftrightarrow> True"

lemma i64_id: "- (2 ^ 63) \<le> n \<Longrightarrow> n < 2 ^ 63 \<Longrightarrow> i64 n = n"
  by (simp add: i64_def signed_take_bit_int_eq_self)

lemma decode_row_ok:
  "0 \<le> x \<Longrightarrow> level_ok x row \<Longrightarrow>
     row_ok (decode_row x row) \<and> (\<forall>b \<in> set (decode_row x row). x \<le> b_x0 b \<and> b_parent b = None)"
proof (induction x row rule: level_ok.induct)
  case (1 x off tot slf nm row)
  then have "i64 (x + off) = x + off" "i64 (x + off + tot) = x + off + tot"
    by (auto intro!: i64_id)
  with 1 show ?case
    by (force simp: row_ok_def Let_def)
qed (auto simp: row_ok_def)

lemma link_rows_nth:
  "length (link_rows prev rows) = length rows"
  "d < length rows \<Longrightarrow> link_rows prev rows ! d =
     link_row (case d of 0 \<Rightarrow> prev | Suc d' \<Rightarrow> link_rows prev rows ! d') 0 (rows ! d)"
proof (induction rows arbitrary: prev d)
  case (Cons row rows)
  { case 1 then show ?case using Cons.IH by (simp add: Let_def) }
  { case 2 then show ?case
      using Cons.IH(2) [of "d - 1" "link_row prev 0 row"]
      by (cases d) (auto simp: Let_def nth_Cons split: nat.splits) }
qed simp_all

lemma decode_levels_nth:
  "length (decode_levels fb) = length (fb_levels fb)"
  "0 < length (fb_levels fb) \<Longrightarrow> decode_levels fb ! 0 = decode_row 0 (fb_levels fb ! 0)"
  "Suc d < length (fb_levels fb) \<Longrightarrow>
     decode_levels fb ! Suc d = link_row (decode_levels fb ! d) 0 (decode_row 0 (fb_levels fb ! Suc d))"
proof -
  show "length (decode_levels fb) = length (fb_levels fb)"
    by (auto simp: decode_levels_def link_rows_nth split: list.splits)
  show "0 < length (fb_levels fb) \<Longrightarrow> decode_levels fb ! 0 = decode_row 0 (fb_levels fb ! 0)"
    by (cases "fb_levels fb") (auto simp: decode_levels_def)
  show "Suc d < length (fb_levels fb) \<Longrightarrow>
     decode_levels fb ! Suc d = link_row (decode_levels fb ! d) 0 (decode_row 0 (fb_levels fb ! Suc d))"
    using link_rows_nth(2) [of d "map (decode_row 0) (tl (fb_levels fb))" "decode_row 0 (hd (fb_levels fb))"]
    by (cases "fb_levels fb"; cases d) (auto simp: decode_levels_def nth_Cons)
qed

lemma link_row_ok: "row_ok (link_row ps k bs) = row_ok bs"
  by (auto simp: row_ok_def sorted_wrt_iff_nth_less link_row_same all_set_conv_all_nth)

lemma decoded_row_ok:
  assumes "list_all (level_ok 0) (fb_levels fb)" "d < length (fb_levels fb)"
  shows "row_ok (decode_levels fb ! d)"
proof -
  have "row_ok (decode_row 0 (fb_levels fb ! d))"
    using assms decode_row_ok [of 0 "fb_levels fb ! d"] by (simp add: list_all_length)
  with assms(2) show ?thesis
    by (cases d) (simp_all add: decode_levels_nth link_row_ok)
qed

lemma decoded_parents:
  assumes "list_all (level_ok 0) (fb_levels fb)" "Suc d < length (fb_levels fb)"
    and "j < length (decode_levels fb ! Suc d)"
  shows "b_parent (decode_levels fb ! Suc d ! j) = Some i \<longleftrightarrow>
    i < length (decode_levels fb ! d) \<and> covers (decode_levels fb ! d ! i) (decode_levels fb ! Suc d ! j)"
proof -
  let ?row = "decode_row 0 (fb_levels fb ! Suc d)"
  have row: "row_ok ?row" "\<forall>b \<in> set ?row. b_parent b = None"
    using assms decode_row_ok [of 0 "fb_levels fb ! Suc d"] by (simp_all add: list_all_length)
  show ?thesis
    using link_row_parents [OF decoded_row_ok [OF assms(1), of d] row(1), where k = 0] row(2) assms(2,3)
    by (simp add: decode_levels_nth link_row_same covers_def)
qed

text \<open>The stack of a bar, told without the links: itself, then the bar of the row above that covers it,
  and so on.\<close>

fun stack_of :: "bar list list \<Rightarrow> nat \<Rightarrow> nat \<Rightarrow> bar list" where
  "stack_of rows 0 i = [rows ! 0 ! i]"
| "stack_of rows (Suc d) i = rows ! Suc d ! i #
     (case find (\<lambda>k. covers (rows ! d ! k) (rows ! Suc d ! i)) [0..<length (rows ! d)] of
        Some k \<Rightarrow> stack_of rows d k | None \<Rightarrow> [])"

lemma parent_find:
  assumes "list_all (level_ok 0) (fb_levels fb)" "Suc d < length (fb_levels fb)"
    and "j < length (decode_levels fb ! Suc d)"
  shows "find (\<lambda>k. covers (decode_levels fb ! d ! k) (decode_levels fb ! Suc d ! j)) [0..<length (decode_levels fb ! d)] =
    b_parent (decode_levels fb ! Suc d ! j)" (is "find ?P ?ks = ?p")
proof (cases ?p)
  case None
  with decoded_parents [OF assms] show ?thesis by (auto simp: find_None_iff)
next
  case (Some k)
  have k: "?P k" "k < length (decode_levels fb ! d)"
    using decoded_parents [OF assms, of k] Some by simp_all
  have "\<not> ?P h" if "h < k" for h
    using decoded_parents [OF assms, of h] Some that k(2) by simp
  with k have "find ?P ?ks = Some k"
    unfolding find_Some_iff by (intro exI [where x = k]) simp
  with Some show ?thesis by simp
qed

lemma walk_stack:
  assumes "list_all (level_ok 0) (fb_levels fb)" "d < length (fb_levels fb)" "i < length (decode_levels fb ! d)"
  shows "walk (decode_levels fb) d i = stack_of (decode_levels fb) d i"
  using assms(2,3)
proof (induction d arbitrary: i)
  case (Suc d)
  note find = parent_find [OF assms(1) Suc.prems]
  show ?case
  proof (cases "b_parent (decode_levels fb ! Suc d ! i)")
    case None
    with find show ?thesis by simp
  next
    case (Some k)
    then have "k < length (decode_levels fb ! d)"
      using decoded_parents [OF assms(1) Suc.prems] by simp
    with Some find Suc.IH [of k] Suc.prems(1) show ?thesis by simp
  qed
qed simp

section \<open>A protobuf reader\<close>

text \<open>The wire format, read back: base-128 numbers, and messages as sequences of numbered fields that
  hold a number or a byte string.\<close>

fun read_varint :: "string \<Rightarrow> (nat \<times> string) option" where
  "read_varint [] = None"
| "read_varint (c # cs) =
     (if byte c < 128 then Some (byte c, cs)
      else map_option (\<lambda>(v, r). (byte c - 128 + 128 * v, r)) (read_varint cs))"

datatype pb_field = Num_field nat nat | Bytes_field nat string

definition read_field :: "string \<Rightarrow> (pb_field \<times> string) option" where
  "read_field bs = (case read_varint bs of None \<Rightarrow> None | Some (t, r) \<Rightarrow>
     (case read_varint r of None \<Rightarrow> None | Some (v, r') \<Rightarrow>
        if t mod 8 = 0 then Some (Num_field (t div 8) v, r')
        else if t mod 8 = 2 \<and> v \<le> length r' then Some (Bytes_field (t div 8) (take v r'), drop v r')
        else None))"

function read_fields :: "string \<Rightarrow> pb_field list option" where
  "read_fields bs = (if bs = [] then Some [] else (case read_field bs of None \<Rightarrow> None | Some (f, r) \<Rightarrow>
     if length r < length bs then map_option (Cons f) (read_fields r) else None))"
  by pat_completeness auto

termination
  by (relation "measure length") auto

function read_varints :: "string \<Rightarrow> nat list option" where
  "read_varints bs = (if bs = [] then Some [] else (case read_varint bs of None \<Rightarrow> None | Some (v, r) \<Rightarrow>
     if length r < length bs then map_option (Cons v) (read_varints r) else None))"
  by pat_completeness auto

termination
  by (relation "measure length") auto

declare read_fields.simps [simp del] read_varints.simps [simp del]

lemma byte_byte_char: "unat b < 256 \<Longrightarrow> byte (byte_char b) = unat b"
  by (simp add: byte_char_def)

lemma low_bits:
  fixes n :: u64
  shows "unat (n AND 0x7f) = unat n mod 128" "unat ((n AND 0x7f) OR 0x80) = unat n mod 128 + 128"
    "unat (drop_bit 7 n) = unat n div 128"
proof -
  have m: "n AND 0x7f = take_bit 7 n"
    by (simp add: take_bit_eq_mask mask_eq_exp_minus_1)
  show l: "unat (n AND 0x7f) = unat n mod 128"
    by (simp add: m take_bit_eq_mod unat_mod)
  have "take_bit 7 (unat n) + 2 ^ 7 = take_bit 7 (unat n) OR 2 ^ 7"
  proof (rule disjunctive_add)
    fix k show "\<not> bit (take_bit 7 (unat n)) k \<or> \<not> bit (2 ^ 7 :: nat) k"
      by (simp only: bit_take_bit_iff bit_exp_iff) simp
  qed
  then show "unat ((n AND 0x7f) OR 0x80) = unat n mod 128 + 128"
    by (simp add: unsigned_or_eq l take_bit_eq_mod)
  show "unat (drop_bit 7 n) = unat n div 128"
    by (simp add: drop_bit_eq_div unat_div)
qed

lemma varint_step:
  "varint n = (if unat n < 128 then [char_of (unat n)] else char_of (unat n mod 128 + 128) # varint (drop_bit 7 n))"
proof -
  have "drop_bit 7 n \<noteq> 0 \<longleftrightarrow> \<not> unat n < 128"
    using low_bits(3) [of n] by (metis div_eq_0_iff not_numeral_less_zero unat_eq_0 zero_neq_numeral)
  then show ?thesis
    by (subst varint.simps) (simp add: Let_def byte_char_def low_bits)
qed

lemma read_varint_varint: "read_varint (varint n @ r) = Some (unat n, r)"
proof (induction n rule: varint.induct)
  case (1 n)
  show ?case
  proof (cases "unat n < 128")
    case True
    then show ?thesis by (subst varint_step) simp
  next
    case False
    then have "drop_bit 7 n \<noteq> 0"
      using low_bits(3) [of n] by (metis div_eq_0_iff not_numeral_less_zero unat_eq_0 zero_neq_numeral)
    from 1 [OF refl refl this] False show ?thesis
      by (subst varint_step) (simp add: low_bits)
  qed
qed

lemma varint_ne [simp]: "varint n \<noteq> []"
  by (subst varint_step) simp

text \<open>\<open>reads_as bs fs\<close>: the bytes are the fields, wherever they stand.\<close>

definition reads_as :: "string \<Rightarrow> pb_field list \<Rightarrow> bool" where
  "reads_as bs fs \<longleftrightarrow> (\<forall>r. read_fields (bs @ r) = map_option (\<lambda>gs. fs @ gs) (read_fields r))"

lemma reads_as_Nil [simp]: "reads_as [] []"
  by (simp add: reads_as_def option.map_ident)

lemma reads_as_append: "reads_as a fa \<Longrightarrow> reads_as b fb \<Longrightarrow> reads_as (a @ b) (fa @ fb)"
  by (auto simp: reads_as_def option.map_comp comp_def)

lemma reads_as_concat: "(\<And>x. x \<in> set xs \<Longrightarrow> reads_as (f x) (g x)) \<Longrightarrow> reads_as (concat (map f xs)) (concat (map g xs))"
  by (induction xs) (auto intro: reads_as_append)

lemma reads_as_read: "reads_as bs fs \<Longrightarrow> read_fields bs = Some fs"
  unfolding reads_as_def by (drule spec [of _ "[]"]) (simp add: read_fields.simps)

lemma tag_bits: "unat f < 2 ^ 61 \<Longrightarrow> unat w < 8 \<Longrightarrow> unat (push_bit 3 f OR w :: u64) = 8 * unat f + unat w"
proof -
  assume f: "unat f < 2 ^ 61" and w: "unat w < 8"
  have p: "unat (f * 8) = unat f * 8"
    using f by (subst unat_mult_lem [THEN iffD1]) simp_all
  have "push_bit 3 (unat f) + unat w = push_bit 3 (unat f) OR unat w"
  proof (rule disjunctive_add)
    fix n show "\<not> bit (push_bit 3 (unat f)) n \<or> \<not> bit (unat w) n"
      using w take_bit_nat_eq_self [of "unat w" 3] bit_take_bit_iff [of 3 "unat w" n]
      by (auto simp: bit_push_bit_iff)
  qed
  then show ?thesis
    by (simp add: unsigned_or_eq p push_bit_eq_mult)
qed

lemma read_tag:
  "unat f < 2 ^ 61 \<Longrightarrow> unat w < 8 \<Longrightarrow> read_varint (tag f w @ r) = Some (8 * unat f + unat w, r)"
  by (simp only: tag_def read_varint_varint tag_bits)

lemma reads_field:
  assumes "read_field (bs @ r) = Some (f, r)" "bs \<noteq> []"
  shows "read_fields (bs @ r) = map_option (\<lambda>gs. [f] @ gs) (read_fields r)"
proof -
  have "read_fields (bs @ r) = map_option ((#) f) (read_fields r)"
    using assms by (subst read_fields.simps) simp
  then show ?thesis by (cases "read_fields r") simp_all
qed

lemma tag_ne [simp]: "tag f w \<noteq> []"
  by (simp add: tag_def)

lemma reads_vfield: "unat f < 2 ^ 61 \<Longrightarrow> reads_as (vfield f v) [Num_field (unat f) (unat v)]"
  unfolding reads_as_def
  by (intro allI reads_field) (simp_all add: vfield_def read_field_def read_tag read_varint_varint)

lemma reads_lfield:
  assumes "unat f < 2 ^ 61" "length d < 2 ^ 64"
  shows "reads_as (lfield f d) [Bytes_field (unat f) d]"
proof -
  have d: "unat (of_nat (length d) :: u64) = length d"
    using assms(2) by (simp add: unat_of_nat)
  have t: "Suc (Suc (8 * unat f)) mod 8 = 2" "Suc (Suc (8 * unat f)) div 8 = unat f"
    by presburger+
  show ?thesis
    unfolding reads_as_def using assms(1)
    by (intro allI reads_field) (simp_all add: lfield_def read_field_def read_tag read_varint_varint d t)
qed

lemma read_varints_concat: "read_varints (concat (map varint vs)) = Some (map unat vs)"
  by (induction vs) (simp_all add: read_varints.simps read_varint_varint)

section \<open>A pprof reader\<close>

definition nums :: "nat \<Rightarrow> pb_field list \<Rightarrow> nat list" where
  "nums k fs = concat (map (\<lambda>f. case f of Num_field j v \<Rightarrow> if j = k then [v] else [] | Bytes_field j d \<Rightarrow> []) fs)"

definition blobs :: "nat \<Rightarrow> pb_field list \<Rightarrow> string list" where
  "blobs k fs = concat (map (\<lambda>f. case f of Bytes_field j d \<Rightarrow> if j = k then [d] else [] | Num_field j v \<Rightarrow> []) fs)"

fun the_one :: "'a list \<Rightarrow> 'a option" where
  "the_one [x] = Some x"
| "the_one xs = None"

definition text_at :: "string list \<Rightarrow> nat \<Rightarrow> string option" where
  "text_at strs i = (if i < length strs then Some (strs ! i) else None)"

record profile =
  pr_sample_type :: "string \<times> string"
  pr_period_type :: "string \<times> string"
  pr_period :: nat
  pr_samples :: "(string list \<times> nat) list"

definition read_value_type :: "string list \<Rightarrow> string \<Rightarrow> (string \<times> string) option" where
  "read_value_type strs d =
     Option.bind (read_fields d) (\<lambda>fs. Option.bind (Option.bind (the_one (nums 1 fs)) (text_at strs)) (\<lambda>ty.
     Option.bind (Option.bind (the_one (nums 2 fs)) (text_at strs)) (\<lambda>un. Some (ty, un))))"

definition read_function :: "string \<Rightarrow> (nat \<times> nat) option" where
  "read_function d =
     Option.bind (read_fields d) (\<lambda>fs. Option.bind (the_one (nums 1 fs)) (\<lambda>fid.
     Option.bind (the_one (nums 2 fs)) (\<lambda>nm. Some (fid, nm))))"

definition read_location :: "string \<Rightarrow> (nat \<times> nat) option" where
  "read_location d =
     Option.bind (read_fields d) (\<lambda>fs. Option.bind (the_one (nums 1 fs)) (\<lambda>lid.
     Option.bind (the_one (blobs 4 fs)) (\<lambda>line. Option.bind (read_fields line) (\<lambda>ls.
     Option.bind (the_one (nums 1 ls)) (\<lambda>fid. Some (lid, fid))))))"

definition resolve_name :: "string list \<Rightarrow> (nat \<times> nat) list \<Rightarrow> (nat \<times> nat) list \<Rightarrow> nat \<Rightarrow> string option" where
  "resolve_name strs funs locs lid =
     Option.bind (map_of locs lid) (\<lambda>fid. Option.bind (map_of funs fid) (text_at strs))"

definition read_sample ::
  "string list \<Rightarrow> (nat \<times> nat) list \<Rightarrow> (nat \<times> nat) list \<Rightarrow> string \<Rightarrow> (string list \<times> nat) option" where
  "read_sample strs funs locs d =
     Option.bind (read_fields d) (\<lambda>fs.
     Option.bind (Option.bind (the_one (blobs 1 fs)) read_varints) (\<lambda>ids.
     Option.bind (those (map (resolve_name strs funs locs) ids)) (\<lambda>stack.
     Option.bind (Option.bind (Option.bind (the_one (blobs 2 fs)) read_varints) the_one) (\<lambda>v.
     Some (stack, v)))))"

definition read_profile :: "string \<Rightarrow> profile option" where
  "read_profile bs =
     Option.bind (read_fields bs) (\<lambda>fs. let strs = blobs 6 fs in
     Option.bind (those (map read_function (blobs 5 fs))) (\<lambda>funs.
     Option.bind (those (map read_location (blobs 4 fs))) (\<lambda>locs.
     Option.bind (those (map (read_sample strs funs locs) (blobs 2 fs))) (\<lambda>samples.
     Option.bind (Option.bind (the_one (blobs 1 fs)) (read_value_type strs)) (\<lambda>st.
     Option.bind (Option.bind (the_one (blobs 11 fs)) (read_value_type strs)) (\<lambda>pt.
     Option.bind (the_one (nums 12 fs)) (\<lambda>p.
     Some \<lparr>pr_sample_type = st, pr_period_type = pt, pr_period = p, pr_samples = samples\<rparr>)))))))"

lemma nums_simps [simp]:
  "nums k [] = []" "nums k (Num_field j v # fs) = (if j = k then v # nums k fs else nums k fs)"
  "nums k (Bytes_field j d # fs) = nums k fs" "nums k (fs @ gs) = nums k fs @ nums k gs"
  "nums k (map (Bytes_field j) ds) = []"
  by (simp_all add: nums_def)

lemma blobs_simps [simp]:
  "blobs k [] = []" "blobs k (Num_field j v # fs) = blobs k fs"
  "blobs k (Bytes_field j d # fs) = (if j = k then d # blobs k fs else blobs k fs)"
  "blobs k (fs @ gs) = blobs k fs @ blobs k gs"
  "blobs k (map (Bytes_field j) ds) = (if j = k then ds else [])"
  by (induction ds) (auto simp: blobs_def)

lemma those_map_Some: "(\<And>x. x \<in> set xs \<Longrightarrow> f x = Some (g x)) \<Longrightarrow> those (map f xs) = Some (map g xs)"
  by (induction xs) auto

lemma length_concat_map_ge:
  "(\<And>x. x \<in> set xs \<Longrightarrow> f x \<noteq> []) \<Longrightarrow> length xs \<le> length (concat (map f xs))"
proof (induction xs)
  case (Cons x xs)
  then have "0 < length (f x)" by simp
  with Cons show ?case by (simp add: Suc_le_eq add.commute add_less_le_mono del: length_greater_0_conv)
qed simp

lemma length_member_le: "x \<in> set xs \<Longrightarrow> length (f x) \<le> length (concat (map f xs))"
  by (induction xs) auto

lemma lfield_length: "length d \<le> length (lfield f d)" "lfield f d \<noteq> []"
  by (simp_all add: lfield_def)

lemma reads_lfields:
  assumes "unat f < 2 ^ 61" "length (concat (map (lfield f) ds)) < 2 ^ 64"
  shows "reads_as (concat (map (lfield f) ds)) (map (Bytes_field (unat f)) ds)"
proof -
  have "reads_as (lfield f d) [Bytes_field (unat f) d]" if "d \<in> set ds" for d
    using that assms length_member_le [of d ds "lfield f"] lfield_length(1) [of d f]
    by (intro reads_lfield) auto
  from reads_as_concat [of ds "lfield f" "\<lambda>d. [Bytes_field (unat f) d]", OF this] show ?thesis
    by (simp add: concat_map_singleton)
qed

section \<open>The tables\<close>

definition text_is :: "interner \<Rightarrow> u64 \<Rightarrow> string \<Rightarrow> bool" where
  "text_is it i s \<longleftrightarrow> text_at (in_strings it) (unat i) = Some s"

definition interner_ok :: "interner \<Rightarrow> bool" where
  "interner_ok it \<longleftrightarrow> (\<forall>s i. hm_get (in_idx it) s = Some i \<longrightarrow> text_is it i s)"

lemma text_at_append: "text_at strs i = Some s \<Longrightarrow> text_at (strs @ es) i = Some s"
  by (auto simp: text_at_def nth_append split: if_splits)

lemma intern_cases:
  obtains "snd (intern s it) = it" "hm_get (in_idx it) s = Some (fst (intern s it))"
  | "hm_get (in_idx it) s = None" "fst (intern s it) = of_nat (length (in_strings it))"
    "in_strings (snd (intern s it)) = in_strings it @ [s]"
    "in_idx (snd (intern s it)) = hm_insert s (fst (intern s it)) (in_idx it)"
  by (cases "hm_get (in_idx it) s") (auto simp: intern_def Let_def)

lemma intern_length: "length (in_strings it) \<le> length (in_strings (snd (intern s it)))"
  by (cases s it rule: intern_cases) simp_all

lemma intern_ok:
  assumes "interner_ok it" "length (in_strings (snd (intern s it))) < 2 ^ 64"
  shows "interner_ok (snd (intern s it))" "text_is (snd (intern s it)) (fst (intern s it)) s"
    "text_is it i u \<Longrightarrow> text_is (snd (intern s it)) i u"
proof -
  have "interner_ok (snd (intern s it)) \<and> text_is (snd (intern s it)) (fst (intern s it)) s \<and>
      (\<forall>i u. text_is it i u \<longrightarrow> text_is (snd (intern s it)) i u)"
  proof (cases s it rule: intern_cases)
    case 1
    with assms(1) show ?thesis by (simp add: interner_ok_def)
  next
    case 2
    have "text_is (snd (intern s it)) (fst (intern s it)) s"
      using assms(2) by (simp add: text_is_def 2(2,3) text_at_def unat_of_nat)
    moreover have keep: "text_is it i u \<Longrightarrow> text_is (snd (intern s it)) i u" for i u
      by (simp add: text_is_def 2(3) text_at_append)
    ultimately show ?thesis
      using assms(1) by (auto simp: interner_ok_def 2(4) split: if_splits)
  qed
  then show "interner_ok (snd (intern s it))" "text_is (snd (intern s it)) (fst (intern s it)) s"
    "text_is it i u \<Longrightarrow> text_is (snd (intern s it)) i u"
    by blast+
qed

text \<open>The entries of the tables: name, function id, index of the name.\<close>

type_synonym table_entry = "string \<times> u64 \<times> u64"

definition tables_ok :: "pprof_tables \<Rightarrow> table_entry list \<Rightarrow> bool" where
  "tables_ok t ds \<longleftrightarrow>
     pt_functions t = concat (map (lfield 5) (map (\<lambda>(n, f, s). function_msg f s) ds)) \<and>
     pt_locations t = concat (map (lfield 4) (map (\<lambda>(n, f, s). location_msg f f) ds)) \<and>
     pt_name_loc t = map (\<lambda>(n, f, s). (n, f)) ds \<and>
     (\<forall>i < length ds. fst (snd (ds ! i)) = of_nat i + 1) \<and>
     interner_ok (pt_strings t) \<and> (\<forall>(n, f, s) \<in> set ds. text_is (pt_strings t) s n)"

lemma hm_insert_new: "hm_get m k = None \<Longrightarrow> hm_insert k v m = m @ [(k, v)]"
  unfolding hm_get_def hm_insert_def by (induction m) (auto split: if_splits)

lemma add_name_length: "length (in_strings (pt_strings t)) \<le> length (in_strings (pt_strings (add_name t n)))"
  using intern_length [of "pt_strings t" n]
  by (cases "intern n (pt_strings t)") (auto simp: add_name_def Let_def split: option.splits)

lemma add_name_ok:
  assumes "tables_ok t ds" "length (in_strings (pt_strings (add_name t n))) < 2 ^ 64"
  shows "\<exists>es. tables_ok (add_name t n) (ds @ es) \<and> n \<in> fst ` set (ds @ es)"
proof (cases "hm_get (pt_name_loc t) n")
  case None
  obtain i it where i: "intern n (pt_strings t) = (i, it)"
    by (cases "intern n (pt_strings t)")
  let ?f = "of_nat (length (pt_name_loc t)) + 1"
  have t': "add_name t n = \<lparr>pt_strings = it, pt_name_loc = pt_name_loc t @ [(n, ?f)],
      pt_functions = pt_functions t @ lfield 5 (function_msg ?f i),
      pt_locations = pt_locations t @ lfield 4 (location_msg ?f ?f)\<rparr>"
    using None i by (simp add: add_name_def hm_insert_new Let_def)
  have ok: "interner_ok (pt_strings t)" and len: "length (pt_name_loc t) = length ds"
    using assms(1) by (simp_all add: tables_ok_def)
  have "length (in_strings (snd (intern n (pt_strings t)))) < 2 ^ 64"
    using assms(2) t' i by simp
  note int = intern_ok [OF ok this, unfolded i fst_conv snd_conv]
  have "tables_ok (add_name t n) (ds @ [(n, ?f, i)])"
    using assms(1) int len t' by (auto simp: tables_ok_def nth_append less_Suc_eq)
  then show ?thesis by (intro exI [where x = "[(n, ?f, i)]"]) simp
next
  case (Some l)
  then have "add_name t n = t" by (simp add: add_name_def)
  moreover have "n \<in> fst ` set ds"
    using assms(1) hm_get_SomeD [OF Some] by (force simp: tables_ok_def)
  ultimately show ?thesis
    using assms(1) by (intro exI [where x = "[]"]) simp
qed

lemma add_names_ok:
  assumes "length (in_strings (pt_strings (foldl add_name tables_new ns))) < 2 ^ 64"
  shows "\<exists>ds. tables_ok (foldl add_name tables_new ns) ds \<and> set ns \<subseteq> fst ` set ds"
  using assms
proof (induction ns rule: rev_induct)
  case Nil
  show ?case
    by (intro exI [where x = "[]"]) (simp add: tables_ok_def tables_new_def interner_ok_def interner_new_def
        text_is_def text_at_def hm_get_Cons)
next
  case (snoc n ns)
  let ?t = "foldl add_name tables_new ns"
  have bound: "length (in_strings (pt_strings (add_name ?t n))) < 2 ^ 64"
    using snoc.prems by simp
  with add_name_length [of ?t n] snoc.IH obtain ds where ds: "tables_ok ?t ds" "set ns \<subseteq> fst ` set ds"
    by (meson le_less_trans)
  from add_name_ok [OF ds(1) bound] obtain es
    where "tables_ok (add_name ?t n) (ds @ es)" "n \<in> fst ` set (ds @ es)"
    by blast
  with ds(2) show ?case
    by (intro exI [where x = "ds @ es"]) auto
qed

section \<open>The round trip\<close>

lemma value_type_ok:
  assumes "value_type_msg ty un it = (vt, it')" "interner_ok it" "length (in_strings it') < 2 ^ 64"
  shows "interner_ok it'" "text_is it k u \<Longrightarrow> text_is it' k u"
    and "\<exists>i j. vt = vfield 1 i @ vfield 2 j \<and> text_is it' i ty \<and> text_is it' j un"
proof -
  obtain i it1 j where i: "intern ty it = (i, it1)" and j: "intern un it1 = (j, it')" and vt: "vt = vfield 1 i @ vfield 2 j"
    using assms(1) by (auto simp: value_type_msg_def Let_def split: prod.splits)
  have b1: "length (in_strings (snd (intern ty it))) < 2 ^ 64"
    using intern_length [of it1 un] assms(3) i j by simp
  note ok1 = intern_ok [OF assms(2) b1, unfolded i fst_conv snd_conv]
  have b2: "length (in_strings (snd (intern un it1))) < 2 ^ 64"
    using assms(3) j by simp
  note ok2 = intern_ok [OF ok1(1) b2, unfolded j fst_conv snd_conv]
  show "interner_ok it'" by (rule ok2(1))
  show "text_is it k u \<Longrightarrow> text_is it' k u" using ok1(3) ok2(3) by blast
  show "\<exists>i j. vt = vfield 1 i @ vfield 2 j \<and> text_is it' i ty \<and> text_is it' j un"
    using vt ok1(2) ok2(2,3) by blast
qed

lemma value_type_length: "value_type_msg ty un it = (vt, it') \<Longrightarrow> length (in_strings it) \<le> length (in_strings it')"
proof -
  assume "value_type_msg ty un it = (vt, it')"
  then obtain i it1 j where "intern ty it = (i, it1)" "intern un it1 = (j, it')"
    by (auto simp: value_type_msg_def Let_def split: prod.splits)
  then show ?thesis
    using intern_length [of it ty] intern_length [of it1 un] by simp
qed

lemmas reads_two = reads_as_append [OF reads_vfield reads_vfield, THEN reads_as_read]

lemma read_value_type_msg:
  "text_is it i ty \<Longrightarrow> text_is it j un \<Longrightarrow> read_value_type (in_strings it) (vfield 1 i @ vfield 2 j) = Some (ty, un)"
  by (simp add: read_value_type_def reads_two text_is_def)

lemma read_function_msg: "read_function (function_msg f s) = Some (unat f, unat s)"
proof -
  have "read_fields (function_msg f s) = Some [Num_field 1 (unat f), Num_field 2 (unat s), Num_field 4 (unat s)]"
    unfolding function_msg_def
    using reads_as_read [OF reads_as_append [OF reads_vfield [of 1 f]
        reads_as_append [OF reads_vfield [of 2 s] reads_vfield [of 4 s]]]] by simp
  then show ?thesis by (simp add: read_function_def)
qed

lemma read_location_msg:
  assumes "length (location_msg l f) < 2 ^ 64"
  shows "read_location (location_msg l f) = Some (unat l, unat f)"
proof -
  have "length (vfield 1 f) < 2 ^ 64"
    using assms lfield_length(1) [of "vfield 1 f" 4] by (simp add: location_msg_def)
  then have "read_fields (location_msg l f) = Some [Num_field 1 (unat l), Bytes_field 4 (vfield 1 f)]"
    unfolding location_msg_def
    using reads_as_read [OF reads_as_append [OF reads_vfield [of 1 l] reads_lfield [of 4 "vfield 1 f"]]] by simp
  moreover have "read_fields (vfield 1 f) = Some [Num_field 1 (unat f)]"
    using reads_as_read [OF reads_vfield [of 1 f]] by simp
  ultimately show ?thesis by (simp add: read_location_def)
qed

lemma read_sample_msg:
  assumes "length (sample_msg ids v) < 2 ^ 64" "\<And>i. i \<in> set ids \<Longrightarrow> resolve_name strs funs locs (unat i) = Some (nm i)"
  shows "read_sample strs funs locs (sample_msg ids v) = Some (map nm ids, unat v)"
proof -
  let ?d = "concat (map varint ids)" and ?e = "concat (map varint [v])"
  have "length ?d < 2 ^ 64" "length ?e < 2 ^ 64"
    using assms(1) lfield_length(1) [of ?d 1] lfield_length(1) [of ?e 2] by (simp_all add: sample_msg_def packed_def)
  then have "read_fields (sample_msg ids v) = Some [Bytes_field 1 ?d, Bytes_field 2 ?e]"
    unfolding sample_msg_def packed_def
    using reads_as_read [OF reads_as_append [OF reads_lfield [of 1 ?d] reads_lfield [of 2 ?e]]] by simp
  moreover have "those (map (resolve_name strs funs locs) (map unat ids)) = Some (map nm ids)"
    using those_map_Some [of ids "resolve_name strs funs locs \<circ> unat" nm] assms(2) by simp
  moreover have "read_varints ?d = Some (map unat ids)" "read_varints ?e = Some [unat v]"
    using read_varints_concat [of ids] read_varints_concat [of "[v]"] by simp_all
  ultimately show ?thesis by (simp add: read_sample_def)
qed

text \<open>Location ids lead back to the names.\<close>

lemma resolve_entry:
  assumes "tables_ok t ds" "length ds < 2 ^ 64" "(n, f, s) \<in> set ds"
  shows "resolve_name (in_strings (pt_strings t)) (map (\<lambda>(n, f, s). (unat f, unat s)) ds)
    (map (\<lambda>(n, f, s). (unat f, unat f)) ds) (unat f) = Some n"
proof -
  have id: "unat (fst (snd (ds ! i))) = i + 1" if "i < length ds" for i
  proof -
    have "unat (of_nat i :: u64) = i"
      using assms(2) that by (simp add: unat_of_nat)
    with assms(1,2) that unat_Suc_word [of "of_nat i :: u64"] show ?thesis
      by (simp add: tables_ok_def)
  qed
  have fst: "map fst (map (\<lambda>(n, f, s). (unat f, unat s)) ds) = map (\<lambda>d. unat (fst (snd d))) ds"
    "map fst (map (\<lambda>(n, f, s). (unat f, unat f)) ds) = map (\<lambda>d. unat (fst (snd d))) ds"
    by auto
  have dist: "distinct (map (\<lambda>d. unat (fst (snd d))) ds)"
    by (auto simp: distinct_conv_nth id)
  have "map_of (map (\<lambda>(n, f, s). (unat f, unat s)) ds) (unat f) = Some (unat s)"
    "map_of (map (\<lambda>(n, f, s). (unat f, unat f)) ds) (unat f) = Some (unat f)"
    using assms(3) dist by (auto intro!: map_of_is_SomeI rev_image_eqI [of "(n, f, s)"] simp: fst simp del: map_map)
  moreover have "text_at (in_strings (pt_strings t)) (unat s) = Some n"
    using assms(1,3) by (auto simp: tables_ok_def text_is_def)
  ultimately show ?thesis by (simp add: resolve_name_def)
qed

lemma bar_in_concat: "d < length rows \<Longrightarrow> i < length (rows ! d) \<Longrightarrow> rows ! d ! i \<in> set (concat rows)"
  by (auto intro!: bexI [of _ "rows ! d"])

lemma walk_named:
  assumes "list_all (level_ok 0) (fb_levels fb)" "d < length (fb_levels fb)" "i < length (decode_levels fb ! d)"
    and "b \<in> set (walk (decode_levels fb) d i)"
  shows "b \<in> set (concat (decode_levels fb))"
  using assms(2-4)
proof (induction d arbitrary: i)
  case 0
  then show ?case using bar_in_concat [of 0 "decode_levels fb" i] by (simp add: decode_levels_nth(1))
next
  case (Suc d)
  consider "b = decode_levels fb ! Suc d ! i"
    | k where "b_parent (decode_levels fb ! Suc d ! i) = Some k" "b \<in> set (walk (decode_levels fb) d k)"
    using Suc.prems(3) by (cases "b_parent (decode_levels fb ! Suc d ! i)") auto
  then show ?case
  proof cases
    case 1
    with Suc.prems(1,2) show ?thesis
      using bar_in_concat [of "Suc d" "decode_levels fb" i] by (simp add: decode_levels_nth(1))
  next
    case 2
    with Suc.IH [of k] Suc.prems(1) decoded_parents [OF assms(1) Suc.prems(1,2), of k] show ?thesis by simp
  qed
qed

lemma hot_bars_range: "(d, i) \<in> set (hot_bars rows) \<Longrightarrow> d < length rows \<and> i < length (rows ! d)"
  by (auto simp: hot_bars_def)

text \<open>What the written profile says.\<close>

definition profile_spec :: "flamebearer \<Rightarrow> profile" where
  "profile_spec fb =
     (let rows = decode_levels fb; (ty, un, scale, period) = value_kind fb
      in \<lparr>pr_sample_type = (ty, un), pr_period_type = (ty, un), pr_period = unat period,
          pr_samples = map (\<lambda>(d, i). (map (\<lambda>b. fb_names fb ! b_name_idx b) (stack_of rows d i),
            unat (of_int (i64 (b_self (rows ! d ! i) * scale)) :: u64))) (hot_bars rows)\<rparr>)"

text \<open>The parts of the output.\<close>

lemma to_pprof_parts:
  assumes "to_pprof fb = Some out"
  obtains ns t loc vt it1 pt it2 ty un scale period where
    "those (map (name_at fb) (concat (decode_levels fb))) = Some ns" "t = foldl add_name tables_new ns"
    "value_kind fb = (ty, un, scale, period)"
    "loc = (\<lambda>b. case Option.bind (name_at fb b) (hm_get (pt_name_loc t)) of Some l \<Rightarrow> l | None \<Rightarrow> 0)"
    "value_type_msg ty un (pt_strings t) = (vt, it1)" "value_type_msg ty un it1 = (pt, it2)"
    "out = lfield 1 vt @ concat (map (lfield 2) (map (\<lambda>(d, i). sample_msg (map loc (walk (decode_levels fb) d i))
        (of_int (i64 (b_self (decode_levels fb ! d ! i) * scale)))) (hot_bars (decode_levels fb)))) @
      pt_functions t @ pt_locations t @ lfield 11 pt @ vfield 12 period @ concat (map (lfield 6) (in_strings it2))"
proof -
  obtain ty un scale period where k: "value_kind fb = (ty, un, scale, period)"
    by (cases "value_kind fb")
  from assms k obtain ns where ns: "those (map (name_at fb) (concat (decode_levels fb))) = Some ns"
    by (auto simp: to_pprof_def Let_def)
  define t where "t = foldl add_name tables_new ns"
  obtain vt it1 where v: "value_type_msg ty un (pt_strings t) = (vt, it1)"
    by (cases "value_type_msg ty un (pt_strings t)")
  obtain pt it2 where p: "value_type_msg ty un it1 = (pt, it2)"
    by (cases "value_type_msg ty un it1")
  show thesis
    using assms k ns v p
    by (intro that [OF ns t_def k refl v p])
      (simp add: to_pprof_def Let_def t_def case_prod_unfold comp_def)
qed

lemma tables_texts:
  assumes "tables_ok t ds" "interner_ok it" "\<And>i s. text_is (pt_strings t) i s \<Longrightarrow> text_is it i s"
  shows "tables_ok (t\<lparr>pt_strings := it\<rparr>) ds"
  using assms by (fastforce simp: tables_ok_def)

lemma loc_of_name:
  assumes "tables_ok t ds" "n \<in> fst ` set ds"
  shows "\<exists>f s. hm_get (pt_name_loc t) n = Some f \<and> (n, f, s) \<in> set ds"
proof -
  have "pt_name_loc t = map (\<lambda>(n, f, s). (n, f)) ds"
    using assms(1) by (simp add: tables_ok_def)
  moreover from this have "hm_get (pt_name_loc t) n \<noteq> None"
    using assms(2) by (auto simp: hm_get_None_iff image_image case_prod_unfold)
  ultimately show ?thesis
    using hm_get_SomeD [of "pt_name_loc t" n] by fastforce
qed

lemma those_member: "those (map f xs) = Some ys \<Longrightarrow> x \<in> set xs \<Longrightarrow> \<exists>y \<in> set ys. f x = Some y"
  by (induction xs arbitrary: ys) (auto split: option.splits)

text \<open>One sample, read with tables that know all names.\<close>

lemma sample_read_back:
  assumes ok: "list_all (level_ok 0) (fb_levels fb)" and d: "d < length (fb_levels fb)" "i < length (decode_levels fb ! d)"
    and tab: "tables_ok t ds" "length ds < 2 ^ 64"
    and named: "\<And>b. b \<in> set (concat (decode_levels fb)) \<Longrightarrow>
      b_name_idx b < length (fb_names fb) \<and> fb_names fb ! b_name_idx b \<in> fst ` set ds"
    and loc: "loc = (\<lambda>b. case Option.bind (name_at fb b) (hm_get (pt_name_loc t)) of Some l \<Rightarrow> l | None \<Rightarrow> 0)"
    and len: "length (sample_msg (map loc (walk (decode_levels fb) d i)) v) < 2 ^ 64"
  shows "read_sample (in_strings (pt_strings t)) (map (\<lambda>(n, f, s). (unat f, unat s)) ds)
      (map (\<lambda>(n, f, s). (unat f, unat f)) ds) (sample_msg (map loc (walk (decode_levels fb) d i)) v) =
    Some (map (\<lambda>b. fb_names fb ! b_name_idx b) (stack_of (decode_levels fb) d i), unat v)"
proof -
  let ?w = "walk (decode_levels fb) d i"
  let ?res = "resolve_name (in_strings (pt_strings t)) (map (\<lambda>(n, f, s). (unat f, unat s)) ds)
      (map (\<lambda>(n, f, s). (unat f, unat f)) ds)"
  have res: "?res (unat (loc b)) = Some (fb_names fb ! b_name_idx b)" if "b \<in> set ?w" for b
  proof -
    note n = named [OF walk_named [OF ok d that]]
    from loc_of_name [OF tab(1) conjunct2 [OF n]] obtain f s
      where f: "hm_get (pt_name_loc t) (fb_names fb ! b_name_idx b) = Some f"
        "(fb_names fb ! b_name_idx b, f, s) \<in> set ds"
      by blast
    with n have "loc b = f"
      by (simp add: loc name_at_def)
    with resolve_entry [OF tab f(2)] show ?thesis by simp
  qed
  let ?nm = "\<lambda>l. the (?res (unat l))"
  have "read_sample (in_strings (pt_strings t)) (map (\<lambda>(n, f, s). (unat f, unat s)) ds)
      (map (\<lambda>(n, f, s). (unat f, unat f)) ds) (sample_msg (map loc ?w) v) = Some (map ?nm (map loc ?w), unat v)"
    by (rule read_sample_msg [OF len]) (auto simp: res)
  moreover have "map ?nm (map loc ?w) = map (\<lambda>b. fb_names fb ! b_name_idx b) ?w"
    by (simp add: res)
  ultimately show ?thesis
    using walk_stack [OF ok d] by simp
qed

lemma profile_fields:
  assumes "out = lfield 1 vt @ concat (map (lfield 2) sm) @ concat (map (lfield 5) fm) @ concat (map (lfield 4) lm) @
      lfield 11 pt @ vfield 12 period @ concat (map (lfield 6) strs)" "length out < 2 ^ 64"
  shows "read_fields out = Some ([Bytes_field 1 vt] @ map (Bytes_field 2) sm @ map (Bytes_field 5) fm @
      map (Bytes_field 4) lm @ [Bytes_field 11 pt] @ [Num_field 12 (unat period)] @ map (Bytes_field 6) strs)"
proof -
  have one: "length vt < 2 ^ 64" "length pt < 2 ^ 64"
    and many: "length (concat (map (lfield 2) sm)) < 2 ^ 64" "length (concat (map (lfield 5) fm)) < 2 ^ 64"
    "length (concat (map (lfield 4) lm)) < 2 ^ 64" "length (concat (map (lfield 6) strs)) < 2 ^ 64"
    using assms lfield_length(1) [of vt 1] lfield_length(1) [of pt 11] by simp_all
  have "reads_as (lfield 1 vt) [Bytes_field 1 vt]" "reads_as (lfield 11 pt) [Bytes_field 11 pt]"
    "reads_as (vfield 12 period) [Num_field 12 (unat period)]"
    using one reads_lfield [of 1 vt] reads_lfield [of 11 pt] reads_vfield [of 12 period] by simp_all
  moreover have "reads_as (concat (map (lfield 2) sm)) (map (Bytes_field 2) sm)"
    "reads_as (concat (map (lfield 5) fm)) (map (Bytes_field 5) fm)"
    "reads_as (concat (map (lfield 4) lm)) (map (Bytes_field 4) lm)"
    "reads_as (concat (map (lfield 6) strs)) (map (Bytes_field 6) strs)"
    using many reads_lfields [of 2 sm] reads_lfields [of 5 fm] reads_lfields [of 4 lm] reads_lfields [of 6 strs]
    by simp_all
  ultimately show ?thesis
    unfolding assms(1) by (intro reads_as_read reads_as_append)
qed

lemma read_functions:
  "those (map read_function (map (\<lambda>(n, f, s). function_msg f s) ds)) = Some (map (\<lambda>(n, f, s). (unat f, unat s)) ds)"
  by (induction ds) (auto simp: read_function_msg)

lemma read_locations:
  "length (concat (map (lfield 4) (map (\<lambda>(n, f, s). location_msg f f) ds))) < 2 ^ 64 \<Longrightarrow>
     those (map read_location (map (\<lambda>(n, f, s). location_msg f f) ds)) = Some (map (\<lambda>(n, f, s). (unat f, unat f)) ds)"
proof (induction ds)
  case (Cons d ds)
  obtain n f s where d: "d = (n, f, s)" by (cases d)
  have "length (location_msg f f) < 2 ^ 64"
    using Cons.prems lfield_length(1) [of "location_msg f f" 4] by (simp add: d)
  with Cons show ?case by (simp add: d read_location_msg)
qed simp

lemma profile_read_back:
  assumes ok: "list_all (level_ok 0) (fb_levels fb)" and run: "to_pprof fb = Some out" and len: "length out < 2 ^ 64"
  shows "read_profile out = Some (profile_spec fb)"
proof (rule to_pprof_parts [OF run])
  fix ns t loc vt it1 pt it2 ty un scale period
  let ?rows = "decode_levels fb"
  let ?sample = "\<lambda>(d, i). sample_msg (map loc (walk ?rows d i)) (of_int (i64 (b_self (?rows ! d ! i) * scale)))"
  assume ns: "those (map (name_at fb) (concat ?rows)) = Some ns" and t: "t = foldl add_name tables_new ns"
    and kind: "value_kind fb = (ty, un, scale, period)"
    and loc: "loc = (\<lambda>b. case Option.bind (name_at fb b) (hm_get (pt_name_loc t)) of Some l \<Rightarrow> l | None \<Rightarrow> 0)"
    and vt: "value_type_msg ty un (pt_strings t) = (vt, it1)" and pt: "value_type_msg ty un it1 = (pt, it2)"
    and out: "out = lfield 1 vt @ concat (map (lfield 2) (map ?sample (hot_bars ?rows))) @
      pt_functions t @ pt_locations t @ lfield 11 pt @ vfield 12 period @ concat (map (lfield 6) (in_strings it2))"
  have piece: "length (concat (map (lfield 6) (in_strings it2))) < 2 ^ 64" "length (lfield 1 vt) < 2 ^ 64"
    "length (lfield 11 pt) < 2 ^ 64" "length (pt_functions t) < 2 ^ 64" "length (pt_locations t) < 2 ^ 64"
    "length (concat (map (lfield 2) (map ?sample (hot_bars ?rows)))) < 2 ^ 64"
    using len unfolding out by simp_all
  have b2: "length (in_strings it2) < 2 ^ 64"
    using length_concat_map_ge [of "in_strings it2" "lfield 6"] piece(1) by (simp add: lfield_length)
  have b1: "length (in_strings it1) < 2 ^ 64"
    using value_type_length [OF pt] b2 by simp
  have b0: "length (in_strings (pt_strings t)) < 2 ^ 64"
    using value_type_length [OF vt] b1 by simp
  from add_names_ok b0 obtain ds where ds: "tables_ok t ds" "set ns \<subseteq> fst ` set ds"
    unfolding t by blast
  have int: "interner_ok (pt_strings t)"
    using ds(1) by (simp add: tables_ok_def)
  note v = value_type_ok [OF vt int b1] and p = value_type_ok [OF pt value_type_ok(1) [OF vt int b1] b2]
  obtain i j where i: "vt = vfield 1 i @ vfield 2 j" "text_is it2 i ty" "text_is it2 j un"
    using v(3) p(2) by blast
  obtain k l where k: "pt = vfield 1 k @ vfield 2 l" "text_is it2 k ty" "text_is it2 l un"
    using p(3) by blast
  let ?t = "t\<lparr>pt_strings := it2\<rparr>"
  have T: "tables_ok ?t ds"
    by (rule tables_texts [OF ds(1) p(1)]) (use v(2) p(2) in blast)
  let ?fm = "map (\<lambda>(n, f, s). function_msg f s) ds" and ?lm = "map (\<lambda>(n, f, s). location_msg f f) ds"
  let ?sm = "map ?sample (hot_bars ?rows)"
  have tabs: "pt_functions t = concat (map (lfield 5) ?fm)" "pt_locations t = concat (map (lfield 4) ?lm)"
    using ds(1) by (simp_all add: tables_ok_def)
  have "length ds < 2 ^ 64"
    using length_concat_map_ge [of ?fm "lfield 5"] piece(4) unfolding tabs by (simp add: lfield_length del: map_map)
  note lds = this
  have fields: "read_fields out = Some ([Bytes_field 1 vt] @ map (Bytes_field 2) ?sm @ map (Bytes_field 5) ?fm @
      map (Bytes_field 4) ?lm @ [Bytes_field 11 pt] @ [Num_field 12 (unat period)] @ map (Bytes_field 6) (in_strings it2))"
    using out len unfolding tabs by (rule profile_fields)
  let ?funs = "map (\<lambda>(n, f, s). (unat f, unat s)) ds" and ?locs = "map (\<lambda>(n, f, s). (unat f, unat f)) ds"
  have msgs: "those (map read_function ?fm) = Some ?funs" "those (map read_location ?lm) = Some ?locs"
    using read_functions [of ds] read_locations [of ds] piece(5) unfolding tabs by simp_all
  have named: "b_name_idx b < length (fb_names fb) \<and> fb_names fb ! b_name_idx b \<in> fst ` set ds"
    if "b \<in> set (concat ?rows)" for b
    using those_member [OF ns that] ds(2) by (auto simp: name_at_def split: if_splits)
  have samples: "those (map (read_sample (in_strings it2) ?funs ?locs) ?sm) = Some (pr_samples (profile_spec fb))"
  proof -
    have "read_sample (in_strings it2) ?funs ?locs (?sample x) =
      Some ((\<lambda>(d, i). (map (\<lambda>b. fb_names fb ! b_name_idx b) (stack_of ?rows d i),
            unat (of_int (i64 (b_self (?rows ! d ! i) * scale)) :: u64))) x)" if x: "x \<in> set (hot_bars ?rows)" for x
    proof (cases x)
      case (Pair d i)
      have "length (?sample x) < 2 ^ 64"
        using length_member_le [of "?sample x" ?sm "lfield 2"] lfield_length(1) [of "?sample x" 2] x piece(6) by force
      with Pair hot_bars_range [of d i ?rows] x
        sample_read_back [OF ok _ _ T lds named, of d i loc "of_int (i64 (b_self (?rows ! d ! i) * scale))"] loc
      show ?thesis by (simp add: decode_levels_nth(1))
    qed
    from those_map_Some [of "hot_bars ?rows" "\<lambda>x. read_sample (in_strings it2) ?funs ?locs (?sample x)", OF this]
    show ?thesis by (simp add: profile_spec_def Let_def kind comp_def)
  qed
  show ?thesis
    unfolding read_profile_def fields using msgs samples
    by (simp add: i(1) k(1) read_value_type_msg [OF i(2,3)] read_value_type_msg [OF k(2,3)] profile_spec_def Let_def kind
        del: map_map)
qed

section \<open>Self time by name\<close>

definition self_of :: "(string \<times> int) list \<Rightarrow> string \<Rightarrow> int" where
  "self_of xs nm = sum_list (map snd (filter (\<lambda>p. fst p = nm) xs))"

text \<open>No sum of self times overflows.\<close>

definition selfs_ok :: "(string \<times> int) list \<Rightarrow> bool" where
  "selfs_ok xs \<longleftrightarrow> (\<forall>p \<in> set xs. 0 \<le> snd p) \<and> sum_list (map snd xs) < 2 ^ 63"

lemma self_of_bounds:
  assumes "\<forall>p \<in> set xs. 0 \<le> snd p"
  shows "0 \<le> self_of xs nm" "self_of xs nm \<le> sum_list (map snd xs)"
  using assms by (induction xs) (auto simp: self_of_def)

lemma selfs_ok_snoc: "selfs_ok (xs @ [p]) \<Longrightarrow> selfs_ok xs \<and> 0 \<le> snd p \<and> 0 \<le> sum_list (map snd xs)"
  by (auto simp: selfs_ok_def intro!: sum_list_nonneg)

lemma sum_values_insert:
  "hm_wf m \<Longrightarrow> sum_list (hm_values (hm_insert k v m)) = sum_list (hm_values m) - unwrap_or 0 (hm_get m k) + (v :: int)"
proof (induction m)
  case (Cons x m)
  then show ?case
    by (cases x) (auto simp: hm_insert_def hm_values_def hm_get_def hm_wf_def unwrap_or_def split: option.splits
        dest: map_of_SomeD)
qed (simp add: hm_insert_def hm_values_def unwrap_or_def)

lemma by_name_ok:
  assumes "selfs_ok xs"
  shows "hm_wf (foldl add_self [] xs)"
    and "hm_get (foldl add_self [] xs) nm = (if nm \<in> fst ` set xs then Some (self_of xs nm) else None)"
    and "sum_list (hm_values (foldl add_self [] xs)) = sum_list (map snd xs)"
proof -
  have "hm_wf (foldl add_self [] xs) \<and>
      (\<forall>nm. hm_get (foldl add_self [] xs) nm = (if nm \<in> fst ` set xs then Some (self_of xs nm) else None)) \<and>
      sum_list (hm_values (foldl add_self [] xs)) = sum_list (map snd xs)"
    using assms
  proof (induction xs rule: rev_induct)
    case (snoc p xs)
    obtain n s where p: "p = (n, s)" by (cases p)
    let ?m = "foldl add_self [] xs"
    from selfs_ok_snoc [OF snoc.prems] have ok: "selfs_ok xs" "0 \<le> s" by (simp_all add: p)
    note IH = snoc.IH [OF ok(1)]
    have old: "unwrap_or 0 (hm_get ?m n) = self_of xs n"
    proof -
      have "self_of xs n = 0" if "n \<notin> fst ` set xs"
      proof -
        have "filter (\<lambda>p. fst p = n) xs = []"
          using that by (auto simp: filter_empty_conv)
        then show ?thesis by (simp add: self_of_def)
      qed
      with IH show ?thesis by (simp add: unwrap_or_def)
    qed
    have "self_of xs n + s < 2 ^ 63" "0 \<le> self_of xs n"
      using self_of_bounds [of xs n] snoc.prems ok(1) by (auto simp: selfs_ok_def p)
    then have i: "i64 (self_of xs n + s) = self_of xs n + s"
      using ok(2) by (intro i64_id) simp_all
    have m: "foldl add_self [] (xs @ [p]) = hm_insert n (self_of xs n + s) ?m"
      by (simp add: add_self_def p old i)
    have "sum_list (hm_values (hm_insert n (self_of xs n + s) ?m)) = sum_list (map snd (xs @ [p]))"
      using sum_values_insert [of ?m n "self_of xs n + s", unfolded old] IH by (simp add: p)
    moreover have "hm_get (hm_insert n (self_of xs n + s) ?m) nm =
        (if nm \<in> fst ` set (xs @ [p]) then Some (self_of (xs @ [p]) nm) else None)" for nm
      using IH by (auto simp: p self_of_def)
    ultimately show ?case
      unfolding m using IH by simp
  qed (simp add: hm_values_def)
  then show "hm_wf (foldl add_self [] xs)"
    "hm_get (foldl add_self [] xs) nm = (if nm \<in> fst ` set xs then Some (self_of xs nm) else None)"
    "sum_list (hm_values (foldl add_self [] xs)) = sum_list (map snd xs)"
    by blast+
qed

lemma wrapped_sum:
  "\<forall>v \<in> set vs. 0 \<le> v \<Longrightarrow> 0 \<le> a \<Longrightarrow> a + sum_list vs < 2 ^ 63 \<Longrightarrow> foldl (\<lambda>a v. i64 (a + v)) a vs = a + sum_list vs"
proof (induction vs arbitrary: a)
  case (Cons v vs)
  then have "0 \<le> sum_list vs" by (auto intro!: sum_list_nonneg)
  with Cons.prems have "i64 (a + v) = a + v"
    by (intro i64_id) simp_all
  with Cons show ?case by (simp add: add.assoc)
qed simp

text \<open>The total that percentages are taken of.\<close>

lemma total_ticks_value:
  assumes "selfs_ok xs"
  shows "total_ticks fb (foldl add_self [] xs) =
    (if 0 < fb_num_ticks fb then fb_num_ticks fb else max 1 (sum_list (map snd xs)))"
proof -
  let ?m = "foldl add_self [] xs"
  note m = by_name_ok [OF assms]
  have "0 \<le> v" if "v \<in> set (hm_values ?m)" for v
    using that hm_values_iff [OF m(1), of v] m(2) self_of_bounds(1) assms by (auto simp: selfs_ok_def split: if_splits)
  then have "foldl (\<lambda>a v. i64 (a + v)) 0 (hm_values ?m) = sum_list (map snd xs)"
    using wrapped_sum [of "hm_values ?m" 0] m(3) assms by (simp add: selfs_ok_def)
  then show ?thesis
    by (auto simp: total_ticks_def Let_def)
qed

text \<open>Sorting by a key that determines the entry.\<close>

lemma rows_sorted:
  assumes "hm_wf m"
  shows "sorted_wrt (\<lambda>(a, s) (b, u). u < s \<or> u = s \<and> a < b) (sort_key (\<lambda>(name, s). (- s :: int, name :: string)) m)"
proof -
  let ?k = "\<lambda>(name, s). (- s :: int, name :: string)" and ?r = "sort_key (\<lambda>(name, s). (- s :: int, name :: string)) m"
  have "inj_on ?k (set m)" by (auto intro!: inj_onI)
  moreover have "distinct ?r"
    using assms by (simp add: hm_wf_def distinct_map)
  ultimately have "distinct (map ?k ?r)"
    by (simp add: distinct_map)
  then have "sorted_wrt (<) (map ?k ?r)"
    by (simp add: strict_sorted_iff)
  then show ?thesis
    by (auto simp: sorted_wrt_map elim!: sorted_wrt_mono_rel [rotated])
qed

section \<open>Properties\<close>

text \<open>Property C37. The profile written for a flame graph with well-formed rows and valid name indices can
  be read back as protobuf, and says exactly what the flame graph does: one sample for each bar with
  self time, in order, whose stack names the bar and then, row by row, the bar above that covers it,
  and whose value is its self time in the unit of the profile.\<close>

theorem pprof_round_trip:
  assumes "list_all (level_ok 0) (fb_levels fb)"
    and "\<forall>b \<in> set (concat (decode_levels fb)). b_name_idx b < length (fb_names fb)"
  shows "\<exists>out. to_pprof fb = Some out \<and> (length out < 2 ^ 64 \<longrightarrow> read_profile out = Some (profile_spec fb))"
proof -
  have "those (map (name_at fb) (concat (decode_levels fb))) =
      Some (map (\<lambda>b. fb_names fb ! b_name_idx b) (concat (decode_levels fb)))"
    by (rule those_map_Some) (use assms(2) in \<open>auto simp: name_at_def\<close>)
  then obtain out where "to_pprof fb = Some out"
    by (simp add: to_pprof_def Let_def case_prod_unfold)
  with profile_read_back [OF assms(1) this] show ?thesis by blast
qed

text \<open>The ranking lists exactly the names with self time that are not excluded, each with the
  percentage of the summed self time of all its bars, the hottest first and equal ones by name, cut
  after \<open>n\<close> names.\<close>

lemma top_frames_exact:
  assumes "top_frames fb n exclude = Some fs" "those (map (name_at fb) (concat (decode_levels fb))) = Some names"
    and "xs = zip names (map b_self (concat (decode_levels fb)))" "selfs_ok xs"
  shows "\<exists>ys. fs = map (\<lambda>nm. (nm, self_pct (self_of xs nm)
        (if 0 < fb_num_ticks fb then fb_num_ticks fb else max 1 (sum_list (map snd xs))))) (take n ys) \<and>
    set ys = {nm \<in> fst ` set xs. 0 < self_of xs nm \<and> (\<forall>re. exclude = Some re \<longrightarrow> \<not> re nm)} \<and>
    sorted_wrt (\<lambda>a b. self_of xs b < self_of xs a \<or> self_of xs b = self_of xs a \<and> a < b) ys"
proof -
  let ?m = "foldl add_self [] xs" and ?ex = "\<lambda>(name, s). case exclude of None \<Rightarrow> True | Some re \<Rightarrow> \<not> re name"
  note m = by_name_ok [OF assms(4)]
  define rows where "rows = filter (\<lambda>(name, s). 0 < s) (sort_key (\<lambda>(name, s). (- s, name)) (filter ?ex ?m))"
  have self: "s = self_of xs a" "a \<in> fst ` set xs" if "(a, s) \<in> set rows" for a s
    using that hm_get_eq_Some_iff [OF m(1), of a s] m(2) [of a] by (auto simp: rows_def split: if_splits)
  have fs: "fs = map (\<lambda>(name, s). (name, self_pct s (total_ticks fb ?m))) (take n rows)"
    using assms(1,2,3) by (simp add: top_frames_def Let_def rows_def)
  have "map (\<lambda>(name, s). (name, self_pct s (total_ticks fb ?m))) (take n rows) =
      map (\<lambda>nm. (nm, self_pct (self_of xs nm) (total_ticks fb ?m))) (take n (map fst rows))"
    by (auto simp: take_map dest!: in_set_takeD self(1))
  moreover have "set (map fst rows) = {nm \<in> fst ` set xs. 0 < self_of xs nm \<and> (\<forall>re. exclude = Some re \<longrightarrow> \<not> re nm)}"
  proof -
    have "(nm, self_of xs nm) \<in> set ?m" if "nm \<in> fst ` set xs" for nm
      using that hm_get_eq_Some_iff [OF m(1), of nm "self_of xs nm"] m(2) [of nm] by simp
    then show ?thesis
      using self by (auto simp: rows_def split: option.splits) (force split: option.splits)+
  qed
  moreover have "sorted_wrt (\<lambda>a b. self_of xs b < self_of xs a \<or> self_of xs b = self_of xs a \<and> a < b) (map fst rows)"
  proof -
    have "hm_wf (filter ?ex ?m)"
      using m(1) by (simp add: hm_wf_def distinct_map_filter)
    from sorted_wrt_filter [OF rows_sorted [OF this], of "\<lambda>(name, s). 0 < s"]
    have "sorted_wrt (\<lambda>(a, s) (b, u). u < s \<or> u = s \<and> a < b) rows"
      by (simp add: rows_def)
    then show ?thesis
      by (auto simp: sorted_wrt_map dest!: self(1) elim!: sorted_wrt_mono_rel [rotated])
  qed
  ultimately show ?thesis
    using fs total_ticks_value [OF assms(4), of fb] by (intro exI [where x = "map fst rows"]) simp
qed

definition demo_fb :: flamebearer where
  "demo_fb = \<lparr>fb_names = [''t'', ''a''], fb_levels = [[0, 9, 0, 0], [0, 6, 6, 1]],
     fb_num_ticks = 9, fb_sample_rate = 0, fb_units = ''samples''\<rparr>"

lemma demo_fb_rows:
  "decode_levels demo_fb =
     [[\<lparr>b_x0 = 0, b_x1 = 9, b_self = 0, b_name_idx = 0, b_parent = None\<rparr>],
      [\<lparr>b_x0 = 0, b_x1 = 6, b_self = 6, b_name_idx = 1, b_parent = Some 0\<rparr>]]"
  by code_simp

theorem pprof_round_trip_witness:
  "read_profile (the (to_pprof demo_fb)) = Some
     \<lparr>pr_sample_type = (''samples'', ''count''), pr_period_type = (''samples'', ''count''), pr_period = 1,
      pr_samples = [([''a'', ''t''], 6)]\<rparr>"
proof -
  have "\<exists>out. to_pprof demo_fb = Some out \<and> (length out < 2 ^ 64 \<longrightarrow> read_profile out = Some (profile_spec demo_fb))"
    by (rule pprof_round_trip) (simp_all add: demo_fb_rows, simp_all add: demo_fb_def)
  moreover have "length (the (to_pprof demo_fb)) \<le> 200"
    by code_simp
  moreover have "profile_spec demo_fb =
     \<lparr>pr_sample_type = (''samples'', ''count''), pr_period_type = (''samples'', ''count''), pr_period = 1,
      pr_samples = [([''a'', ''t''], 6)]\<rparr>"
    by code_simp
  ultimately show ?thesis by auto
qed

end
