(* ===== verification/Perf_Gates.thy ===== *)
theory Perf_Gates
  imports Flamebearer
begin

text \<open>
  The two regression gates of continuous integration: \<open>konfig-flamediff\<close> (\<open>gate.rs\<close>, \<open>main.rs\<close>), which
  compares the hottest frames of two profiles, and \<open>konfig-loadtest-gate\<close> (\<open>bin/gate.rs\<close>), which
  compares latencies with the newest baseline; with the percentiles of \<open>konfig-loadtest/src/metrics.rs\<close>.
\<close>

section \<open>Frames of a profile\<close>

type_synonym frames = "(string, f64) btmap"

definition single_quoted :: "string \<Rightarrow> string" where
  "single_quoted s = CHR 0x27 # s @ [CHR 0x27]"

fun frames_loop :: "string \<Rightarrow> nat \<Rightarrow> json list \<Rightarrow> frames \<Rightarrow> string + frames" where
  "frames_loop path i [] out = Inr out"
| "frames_loop path i (fr # frs) out =
     (case (Option.bind (json_get ''name'' fr) json_as_str, json_get ''self_pct'' fr) of
        (Some name, Some v) \<Rightarrow>
          rbind (required (path @ '': frame['' @ show_nat i @ ''].self_pct not a number'') (json_as_f64 v)) (\<lambda>pct.
          frames_loop path (i + 1) frs (bt_insert name pct out))
      | _ \<Rightarrow> Inl (path @ '': frame['' @ show_nat i @ ''] must have '' @ single_quoted ''name'' @ '' and '' @ single_quoted ''self_pct''))"

fun is_object :: "json \<Rightarrow> bool" where
  "is_object (JObj m) = True"
| "is_object _ = False"

definition load_frames :: "tool_env \<Rightarrow> string \<Rightarrow> string + frames" where
  "load_frames te path =
     rbind (read_json te (\<lambda>e. ''profile file not found: '' @ path) path) (\<lambda>raw.
     let frames = (if is_object raw then unwrap_or raw (json_get ''frames'' raw) else raw) in
     rbind (required (path @ '': expected a '' @ single_quoted ''frames'' @ '' list'') (json_as_array frames)) (\<lambda>arr.
     frames_loop path 0 arr []))"

text \<open>Descending order of values; numbers of a JSON text are never NaN.\<close>

definition desc_key :: "f64 \<Rightarrow> int \<times> rat" where
  "desc_key v = (- fst (f64_rank v), - snd (f64_rank v))"

definition top_names :: "frames \<Rightarrow> nat \<Rightarrow> string list" where
  "top_names frames topn = map fst (take topn (sort_key (\<lambda>(n, v). (desc_key v, n)) frames))"

record row =
  r_name :: string
  r_base_pct :: f64
  r_cur_pct :: f64
  r_rel_delta :: "f64 option"
  r_regressed :: bool
  r_reason :: string

definition f64_zero :: f64 where
  "f64_zero = Fin False 0"

definition f64_hundred :: f64 where
  "f64_hundred = Fin False 100"

definition compare_frame :: "tool_env \<Rightarrow> frames \<Rightarrow> frames \<Rightarrow> f64 \<Rightarrow> f64 \<Rightarrow> f64 \<Rightarrow> string \<Rightarrow> row" where
  "compare_frame te current baseline threshold min_base_pct new_frame_floor_pct name =
     (let base = unwrap_or f64_zero (bt_get baseline name); cur = unwrap_or f64_zero (bt_get current name);
          rel = f64_div (f64_sub cur base) base
      in if f64_le min_base_pct base
         then if f64_lt threshold rel
              then \<lparr>r_name = name, r_base_pct = base, r_cur_pct = cur, r_rel_delta = Some rel, r_regressed = True,
                    r_reason = ''self% +'' @ te_fmt te 0 (f64_mul rel f64_hundred) @ ''% (> '' @
                      te_fmt te 0 (f64_mul threshold f64_hundred) @ ''% gate)''\<rparr>
              else \<lparr>r_name = name, r_base_pct = base, r_cur_pct = cur, r_rel_delta = Some rel, r_regressed = False,
                    r_reason = []\<rparr>
         else if f64_le new_frame_floor_pct cur
         then \<lparr>r_name = name, r_base_pct = base, r_cur_pct = cur, r_rel_delta = None, r_regressed = True,
               r_reason = ''new hot frame '' @ te_fmt te 1 cur @ ''% (>= '' @ te_fmt te 0 new_frame_floor_pct @ ''% floor)''\<rparr>
         else \<lparr>r_name = name, r_base_pct = base, r_cur_pct = cur, r_rel_delta = None, r_regressed = False,
               r_reason = []\<rparr>)"

definition frames_diff :: "tool_env \<Rightarrow> frames \<Rightarrow> frames \<Rightarrow> f64 \<Rightarrow> nat \<Rightarrow> f64 \<Rightarrow> f64 \<Rightarrow> row list" where
  "frames_diff te current baseline threshold topn min_base_pct new_frame_floor_pct =
     sort_key (\<lambda>r. desc_key (r_cur_pct r))
       (map (compare_frame te current baseline threshold min_base_pct new_frame_floor_pct)
          (remdups (sort (top_names baseline topn @ top_names current topn))))"

definition cross_mark :: string where
  "cross_mark = [CHR 0xE2, CHR 0x9D, CHR 0x8C]"

definition check_mark :: string where
  "check_mark = [CHR 0xE2, CHR 0x9C, CHR 0x85]"

definition delta_sign :: string where
  "delta_sign = [CHR 0xCE, CHR 0x94]"

definition line_feed :: string where
  "line_feed = [CHR 0x0A]"

definition tick :: string where
  "tick = [CHR 0x60]"

definition render_row :: "tool_env \<Rightarrow> row \<Rightarrow> string" where
  "render_row te r =
     (let delta = (case r_rel_delta r of
              None \<Rightarrow> if f64_lt f64_zero (r_cur_pct r) then ''new'' else emdash
            | Some d \<Rightarrow> te_fmt_signed te 0 (f64_mul d f64_hundred) @ ''%'');
          flag = (if r_regressed r then cross_mark else []);
          note' = (if r_reason r = [] then [] else '' '' @ r_reason r)
      in ''| '' @ tick @ r_name r @ tick @ '' | '' @ te_fmt te 1 (r_base_pct r) @ ''% | '' @ te_fmt te 1 (r_cur_pct r) @
         ''% | '' @ delta @ '' |'' @ flag @ note' @ '' |'' @ line_feed)"

definition render_markdown :: "tool_env \<Rightarrow> row list \<Rightarrow> f64 \<Rightarrow> nat \<Rightarrow> string" where
  "render_markdown te rows threshold topn =
     (let regressions = length (filter r_regressed rows); pct = te_fmt te 0 (f64_mul threshold f64_hundred)
      in ''## Flamediff '' @ emdash @ '' top-frame CPU regression gate'' @ line_feed @ line_feed @
         (if 0 < regressions
          then cross_mark @ '' **'' @ show_nat regressions @ '' frame(s) regressed** (relative self-% gate: '' @ pct @
            ''%, top-'' @ show_nat topn @ '').'' @ line_feed
          else check_mark @ '' No top-'' @ show_nat topn @ '' frame regressed beyond the '' @ pct @
            ''% relative self-% gate.'' @ line_feed) @
         line_feed @ ''| frame | baseline self% | current self% | '' @ delta_sign @ '' | |'' @ line_feed @
         ''|---|---|---|---|---|'' @ line_feed @ concat (map (render_row te) rows))"

section \<open>Commands of the profile tool\<close>

definition EXIT_OK :: nat where
  "EXIT_OK = 0"

definition EXIT_REGRESSION :: nat where
  "EXIT_REGRESSION = 1"

definition EXIT_INPUT :: nat where
  "EXIT_INPUT = 2"

text \<open>A command ends with a message, or with an exit code, what it printed and the files it wrote. An
  index out of range panics.\<close>

datatype tool_end = Failed string | Panicked | Ended nat string "(string \<times> string) list"

fun exit_code :: "tool_end \<Rightarrow> nat option" where
  "exit_code (Failed msg) = Some EXIT_INPUT"
| "exit_code Panicked = None"
| "exit_code (Ended c out ws) = Some c"

definition write_file :: "tool_env \<Rightarrow> string \<Rightarrow> string \<Rightarrow> string + unit" where
  "write_file te path contents = (case te_write te path contents of
       Inl e \<Rightarrow> Inl (''write '' @ path @ '': '' @ e) | Inr u \<Rightarrow> Inr ())"

definition write_or_print :: "tool_env \<Rightarrow> string option \<Rightarrow> string \<Rightarrow> nat \<Rightarrow> tool_end" where
  "write_or_print te output contents code = (case output of
       Some path \<Rightarrow> (case write_file te path contents of
           Inl e \<Rightarrow> Failed e | Inr u \<Rightarrow> Ended code [] [(path, contents)])
     | None \<Rightarrow> Ended code (contents @ line_feed) [])"

definition cmd_top_frames :: "tool_env \<Rightarrow> string \<Rightarrow> nat \<Rightarrow> string option \<Rightarrow> string option \<Rightarrow> tool_end" where
  "cmd_top_frames te input topn exclude output =
     (case (case exclude of None \<Rightarrow> Inr None | Some pat \<Rightarrow> (case te_regex te pat of
               Inl e \<Rightarrow> Inl (''bad --exclude regex: '' @ e) | Inr re \<Rightarrow> Inr (Some re))) of
        Inl e \<Rightarrow> Failed e
      | Inr re \<Rightarrow> (case load te input of
            Inl e \<Rightarrow> Failed e
          | Inr fb \<Rightarrow> (case top_frames fb topn re of
                None \<Rightarrow> Panicked
              | Some frames \<Rightarrow> write_or_print te output (frames_to_json te frames) EXIT_OK)))"

definition cmd_to_pprof :: "tool_env \<Rightarrow> string \<Rightarrow> string \<Rightarrow> tool_end" where
  "cmd_to_pprof te input output = (case load te input of
       Inl e \<Rightarrow> Failed e
     | Inr fb \<Rightarrow> (case to_pprof fb of
           None \<Rightarrow> Panicked
         | Some bytes \<Rightarrow> (case write_file te output bytes of
               Inl e \<Rightarrow> Failed e | Inr u \<Rightarrow> Ended EXIT_OK [] [(output, bytes)])))"

text \<open>Both gates write their summary to a file, if one is named, and print it.\<close>

definition emit :: "tool_env \<Rightarrow> string option \<Rightarrow> string \<Rightarrow> nat \<Rightarrow> tool_end" where
  "emit te output md code = (case output of
       Some path \<Rightarrow> (case write_file te path md of Inl e \<Rightarrow> Failed e | Inr u \<Rightarrow> Ended code md [(path, md)])
     | None \<Rightarrow> Ended code md [])"

definition cmd_gate ::
  "tool_env \<Rightarrow> string \<Rightarrow> string \<Rightarrow> f64 \<Rightarrow> nat \<Rightarrow> f64 \<Rightarrow> f64 \<Rightarrow> string option \<Rightarrow> tool_end" where
  "cmd_gate te current baseline threshold topn min_base_pct new_frame_floor_pct output =
     (case rbind (load_frames te current) (\<lambda>cur. rbind (load_frames te baseline) (\<lambda>base. Inr (cur, base))) of
        Inl e \<Rightarrow> Failed e
      | Inr (cur, base) \<Rightarrow>
          (let rows = frames_diff te cur base threshold topn min_base_pct new_frame_floor_pct
           in emit te output (render_markdown te rows threshold topn)
                (if list_ex r_regressed rows then EXIT_REGRESSION else EXIT_OK)))"

section \<open>The command line of the profile tool\<close>

datatype flame_cmd =
    TopFrames string nat "string option" "string option"
  | ToPprof string string
  | Gate string string f64 nat f64 f64 "string option"

fun flame_run :: "tool_env \<Rightarrow> flame_cmd \<Rightarrow> tool_end" where
  "flame_run te (TopFrames input topn exclude output) = cmd_top_frames te input topn exclude output"
| "flame_run te (ToPprof input output) = cmd_to_pprof te input output"
| "flame_run te (Gate current baseline threshold topn min_base_pct new_frame_floor_pct output) =
     cmd_gate te current baseline threshold topn min_base_pct new_frame_floor_pct output"

text \<open>The exit status of the process, and what it writes to the error stream when a command fails.\<close>

definition flame_main :: "tool_env \<Rightarrow> flame_cmd \<Rightarrow> nat option \<times> string" where
  "flame_main te c = (case flame_run te c of
       Failed msg \<Rightarrow> (Some EXIT_INPUT, ''flamediff: '' @ msg @ line_feed)
     | e \<Rightarrow> (exit_code e, []))"

section \<open>The latency gate\<close>

record p99_row =
  pr_name :: string
  pr_base_p99 :: f64
  pr_cur_p99 :: f64
  pr_regressed :: bool

fun p99_loop :: "string \<Rightarrow> nat \<Rightarrow> json list \<Rightarrow> frames \<Rightarrow> string + frames" where
  "p99_loop path i [] out = Inr out"
| "p99_loop path i (sc # scs) out =
     rbind (required (path @ '': scenario['' @ show_nat i @ ''] missing '' @ single_quoted ''name'')
       (Option.bind (json_get ''name'' sc) json_as_str)) (\<lambda>name.
     p99_loop path (i + 1) scs
       (case Option.bind (Option.bind (json_get ''metrics'' sc) (json_get ''p99_ms'')) json_as_f64 of
          Some p99 \<Rightarrow> bt_insert name p99 out | None \<Rightarrow> out))"

definition load_p99 :: "tool_env \<Rightarrow> string \<Rightarrow> string + frames" where
  "load_p99 te path =
     rbind (read_json te (\<lambda>e. ''read '' @ path @ '': '' @ e) path) (\<lambda>raw.
     rbind (required (path @ '': expected a '' @ single_quoted ''scenarios'' @ '' array'')
       (Option.bind (json_get ''scenarios'' raw) json_as_array)) (\<lambda>scenarios.
     p99_loop path 0 scenarios []))"

definition semver_key :: "string \<Rightarrow> u64 \<times> u64 \<times> u64" where
  "semver_key stem =
     (let s = (case stem of c # r \<Rightarrow> if c = CHR ''v'' then r else stem | [] \<Rightarrow> stem);
          it = map (\<lambda>p. unwrap_or 0 (parse_u64 p)) (split_on CHR ''.'' s);
          nth0 = (\<lambda>i. if i < length it then it ! i else 0)
      in (nth0 0, nth0 1, nth0 2))"

text \<open>The stem and the extension of a file name: the parts around its last dot, unless that is the first
  character.\<close>

fun split_ext :: "string \<Rightarrow> string \<times> string option" where
  "split_ext name =
     (let suffix = takeWhile (\<lambda>c. c \<noteq> CHR ''.'') (rev name); stem = drop (length suffix + 1) (rev name)
      in if length suffix = length name \<or> stem = [] then (name, None) else (rev stem, Some (rev suffix)))"

text \<open>\<open>Path::join\<close>, and the directory of a path.\<close>

definition path_join :: "string \<Rightarrow> string \<Rightarrow> string" where
  "path_join dir p = (if p \<noteq> [] \<and> hd p = CHR ''/'' then p
     else if dir = [] \<or> last dir = CHR ''/'' then dir @ p else dir @ ''/'' @ p)"

definition parent_dir :: "string \<Rightarrow> string" where
  "parent_dir p =
     (let dir = rev (dropWhile (\<lambda>c. c = CHR ''/'') (dropWhile (\<lambda>c. c \<noteq> CHR ''/'') (rev p)))
      in if dir = [] \<and> p \<noteq> [] \<and> hd p = CHR ''/'' then ''/'' else dir)"

definition consider_entry ::
  "string \<Rightarrow> ((u64 \<times> u64 \<times> u64) \<times> string) option \<Rightarrow> string \<Rightarrow> ((u64 \<times> u64 \<times> u64) \<times> string) option" where
  "consider_entry dir best name = (case split_ext name of
       (stem, ext) \<Rightarrow>
         if ext \<noteq> Some ''json'' \<or> \<not> utf8_valid stem then best
         else let key = semver_key stem
              in (case best of
                    None \<Rightarrow> Some (key, path_join dir name)
                  | Some (k, p) \<Rightarrow> if k < key then Some (key, path_join dir name) else best))"

definition newest_baseline :: "tool_env \<Rightarrow> string \<Rightarrow> string option" where
  "newest_baseline te dir = (case te_list_dir te dir of
       None \<Rightarrow> None
     | Some entries \<Rightarrow> map_option snd (foldl (consider_entry dir) None entries))"

definition p99_diff :: "frames \<Rightarrow> frames \<Rightarrow> f64 \<Rightarrow> p99_row list" where
  "p99_diff current baseline threshold =
     sort_key pr_name (List.map_filter (\<lambda>(name, base). map_option (\<lambda>cur.
        \<lparr>pr_name = name, pr_base_p99 = base, pr_cur_p99 = cur, pr_regressed = f64_lt (f64_mul base threshold) cur\<rparr>)
        (bt_get current name)) baseline)"

definition f64_one :: f64 where
  "f64_one = Fin False 1"

fun f64_round_away :: "f64 \<Rightarrow> f64" where
  "f64_round_away (Fin s m) = Fin s (of_int \<lfloor>m + 1 / 2\<rfloor>)"
| "f64_round_away x = x"

fun as_u128 :: "f64 \<Rightarrow> nat" where
  "as_u128 NaN = 0"
| "as_u128 (Inf s) = (if s then 0 else 2 ^ 128 - 1)"
| "as_u128 (Fin s m) = (if s then 0 else min (nat \<lfloor>m\<rfloor>) (2 ^ 128 - 1))"

definition render_p99_row :: "tool_env \<Rightarrow> p99_row \<Rightarrow> string" where
  "render_p99_row te r =
     (let delta = (if f64_lt f64_zero (pr_base_p99 r)
            then te_fmt_signed te 0 (f64_mul (f64_sub (f64_div (pr_cur_p99 r) (pr_base_p99 r)) f64_one) f64_hundred) @ ''%''
            else emdash);
          flag = (if pr_regressed r then cross_mark else [])
      in ''| '' @ tick @ pr_name r @ tick @ '' | '' @ show_nat (as_u128 (pr_base_p99 r)) @ '' | '' @
         show_nat (as_u128 (pr_cur_p99 r)) @ '' | '' @ delta @ '' |'' @ flag @ '' |'' @ line_feed)"

definition render_p99 :: "tool_env \<Rightarrow> p99_row list \<Rightarrow> f64 \<Rightarrow> string \<Rightarrow> string" where
  "render_p99 te rows threshold baseline_path =
     (let pct = te_fmt te 0 (f64_round_away (f64_mul (f64_sub threshold f64_one) f64_hundred));
          regressions = length (filter pr_regressed rows)
      in ''## Perf gate '' @ emdash @ '' p99 latency regression'' @ line_feed @ line_feed @
         ''Baseline: '' @ tick @ baseline_path @ tick @ line_feed @ line_feed @
         (if 0 < regressions
          then cross_mark @ '' **'' @ show_nat regressions @ '' scenario(s) regressed** (p99 > baseline +'' @ pct @ ''%).'' @ line_feed
          else check_mark @ '' No scenario p99 exceeded baseline +'' @ pct @ ''%.'' @ line_feed) @
         line_feed @ ''| scenario | baseline p99 (ms) | current p99 (ms) | '' @ delta_sign @ '' | |'' @ line_feed @
         ''|---|---|---|---|---|'' @ line_feed @ concat (map (render_p99_row te) rows))"

record gate_args =
  ga_current :: string
  ga_baselines_dir :: string
  ga_baseline :: "string option"
  ga_threshold :: f64
  ga_update :: "string option"
  ga_output :: "string option"

definition update_baseline :: "tool_env \<Rightarrow> gate_args \<Rightarrow> string \<Rightarrow> tool_end" where
  "update_baseline te a tg =
     (let dest = path_join (ga_baselines_dir a) (tg @ ''.json''); parent = parent_dir dest
      in case te_mkdir te parent of
           Inl e \<Rightarrow> Failed (''mkdir '' @ parent @ '': '' @ e)
         | Inr u \<Rightarrow> (case te_read te (ga_current a) of
               Inl e \<Rightarrow> Failed (''read '' @ ga_current a @ '': '' @ e)
             | Inr body \<Rightarrow> (case write_file te dest body of
                   Inl e \<Rightarrow> Failed e | Inr u \<Rightarrow> Ended EXIT_OK [] [(dest, body)])))"

definition no_baseline_text :: "string \<Rightarrow> string" where
  "no_baseline_text dir = ''## Perf gate '' @ emdash @ '' no baseline'' @ line_feed @ line_feed @ ''No baseline in '' @ tick @
     dir @ tick @ ''. Seed one with '' @ tick @ ''--update <tag>'' @ tick @ ''; nothing to gate.'' @ line_feed"

definition gate_run :: "tool_env \<Rightarrow> gate_args \<Rightarrow> tool_end" where
  "gate_run te a = (case ga_update a of
       Some tg \<Rightarrow> update_baseline te a tg
     | None \<Rightarrow> (case load_p99 te (ga_current a) of
           Inl e \<Rightarrow> Failed e
         | Inr current \<Rightarrow>
             (case (case ga_baseline a of Some p \<Rightarrow> Some p | None \<Rightarrow> newest_baseline te (ga_baselines_dir a)) of
                None \<Rightarrow> emit te (ga_output a) (no_baseline_text (ga_baselines_dir a)) EXIT_OK
              | Some path \<Rightarrow> (case load_p99 te path of
                    Inl e \<Rightarrow> Failed e
                  | Inr baseline \<Rightarrow>
                      (let rows = p99_diff current baseline (ga_threshold a)
                       in emit te (ga_output a) (render_p99 te rows (ga_threshold a) path)
                            (if list_ex pr_regressed rows then EXIT_REGRESSION else EXIT_OK))))))"

section \<open>Percentiles\<close>

text \<open>Latencies in milliseconds; an index out of range panics.\<close>

type_synonym stats = "nat list"

definition at_index :: "nat list \<Rightarrow> nat \<Rightarrow> nat option" where
  "at_index s i = (if i < length s then Some (s ! i) else None)"

definition p50 :: "stats \<Rightarrow> nat option" where
  "p50 samples = (let s = sort samples in at_index s (length s div 2))"

definition scaled_index :: "nat \<Rightarrow> rat \<Rightarrow> nat" where
  "scaled_index n q = nat \<lfloor>f64_round (f64_round (of_nat n) * f64_round q)\<rfloor>"

definition p95 :: "stats \<Rightarrow> nat option" where
  "p95 samples = (let s = sort samples in at_index s (scaled_index (length s) (95 / 100)))"

definition p99 :: "stats \<Rightarrow> nat option" where
  "p99 samples = (let s = sort samples in at_index s (scaled_index (length s) (99 / 100)))"

definition stats_max :: "stats \<Rightarrow> nat" where
  "stats_max samples = (let s = sort samples in if s = [] then 0 else last s)"

record latency_metrics =
  lm_samples :: nat
  lm_p50_ms :: nat
  lm_p95_ms :: nat
  lm_p99_ms :: nat
  lm_max_ms :: nat

record scenario_result =
  sr_name :: string
  sr_pass :: bool
  sr_failures :: "string list"
  sr_metrics :: "latency_metrics option"

definition scenario_pass :: "string \<Rightarrow> scenario_result" where
  "scenario_pass name = \<lparr>sr_name = name, sr_pass = True, sr_failures = [], sr_metrics = None\<rparr>"

definition scenario_fail :: "string \<Rightarrow> string list \<Rightarrow> scenario_result" where
  "scenario_fail name failures = \<lparr>sr_name = name, sr_pass = False, sr_failures = failures, sr_metrics = None\<rparr>"

definition with_metrics :: "scenario_result \<Rightarrow> latency_metrics \<Rightarrow> scenario_result" where
  "with_metrics r m = r\<lparr>sr_metrics := Some m\<rparr>"

definition esc_char :: "char \<Rightarrow> string" where
  "esc_char c =
     (if c = CHR 0x22 then [CHR 0x5C, CHR 0x22] else if c = CHR 0x5C then [CHR 0x5C, CHR 0x5C]
      else if c = CHR 0x0A then [CHR 0x5C, CHR ''n''] else if c = CHR 0x0D then [CHR 0x5C, CHR ''r'']
      else if c = CHR 0x09 then [CHR 0x5C, CHR ''t''] else [c])"

definition esc :: "string \<Rightarrow> string" where
  "esc s = concat (map esc_char s)"

definition dq :: "string \<Rightarrow> string" where
  "dq s = CHR 0x22 # s @ [CHR 0x22]"

definition show_bool :: "bool \<Rightarrow> string" where
  "show_bool b = (if b then ''true'' else ''false'')"

definition metrics_json :: "latency_metrics option \<Rightarrow> string" where
  "metrics_json m = (case m of
       Some m \<Rightarrow> dq ''metrics'' @ '':{'' @ dq ''samples'' @ '':'' @ show_nat (lm_samples m) @ '','' @ dq ''p50_ms'' @ '':'' @
         show_nat (lm_p50_ms m) @ '','' @ dq ''p95_ms'' @ '':'' @ show_nat (lm_p95_ms m) @ '','' @ dq ''p99_ms'' @ '':'' @
         show_nat (lm_p99_ms m) @ '','' @ dq ''max_ms'' @ '':'' @ show_nat (lm_max_ms m) @ ''},''
     | None \<Rightarrow> dq ''metrics'' @ '':null,'')"

definition result_json :: "scenario_result \<Rightarrow> string" where
  "result_json r =
     ''{'' @ dq ''name'' @ '':'' @ dq (esc (sr_name r)) @ '','' @ dq ''pass'' @ '':'' @ show_bool (sr_pass r) @ '','' @
     metrics_json (sr_metrics r) @ dq ''failures'' @ '':['' @ join_str '','' (map (\<lambda>f. dq (esc f)) (sr_failures r)) @ '']}''"

definition write_results_json :: "tool_env \<Rightarrow> string \<Rightarrow> scenario_result list \<Rightarrow> bool \<Rightarrow> string + unit" where
  "write_results_json te path results any_fail =
     te_write te path (''{'' @ dq ''all_passed'' @ '':'' @ show_bool (\<not> any_fail) @ '','' @ dq ''scenarios'' @ '':['' @
       join_str '','' (map result_json results) @ '']}'' @ line_feed)"

section \<open>Lemmas\<close>

text \<open>The first \<open>n\<close> elements of a strictly sorted list are those with fewer than \<open>n\<close> before them.\<close>

lemma take_sorted_iff:
  assumes "sorted_wrt (\<lambda>a b. f a < (f b :: 'k :: linorder)) xs"
  shows "x \<in> set (take n xs) \<longleftrightarrow> x \<in> set xs \<and> card {y \<in> set xs. f y < f x} < n"
proof -
  have before: "{y \<in> set xs. f y < f (xs ! i)} = set (take i xs)" if "i < length xs" for i
  proof -
    have less: "f (xs ! j) < f (xs ! k)" if "j < k" "k < length xs" for j k
      using assms that by (simp add: sorted_wrt_iff_nth_less)
    have "f (xs ! j) < f (xs ! i) \<longleftrightarrow> j < i" if "j < length xs" for j
      using less [of j i] less [of i j] that \<open>i < length xs\<close> by (cases j i rule: linorder_cases) auto
    then have "{y \<in> set xs. f y < f (xs ! i)} = (!) xs ` {0..<i}"
      using that by (auto simp: set_conv_nth)
    with that show ?thesis
      by (simp add: nth_image)
  qed
  have "sorted_wrt (<) (map f xs)"
    using assms by (simp add: sorted_wrt_map)
  then have "distinct xs"
    by (metis distinct_map strict_sorted_iff)
  then have card: "card {y \<in> set xs. f y < f (xs ! i)} = i" if "i < length xs" for i
    using that by (simp add: before distinct_card)
  show ?thesis
  proof
    assume "x \<in> set (take n xs)"
    then obtain i where "i < length xs" "i < n" "x = xs ! i"
      by (auto simp: in_set_conv_nth)
    with card show "x \<in> set xs \<and> card {y \<in> set xs. f y < f x} < n" by simp
  next
    assume "x \<in> set xs \<and> card {y \<in> set xs. f y < f x} < n"
    then obtain i where "i < length xs" "x = xs ! i" "i < n"
      using card by (metis in_set_conv_nth)
    then show "x \<in> set (take n xs)"
      by (auto simp: in_set_conv_nth)
  qed
qed

definition among_hottest :: "frames \<Rightarrow> nat \<Rightarrow> string \<Rightarrow> bool" where
  "among_hottest frames n nm \<longleftrightarrow>
     (\<exists>v. (nm, v) \<in> set frames \<and> card {(k, u) \<in> set frames. (desc_key u, k) < (desc_key v, nm)} < n)"

lemma top_names_hottest:
  assumes "bt_wf frames"
  shows "nm \<in> set (top_names frames n) \<longleftrightarrow> among_hottest frames n nm"
proof -
  let ?k = "\<lambda>(n, v). (desc_key v, n :: string)"
  let ?s = "sort_key ?k frames"
  have "distinct (map fst frames)"
    by (rule bt_wf_distinct [OF assms])
  then have "distinct frames" "inj_on fst (set frames)"
    by (simp_all add: distinct_map)
  moreover from this(2) have "inj_on ?k (set frames)"
    unfolding inj_on_def by force
  ultimately have "distinct (map ?k ?s)"
    by (simp add: distinct_map)
  then have "sorted_wrt (<) (map ?k ?s)"
    by (simp add: strict_sorted_iff)
  then have "sorted_wrt (\<lambda>a b. ?k a < ?k b) ?s"
    by (simp add: sorted_wrt_map)
  from take_sorted_iff [OF this, of _ n] show ?thesis
    by (force simp: top_names_def among_hottest_def case_prod_unfold)
qed

lemma frames_loop_wf: "frames_loop path i frs out = Inr m \<Longrightarrow> bt_wf out \<Longrightarrow> bt_wf m"
  by (induction path i frs out rule: frames_loop.induct) (auto simp: rbind_eq_Inr split: option.splits prod.splits)

lemma load_frames_wf: "load_frames te path = Inr m \<Longrightarrow> bt_wf m"
  by (auto simp: load_frames_def Let_def rbind_eq_Inr dest!: frames_loop_wf)

text \<open>When a frame regresses, in its two values.\<close>

definition regresses :: "f64 \<Rightarrow> f64 \<Rightarrow> f64 \<Rightarrow> f64 \<Rightarrow> f64 \<Rightarrow> bool" where
  "regresses threshold min_base floor_pct base cur \<longleftrightarrow>
     (if f64_le min_base base then f64_lt threshold (f64_div (f64_sub cur base) base) else f64_le floor_pct cur)"

definition pct_of :: "frames \<Rightarrow> string \<Rightarrow> f64" where
  "pct_of frames nm = unwrap_or f64_zero (bt_get frames nm)"

lemma compare_frame_regressed:
  "r_regressed (compare_frame te c b thr mb fl nm) \<longleftrightarrow> regresses thr mb fl (pct_of b nm) (pct_of c nm)"
  by (simp add: compare_frame_def regresses_def pct_of_def Let_def)

lemma frames_diff_regressed:
  "list_ex r_regressed (frames_diff te c b thr n mb fl) \<longleftrightarrow>
     (\<exists>nm \<in> set (top_names b n) \<union> set (top_names c n). regresses thr mb fl (pct_of b nm) (pct_of c nm))"
  by (auto simp: frames_diff_def list_ex_iff compare_frame_regressed)

text \<open>A frame that did not get hotter does not regress, if the floor for new frames is not below the
  threshold for small ones.\<close>

lemma no_hotter_no_regression:
  assumes "f64_finite base" "f64_finite cur" "f64_le cur base"
    and "f64_lt f64_zero mb" "f64_le mb fl" "f64_le f64_zero thr"
  shows "\<not> regresses thr mb fl base cur"
proof (cases "f64_le mb base")
  case True
  then have "f64_lt (Fin False 0) base"
    using assms(4) by (auto simp: f64_lt_def f64_le_def f64_zero_def)
  then have "f64_nonpos (f64_div (f64_sub cur base) base)"
    by (intro f64_div_nonpos f64_sub_nonpos assms)
  with True assms(6) show ?thesis
    by (simp add: regresses_def f64_zero_def f64_nonpos_not_above)
next
  case False
  moreover have "mb \<noteq> NaN" "base \<noteq> NaN"
    using assms(1,4) by (auto simp: f64_lt_def)
  ultimately have "f64_lt base mb"
    using f64_not_le by blast
  then have "f64_lt cur fl"
    using assms(3,5) by (auto simp: f64_lt_def f64_le_def)
  with False show ?thesis
    by (auto simp: regresses_def f64_lt_def f64_le_def)
qed

text \<open>With a floor below the small-frame threshold a frame that cooled down is reported.\<close>

lemma cooler_frame_can_regress:
  "regresses (Fin False (1 / 5)) (Fin False 10) (Fin False 5) (Fin False 9) (Fin False 8)"
  by (simp add: regresses_def f64_le_def)

lemma emit_code:
  "(\<And>path md. output = Some path \<Longrightarrow> te_write te path md = Inr ()) \<Longrightarrow> exit_code (emit te output md code) = Some code"
  by (auto simp: emit_def write_file_def split: option.splits)

text \<open>The files a directory offers as baselines, and the choice among them.\<close>

definition baseline_key :: "string \<Rightarrow> (u64 \<times> u64 \<times> u64) option" where
  "baseline_key name = (case split_ext name of (stem, ext) \<Rightarrow>
     if ext = Some ''json'' \<and> utf8_valid stem then Some (semver_key stem) else None)"

definition newest_among :: "string \<Rightarrow> string list \<Rightarrow> ((u64 \<times> u64 \<times> u64) \<times> string) option \<Rightarrow> bool" where
  "newest_among dir entries best \<longleftrightarrow> (case best of
       None \<Rightarrow> \<forall>e \<in> set entries. baseline_key e = None
     | Some (key, path) \<Rightarrow> (\<exists>e \<in> set entries. baseline_key e = Some key \<and> path = path_join dir e) \<and>
         (\<forall>e \<in> set entries. \<forall>k. baseline_key e = Some k \<longrightarrow> k \<le> key))"

lemma consider_entry_key:
  "consider_entry dir best name = (case baseline_key name of None \<Rightarrow> best
     | Some key \<Rightarrow> (case best of None \<Rightarrow> Some (key, path_join dir name)
         | Some (k, p) \<Rightarrow> if k < key then Some (key, path_join dir name) else best))"
  by (auto simp: consider_entry_def baseline_key_def Let_def simp del: split_ext.simps split: prod.splits option.splits)

lemma newest_step:
  assumes "newest_among dir entries best"
  shows "newest_among dir (entries @ [e]) (consider_entry dir best e)"
proof (cases "baseline_key e")
  case None
  with assms show ?thesis
    by (auto simp: newest_among_def consider_entry_key split: option.splits)
next
  case (Some key)
  show ?thesis
  proof (cases best)
    case None
    with assms Some show ?thesis by (auto simp: newest_among_def consider_entry_key)
  next
    case (Some kp)
    then obtain k p where best: "best = Some (k, p)" by (cases kp) auto
    show ?thesis
    proof (cases "k < key")
      case True
      then have "k' \<le> key" if "k' \<le> k" for k'
        using that by (meson le_less_trans less_imp_le)
      with assms \<open>baseline_key e = Some key\<close> best True show ?thesis
        by (auto simp: newest_among_def consider_entry_key)
    next
      case False
      with assms \<open>baseline_key e = Some key\<close> best show ?thesis
        by (auto simp: newest_among_def consider_entry_key not_less)
    qed
  qed
qed

lemma newest_fold: "newest_among dir entries (foldl (consider_entry dir) None entries)"
proof (induction entries rule: rev_induct)
  case (snoc e entries)
  from newest_step [OF this] show ?case by simp
qed (simp add: newest_among_def)

lemma p99_loop_wf: "p99_loop path i scs out = Inr m \<Longrightarrow> bt_wf out \<Longrightarrow> bt_wf m"
  by (induction path i scs out rule: p99_loop.induct) (auto simp: rbind_eq_Inr split: option.splits)

lemma load_p99_wf: "load_p99 te path = Inr m \<Longrightarrow> bt_wf m"
  by (auto simp: load_p99_def rbind_eq_Inr dest!: p99_loop_wf)

lemma bt_get_iff: "bt_wf m \<Longrightarrow> bt_get m k = Some v \<longleftrightarrow> (k, v) \<in> set m"
  using bt_wf_distinct [of m] by (simp add: bt_get_def)

lemma p99_diff_regressed:
  assumes "bt_wf baseline"
  shows "list_ex pr_regressed (p99_diff current baseline threshold) \<longleftrightarrow>
    (\<exists>name base cur. bt_get baseline name = Some base \<and> bt_get current name = Some cur \<and>
       f64_lt (f64_mul base threshold) cur)"
  by (auto simp: p99_diff_def list_ex_iff List.map_filter_def bt_get_iff [OF assms]) force+

section \<open>Percentile indices\<close>

text \<open>The literals 0.95 and 0.99 lie within a 128th of their names, and so do the products.\<close>

lemma round_between:
  assumes "of_int a / 128 \<le> x" "x \<le> of_int b / 128" "0 \<le> a" "b < 2 ^ 53"
  shows "of_int a / 128 \<le> f64_round x" "f64_round x \<le> of_int b / 128"
proof -
  have p: "pow2 (- 7) = 1 / 128"
    by (simp add: pow2_def)
  have "a \<le> b"
    using order_trans [OF assms(1,2)] by (simp add: divide_right_mono)
  then show "of_int a / 128 \<le> f64_round x" "f64_round x \<le> of_int b / 128"
    using f64_round_ge_dyadic [of a "- 7" x] f64_round_le_dyadic [of x b "- 7"] assms by (simp_all add: p)
qed

lemma scaled_index_bounds:
  assumes "0 < n" "n < 2 ^ 45" "of_int a / 128 \<le> q" "q \<le> of_int b / 128" "0 \<le> a" "a \<le> b" "b \<le> 128"
  shows "int n * a div 128 \<le> int (scaled_index n q)" "int (scaled_index n q) \<le> int n * b div 128"
proof -
  have n: "f64_round (of_nat n) = of_int (int n)"
    using f64_round_int [of "int n"] assms(2) by simp
  note q = round_between [OF assms(3,4,5)]
  have qb: "of_int a / 128 \<le> f64_round q" "f64_round q \<le> of_int b / 128"
    using q assms(7) by simp_all
  have "of_int (int n * a) / 128 \<le> of_int (int n) * f64_round q" "of_int (int n) * f64_round q \<le> of_int (int n * b) / 128"
    using mult_left_mono [OF qb(1), of "of_int (int n)"] mult_left_mono [OF qb(2), of "of_int (int n)"] by simp_all
  moreover have "0 \<le> int n * a" "int n * b < 2 ^ 53"
  proof -
    have "int n * b \<le> int n * 128"
      using assms(7) by (intro mult_left_mono) simp_all
    also have "\<dots> < 2 ^ 45 * 128"
      using assms(2) by simp
    finally show "int n * b < 2 ^ 53" by simp
    show "0 \<le> int n * a" using assms(5) by simp
  qed
  ultimately have r: "of_int (int n * a) / 128 \<le> f64_round (of_int (int n) * f64_round q)"
    "f64_round (of_int (int n) * f64_round q) \<le> of_int (int n * b) / 128"
    by (rule round_between)+
  have fl: "\<lfloor>of_int k / (128 :: rat)\<rfloor> = k div 128" for k
    using floor_divide_of_int_eq [of k 128, where 'a = rat] by simp
  let ?r = "f64_round (of_int (int n) * f64_round q)"
  have s: "int (scaled_index n q) = \<lfloor>?r\<rfloor>"
    using f64_round_nonneg [of "of_int (int n) * f64_round q"] by (simp add: scaled_index_def n)
  show "int n * a div 128 \<le> int (scaled_index n q)" "int (scaled_index n q) \<le> int n * b div 128"
    unfolding s using floor_mono [OF r(1)] floor_mono [OF r(2)] by (simp_all only: fl)
qed

lemma index_order:
  assumes "0 < n" "n < 2 ^ 45"
  shows "n div 2 \<le> scaled_index n (95 / 100)" "scaled_index n (95 / 100) \<le> scaled_index n (99 / 100)"
    "scaled_index n (99 / 100) < n"
proof -
  have b95: "int n * 121 div 128 \<le> int (scaled_index n (95 / 100))" "int (scaled_index n (95 / 100)) \<le> int n * 122 div 128"
    by (rule scaled_index_bounds [OF assms, where a = 121 and b = 122]; simp)+
  have b99: "int n * 126 div 128 \<le> int (scaled_index n (99 / 100))" "int (scaled_index n (99 / 100)) \<le> int n * 127 div 128"
    by (rule scaled_index_bounds [OF assms, where a = 126 and b = 127]; simp)+
  have "int n * 122 div 128 \<le> int n * 126 div 128"
    by (intro zdiv_mono1) simp_all
  with b95 b99 show "scaled_index n (95 / 100) \<le> scaled_index n (99 / 100)" by linarith
  have "int n * 64 div 128 \<le> int n * 121 div 128"
    by (intro zdiv_mono1) simp_all
  moreover have "int n * 64 div 128 = int (n div 2)"
    by (simp add: zdiv_int)
  ultimately show "n div 2 \<le> scaled_index n (95 / 100)"
    using b95(1) by linarith
  have "int n * 127 div 128 < int n"
    using assms(1) by (simp add: int_div_less_self zdiv_mono1 div_less_iff_less_mult)
  with b99(2) show "scaled_index n (99 / 100) < n" by linarith
qed

lemma sort_nth_le: "i \<le> j \<Longrightarrow> j < length xs \<Longrightarrow> sort xs ! i \<le> sort xs ! j"
  by (simp add: sorted_nth_mono)

text \<open>Whether some scenario exceeds its baseline, and whether none is slower and all baselines are
  integers, as the load test writes them.\<close>

definition slower :: "frames \<Rightarrow> frames \<Rightarrow> f64 \<Rightarrow> bool" where
  "slower b c threshold \<longleftrightarrow> (\<exists>nm base cur. bt_get b nm = Some base \<and> bt_get c nm = Some cur \<and>
     f64_lt (f64_mul base threshold) cur)"

definition nowhere_slower :: "frames \<Rightarrow> frames \<Rightarrow> bool" where
  "nowhere_slower b c \<longleftrightarrow> (\<forall>nm base cur. bt_get b nm = Some base \<and> bt_get c nm = Some cur \<longrightarrow>
     (\<exists>i. 0 \<le> i \<and> i < 2 ^ 53 \<and> base = Fin False (of_int i)) \<and> f64_le cur base)"

lemma nowhere_slower_passes:
  assumes "nowhere_slower b c" "f64_finite thr" "f64_le f64_one thr"
  shows "\<not> slower b c thr"
proof -
  have "\<not> f64_lt (f64_mul base thr) cur" if "0 \<le> i" "i < 2 ^ 53" "base = Fin False (of_int i)" "f64_le cur base" for base cur i
    using f64_mul_ge [OF that(1,2) assms(2)] assms(3) that(3,4) by (auto simp: f64_one_def f64_le_def f64_lt_def)
  with assms(1) show ?thesis
    unfolding nowhere_slower_def slower_def by blast
qed

lemma gate_run_against:
  assumes "ga_update a = None" "\<And>path md. ga_output a = Some path \<Longrightarrow> te_write te path md = Inr ()"
    and "load_p99 te (ga_current a) = Inr c" "ga_baseline a = None" "newest_baseline te (ga_baselines_dir a) = Some path"
  shows "exit_code (gate_run te a) = Some (case load_p99 te path of Inl msg \<Rightarrow> 2
    | Inr b \<Rightarrow> if slower b c (ga_threshold a) then 1 else 0)"
proof (cases "load_p99 te path")
  case (Inl e)
  with assms show ?thesis by (simp add: gate_run_def EXIT_INPUT_def)
next
  case (Inr b)
  with assms emit_code [OF assms(2)] p99_diff_regressed [OF load_p99_wf [OF Inr], of c "ga_threshold a"] show ?thesis
    by (simp add: gate_run_def Let_def slower_def EXIT_REGRESSION_def EXIT_OK_def)
qed

section \<open>Properties\<close>


text \<open>The latency gate compares with a file of the directory whose version is greatest, and
  passes when there is none. It answers 1 exactly when some scenario present in both exceeds its
  baseline times the threshold; with integral latencies and a threshold of at least 1 a run that is
  nowhere slower passes.\<close>

lemma latency_gate_exact:
  assumes "ga_update a = None" "\<And>path md. ga_output a = Some path \<Longrightarrow> te_write te path md = Inr ()"
    and "load_p99 te (ga_current a) = Inr c"
    and "te_list_dir te (ga_baselines_dir a) = Some entries" "ga_baseline a = None"
  shows "(\<forall>e \<in> set entries. baseline_key e = None) \<and> exit_code (gate_run te a) = Some 0 \<or>
    (\<exists>e \<in> set entries. \<exists>key. baseline_key e = Some key \<and>
      (\<forall>e' \<in> set entries. \<forall>k. baseline_key e' = Some k \<longrightarrow> k \<le> key) \<and>
      (case load_p99 te (path_join (ga_baselines_dir a) e) of
         Inl msg \<Rightarrow> exit_code (gate_run te a) = Some 2
       | Inr b \<Rightarrow> exit_code (gate_run te a) = Some (if slower b c (ga_threshold a) then 1 else 0) \<and>
           (nowhere_slower b c \<and> f64_finite (ga_threshold a) \<and> f64_le f64_one (ga_threshold a) \<longrightarrow>
            exit_code (gate_run te a) = Some 0)))"
proof -
  let ?best = "foldl (consider_entry (ga_baselines_dir a)) None entries"
  note new = newest_fold [of "ga_baselines_dir a" entries]
  show ?thesis
  proof (cases ?best)
    case None
    with new assms show ?thesis
      by (simp add: newest_among_def gate_run_def newest_baseline_def emit_code EXIT_OK_def)
  next
    case (Some kp)
    then obtain key path where kp: "?best = Some (key, path)" by (cases kp) auto
    from new kp obtain e where e: "e \<in> set entries" "baseline_key e = Some key" "path = path_join (ga_baselines_dir a) e"
      and max: "\<forall>e' \<in> set entries. \<forall>k. baseline_key e' = Some k \<longrightarrow> k \<le> key"
      by (auto simp: newest_among_def)
    have "newest_baseline te (ga_baselines_dir a) = Some path"
      using assms(4) kp by (simp add: newest_baseline_def)
    from gate_run_against [OF assms(1,2,3,5) this] e max show ?thesis
      by (intro disjI2 bexI [OF _ e(1)] exI [where x = key])
        (auto split: sum.splits dest: nowhere_slower_passes)
  qed
qed

text \<open>Of fewer than \<open>2\<^sup>4\<^sup>5\<close> samples, at least one, no percentile is out of range, and they are
  ordered: the median is at most the 95th, which is at most the 99th, which is at most the maximum.\<close>

lemma percentiles_ordered:
  assumes "samples \<noteq> []" "length samples < 2 ^ 45"
  shows "\<exists>a b c. p50 samples = Some a \<and> p95 samples = Some b \<and> p99 samples = Some c \<and>
    a \<le> b \<and> b \<le> c \<and> c \<le> stats_max samples \<and> {a, b, c} \<subseteq> set samples"
proof -
  let ?n = "length samples" and ?s = "sort samples"
  let ?i = "scaled_index ?n (95 / 100)" and ?j = "scaled_index ?n (99 / 100)"
  have "0 < ?n" using assms(1) by simp
  note ord = index_order [OF this assms(2)]
  have "?s ! (?n div 2) \<le> ?s ! ?i" "?s ! ?i \<le> ?s ! ?j" "?s ! ?j \<le> ?s ! (?n - 1)"
    using ord by (auto intro!: sort_nth_le)
  moreover have ne: "?s \<noteq> []"
    using assms(1) by (metis length_0_conv length_sort)
  moreover have "last ?s = ?s ! (?n - 1)"
    using last_conv_nth [OF ne] by simp
  moreover have "?s ! k \<in> set samples" if "k < ?n" for k
    using that by (metis length_sort nth_mem set_sort)
  ultimately show ?thesis
    using ord by (auto simp: p50_def p95_def p99_def stats_max_def at_index_def Let_def)
qed

definition demo_tools :: "json \<Rightarrow> json \<Rightarrow> tool_env" where
  "demo_tools current baseline =
     \<lparr>te_read = (\<lambda>path. Inr path), te_parse_json = (\<lambda>text. Inr (if text = ''cur'' then current else baseline)),
      te_pretty = (\<lambda>v. []), te_demangle = (\<lambda>s. s), te_regex = (\<lambda>p. Inl []), te_write = (\<lambda>p c. Inr ()),
      te_mkdir = (\<lambda>p. Inr ()), te_list_dir = (\<lambda>d. Some [''v1.9.0.json'', ''v1.10.0.json'']),
      te_fmt = (\<lambda>n x. []), te_fmt_signed = (\<lambda>n x. [])\<rparr>"

definition demo_frames :: "string \<Rightarrow> u64 \<Rightarrow> json" where
  "demo_frames nm pct = JArr [JObj [(''name'', JStr nm), (''self_pct'', JNum (PosInt pct))]]"

lemma demo_load:
  "load_frames (demo_tools (demo_frames ''a'' 8) (demo_frames ''a'' 9)) ''cur'' = Inr [(''a'', Fin False 8)]"
  "load_frames (demo_tools (demo_frames ''a'' 8) (demo_frames ''a'' 9)) ''base'' = Inr [(''a'', Fin False 9)]"
  using f64_of_int_exact [of 8] f64_of_int_exact [of 9]
  by (simp_all add: load_frames_def read_json_def demo_tools_def demo_frames_def required_def Let_def)


definition demo_gate_args :: gate_args where
  "demo_gate_args = \<lparr>ga_current = ''cur'', ga_baselines_dir = ''b'', ga_baseline = None, ga_threshold = Fin False 1,
     ga_update = None, ga_output = None\<rparr>"

definition demo_results :: json where
  "demo_results = JObj [(''scenarios'', JArr [])]"

end
