(* ===== verification/Loadtest.thy ===== *)
theory Loadtest
  imports Perf_Gates Apply_Path
begin

text \<open>
  The load tester (\<open>tools/konfig-loadtest\<close>): its settings (\<open>args.rs\<close>), the shared client steps (\<open>client.rs\<close>),
  the scenarios and the summary (\<open>main.rs\<close>). The server is on the other side of a network, so what the
  tasks observe of it is an input: the outcome of a call, the items of a stream with the clock reading
  at which they arrive. The tasks of a scenario share state behind locks; a run is the sequence of their
  atomic steps, in any interleaving. Log lines are left out. Integers wrap as in a release build.
\<close>

section \<open>Settings\<close>

record load_args =
  la_addr :: string
  la_namespace :: string
  la_config_name :: string
  la_secret_name :: string
  la_scenario :: string
  la_duration :: "u64 option"
  la_results_json :: "string option"

type_synonym env_vars = "string \<Rightarrow> string option"

definition env_usize :: "env_vars \<Rightarrow> string \<Rightarrow> usize \<Rightarrow> usize" where
  "env_usize env key dflt = unwrap_or dflt (Option.bind (env key) parse_u64)"

definition env_u32 :: "env_vars \<Rightarrow> string \<Rightarrow> u32 \<Rightarrow> u32" where
  "env_u32 env key dflt = unwrap_or dflt (Option.bind (env key) parse_u32)"

definition env_u64 :: "env_vars \<Rightarrow> string \<Rightarrow> u64 \<Rightarrow> u64" where
  "env_u64 env key dflt = unwrap_or dflt (Option.bind (env key) parse_u64)"

text \<open>A \<open>u128\<close> is only ever compared, so it is a natural number here.\<close>

definition env_u128 :: "env_vars \<Rightarrow> string \<Rightarrow> nat \<Rightarrow> nat" where
  "env_u128 env key dflt = unwrap_or dflt (Option.bind (env key) (parse_uint 128))"

section \<open>Client steps\<close>

text \<open>The version a scenario starts from: one above the stored one, or 1 when the read fails.\<close>

definition next_version :: "u32 rpc \<Rightarrow> u32" where
  "next_version r = (case r of Inr v \<Rightarrow> v + 1 | Inl _ \<Rightarrow> 1)"

definition seed_start_seq :: "string + u32 rpc \<Rightarrow> string + u32" where
  "seed_start_seq seed = (case seed of
       Inl e \<Rightarrow> Inl (''connect failed: '' @ e) | Inr r \<Rightarrow> Inr (next_version r))"

definition config_yaml :: "string \<Rightarrow> u32 \<Rightarrow> string" where
  "config_yaml label v =
     ''schema_version: '' @ show_nat (unat v) @ line_feed @ ''content:'' @ line_feed @ ''  iteration: '' @ show_nat (unat v) @
     line_feed @ ''  scenario: '' @ label @ line_feed"

text \<open>\<open>start..=end\<close>.\<close>

definition seqs :: "u32 \<Rightarrow> u32 \<Rightarrow> u32 list" where
  "seqs a b = map of_nat [unat a..<Suc (unat b)]"

text \<open>One apply after the other over a connection; the interval between them is left out.\<close>

fun apply_loop :: "('r \<Rightarrow> 'w \<Rightarrow> 'a rpc \<times> 'w) \<Rightarrow> 'r list \<Rightarrow> u32 \<times> u32 \<Rightarrow> 'w \<Rightarrow> (u32 \<times> u32) \<times> 'w" where
  "apply_loop call [] c w = (c, w)"
| "apply_loop call (q # qs) (ok, err) w = (case call q w of
       (Inr a, w') \<Rightarrow> apply_loop call qs (ok + 1, err) w'
     | (Inl e, w') \<Rightarrow> apply_loop call qs (ok, err + 1) w')"

definition drive_applies ::
  "(apply_request \<Rightarrow> 'w \<Rightarrow> 'a rpc \<times> 'w) \<Rightarrow> string + unit \<Rightarrow> string \<Rightarrow> string \<Rightarrow> u32 \<Rightarrow> u32 \<Rightarrow> string \<Rightarrow> 'w \<Rightarrow>
   (string + (u32 \<times> u32)) \<times> 'w" where
  "drive_applies call conn ns nm start_seq end_seq label w = (case conn of
       Inl e \<Rightarrow> (Inl (''connect failed: '' @ e), w)
     | Inr u \<Rightarrow> (case apply_loop call (map (\<lambda>v. \<lparr>ar_namespace = ns, ar_name = nm, ar_yaml_content = config_yaml label v\<rparr>)
           (seqs start_seq end_seq)) (0, 0) w of (c, w') \<Rightarrow> (Inr c, w')))"

section \<open>Floods\<close>

text \<open>
  The scenarios that subscribe, write and count share this machine. The driver writes, stamping each
  success; then it polls the counters until all expected events have arrived or a deadline has
  passed. A subscriber waits for an item; a late enough version is looked up among the stamps, its lag
  pushed, and counted, each under its own lock. An item that is an error ends the task.
\<close>

datatype task = Idle | Looking nat instant | Pushing nat | Counting | Gone

record flood =
  fl_driven :: nat
  fl_stamps :: "instant option list"
  fl_ok :: nat
  fl_lat :: stats
  fl_counts :: "nat list"
  fl_tasks :: "task list"
  fl_deadline :: "instant option"
  fl_over :: bool
  fl_drained :: bool
  fl_crashed :: bool

text \<open>\<open>fs_applies\<close> is \<open>None\<close> when the driver writes until the instant \<open>fs_until\<close>; only the first \<open>fs_watched\<close>
  subscribers are counted in the end; counters are \<open>fs_width\<close> bits wide.\<close>

record 'ev flood_spec =
  fs_version :: "'ev \<Rightarrow> u32"
  fs_start :: u32
  fs_applies :: "nat option"
  fs_until :: instant
  fs_stamped :: bool
  fs_timed :: bool
  fs_drain :: nat
  fs_watched :: nat
  fs_width :: nat

datatype 'ev flood_act =
    Applied "string + instant"
  | Applies_done instant
  | Poll instant
  | Item nat instant "'ev rpc"
  | Proceed nat

definition driver_finished :: "'ev flood_spec \<Rightarrow> instant \<Rightarrow> flood \<Rightarrow> bool" where
  "driver_finished fs now st = (case fs_applies fs of Some n \<Rightarrow> n \<le> fl_driven st | None \<Rightarrow> fs_until fs \<le> now)"

text \<open>A write has returned. A stamp beyond the table panics.\<close>

definition applied_step :: "'ev flood_spec \<Rightarrow> string + instant \<Rightarrow> flood \<Rightarrow> flood" where
  "applied_step fs r st =
     (if fl_deadline st \<noteq> None \<or> (case fs_applies fs of Some n \<Rightarrow> n \<le> fl_driven st | None \<Rightarrow> False) then st
      else case r of
          Inl e \<Rightarrow> st\<lparr>fl_driven := fl_driven st + 1\<rparr>
        | Inr now \<Rightarrow>
            if fs_stamped fs \<and> length (fl_stamps st) \<le> fl_driven st then st\<lparr>fl_crashed := True\<rparr>
            else st\<lparr>fl_stamps := (if fs_stamped fs then (fl_stamps st)[fl_driven st := Some now] else fl_stamps st),
                    fl_ok := fl_ok st + 1, fl_driven := fl_driven st + 1\<rparr>)"

definition received :: "'ev flood_spec \<Rightarrow> flood \<Rightarrow> nat" where
  "received fs st = sum_list (take (fs_watched fs) (fl_counts st)) mod 2 ^ fs_width fs"

definition expected_events :: "'ev flood_spec \<Rightarrow> flood \<Rightarrow> nat" where
  "expected_events fs st = (fs_watched fs * fl_ok st) mod 2 ^ fs_width fs"

text \<open>One round of the drain loop.\<close>

definition poll_step :: "'ev flood_spec \<Rightarrow> instant \<Rightarrow> flood \<Rightarrow> flood" where
  "poll_step fs now st = (case fl_deadline st of
       None \<Rightarrow> st
     | Some dl \<Rightarrow>
         if fl_over st then st
         else if expected_events fs st \<le> received fs st then st\<lparr>fl_over := True, fl_drained := True\<rparr>
         else if dl \<le> now then st\<lparr>fl_over := True, fl_drained := False\<rparr>
         else st)"

definition item_step :: "'ev flood_spec \<Rightarrow> nat \<Rightarrow> instant \<Rightarrow> 'ev rpc \<Rightarrow> flood \<Rightarrow> flood" where
  "item_step fs i received_at item st =
     (if length (fl_tasks st) \<le> i \<or> fl_tasks st ! i \<noteq> Idle then st
      else case item of
          Inl e \<Rightarrow> st\<lparr>fl_tasks := (fl_tasks st)[i := Gone]\<rparr>
        | Inr ev \<Rightarrow>
            if fs_version fs ev < fs_start fs then st
            else st\<lparr>fl_tasks := (fl_tasks st)[i :=
              (if fs_timed fs then Looking (unat (fs_version fs ev - fs_start fs)) received_at else Counting)]\<rparr>)"

definition stamp_at :: "nat \<Rightarrow> instant option list \<Rightarrow> instant option" where
  "stamp_at idx stamps = (if idx < length stamps then stamps ! idx else None)"

definition proceed_step :: "nat \<Rightarrow> flood \<Rightarrow> flood" where
  "proceed_step i st =
     (if length (fl_tasks st) \<le> i then st
      else case fl_tasks st ! i of
          Looking idx received_at \<Rightarrow>
            st\<lparr>fl_tasks := (fl_tasks st)[i := (case stamp_at idx (fl_stamps st) of
                 Some t \<Rightarrow> Pushing ((received_at - t) div 1000000) | None \<Rightarrow> Counting)]\<rparr>
        | Pushing ms \<Rightarrow> st\<lparr>fl_lat := fl_lat st @ [ms], fl_tasks := (fl_tasks st)[i := Counting]\<rparr>
        | Counting \<Rightarrow> st\<lparr>fl_counts := (fl_counts st)[i := fl_counts st ! i + 1], fl_tasks := (fl_tasks st)[i := Idle]\<rparr>
        | _ \<Rightarrow> st)"

fun flood_step :: "'ev flood_spec \<Rightarrow> flood \<Rightarrow> 'ev flood_act \<Rightarrow> flood" where
  "flood_step fs st (Applied r) = applied_step fs r st"
| "flood_step fs st (Applies_done now) =
     (if driver_finished fs now st \<and> fl_deadline st = None then st\<lparr>fl_deadline := Some (now + fs_drain fs)\<rparr> else st)"
| "flood_step fs st (Poll now) = poll_step fs now st"
| "flood_step fs st (Item i t item) = item_step fs i t item st"
| "flood_step fs st (Proceed i) = proceed_step i st"

text \<open>\<open>opened\<close> tells which subscribers have got a stream; the others end at once.\<close>

definition flood_new :: "nat \<Rightarrow> nat \<Rightarrow> bool list \<Rightarrow> flood" where
  "flood_new subscribers stamps opened =
     \<lparr>fl_driven = 0, fl_stamps = replicate stamps None, fl_ok = 0, fl_lat = [], fl_counts = replicate subscribers 0,
      fl_tasks = map (\<lambda>i. if i < length opened \<and> opened ! i then Idle else Gone) [0..<subscribers],
      fl_deadline = None, fl_over = False, fl_drained = False, fl_crashed = False\<rparr>"

definition flood_run :: "'ev flood_spec \<Rightarrow> 'ev flood_act list \<Rightarrow> flood \<Rightarrow> flood" where
  "flood_run fs steps st = foldl (flood_step fs) st steps"

definition missed_events :: "'ev flood_spec \<Rightarrow> flood \<Rightarrow> nat" where
  "missed_events fs st = expected_events fs st - received fs st"

section \<open>Verdicts\<close>

definition latency_metrics_of :: "stats \<Rightarrow> latency_metrics option" where
  "latency_metrics_of lat = (case (p50 lat, p95 lat, p99 lat) of
       (Some a, Some b, Some c) \<Rightarrow>
         Some \<lparr>lm_samples = length lat, lm_p50_ms = a, lm_p95_ms = b, lm_p99_ms = c, lm_max_ms = stats_max lat\<rparr>
     | _ \<Rightarrow> None)"

definition verdict_of :: "string \<Rightarrow> string list \<Rightarrow> scenario_result" where
  "verdict_of nm failures = (if failures = [] then scenario_pass nm else scenario_fail nm failures)"

definition p99_failure :: "nat \<Rightarrow> nat \<Rightarrow> string list" where
  "p99_failure v limit =
     (if limit \<le> v then [''p99 '' @ show_nat v @ '' ms >= gate '' @ show_nat limit @ '' ms''] else [])"

definition count_failure :: "nat \<Rightarrow> string \<Rightarrow> string list" where
  "count_failure n what = (if 0 < n then [show_nat n @ what] else [])"

definition no_samples_text :: string where
  "no_samples_text = ''no latency samples '' @ emdash @ '' did subscribers connect?''"

text \<open>The end of \<open>subscribe_flood\<close> and \<open>secrets_flood\<close>, once the drain loop is over.\<close>

definition flood_verdict :: "string \<Rightarrow> string \<Rightarrow> nat \<Rightarrow> 'ev flood_spec \<Rightarrow> flood \<Rightarrow> scenario_result option" where
  "flood_verdict nm what limit fs st =
     (if fl_crashed st \<or> \<not> fl_over st then None
      else if fl_lat st = [] then Some (scenario_fail nm [no_samples_text])
      else map_option (\<lambda>m. with_metrics
          (verdict_of nm (p99_failure (lm_p99_ms m) limit @ count_failure (missed_events fs st) what)) m)
        (latency_metrics_of (fl_lat st)))"

section \<open>Scenario 1: subscribe flood\<close>

definition S1_DRAIN_SECS :: nat where
  "S1_DRAIN_SECS = 30"

definition S1_P99_LIMIT_MS :: nat where
  "S1_P99_LIMIT_MS = 500"

definition secs :: "nat \<Rightarrow> nat" where
  "secs n = n * 1000000000"

definition payload_blob :: "usize \<Rightarrow> string" where
  "payload_blob bytes =
     (if bytes = 0 then [] else ''  blob: '' @ dq (replicate (unat bytes) CHR ''a'') @ line_feed)"

definition event_version :: "config_event \<Rightarrow> u32" where
  "event_version ev = (case ce_config ev of Some c \<Rightarrow> cm_schema_version c | None \<Rightarrow> 0)"

text \<open>What a scenario observes: the seeding read, which subscribers got a stream, the connection of the
  driver, the clock when it starts to write, and the steps of the run.\<close>

record 'ev observed =
  ob_seed :: "string + u32 rpc"
  ob_opened :: "bool list"
  ob_driver :: "string + unit"
  ob_now :: instant
  ob_steps :: "'ev flood_act list"

text \<open>The number of rounds of \<open>for seq in start..=end\<close> with \<open>end = start + applies - 1\<close>.\<close>

definition rounds_of :: "u32 \<Rightarrow> u32 \<Rightarrow> nat" where
  "rounds_of start_seq applies = length (seqs start_seq (start_seq + applies - 1))"

definition s1_spec :: "u32 \<Rightarrow> u32 \<Rightarrow> usize \<Rightarrow> config_event flood_spec" where
  "s1_spec start_seq applies subs =
     \<lparr>fs_version = event_version, fs_start = start_seq, fs_applies = Some (rounds_of start_seq applies), fs_until = 0,
      fs_stamped = True, fs_timed = True, fs_drain = secs S1_DRAIN_SECS, fs_watched = unat subs, fs_width = 32\<rparr>"

definition S1_SUSTAINED_DRAIN_SECS :: nat where
  "S1_SUSTAINED_DRAIN_SECS = 60"

definition sustained_spec :: "u32 \<Rightarrow> usize \<Rightarrow> instant \<Rightarrow> config_event flood_spec" where
  "sustained_spec start_seq subs end_at =
     \<lparr>fs_version = event_version, fs_start = start_seq, fs_applies = None, fs_until = end_at, fs_stamped = False,
      fs_timed = False, fs_drain = secs S1_SUSTAINED_DRAIN_SECS, fs_watched = unat subs, fs_width = 64\<rparr>"

definition sustained_verdict :: "string \<Rightarrow> 'ev flood_spec \<Rightarrow> flood \<Rightarrow> scenario_result option" where
  "sustained_verdict nm fs st =
     (if \<not> fl_over st then None
      else Some (verdict_of nm
        ((if fl_ok st = 0 then [''zero successful applies''] else []) @
         (if fl_drained st then []
          else [''drain timeout: '' @ show_nat (received fs st) @ ''/'' @ show_nat (expected_events fs st)]))))"

definition scenario_subscribe_flood_sustained ::
  "usize \<Rightarrow> u64 \<Rightarrow> config_event observed \<Rightarrow> scenario_result option" where
  "scenario_subscribe_flood_sustained subs duration_secs ob =
     (let nm = ''subscribe_flood_sustained'' in
      case seed_start_seq (ob_seed ob) of
        Inl e \<Rightarrow> Some (scenario_fail nm [e])
      | Inr start_seq \<Rightarrow>
          (case ob_driver ob of
             Inl e \<Rightarrow> Some (scenario_fail nm [''connect failed: '' @ e])
           | Inr u \<Rightarrow>
               (let fs = sustained_spec start_seq subs (ob_now ob + secs (unat duration_secs))
                in sustained_verdict nm fs (flood_run fs (ob_steps ob) (flood_new (unat subs) 0 (ob_opened ob))))))"

definition scenario_subscribe_flood ::
  "env_vars \<Rightarrow> u64 option \<Rightarrow> config_event observed \<Rightarrow> scenario_result option" where
  "scenario_subscribe_flood env duration_secs ob =
     (let subs = env_usize env ''S1_SUBSCRIBERS'' 100; applies = env_u32 env ''S1_APPLIES'' 200;
          limit = env_u128 env ''S1_P99_LIMIT_MS'' S1_P99_LIMIT_MS; nm = ''subscribe_flood''
      in case duration_secs of
           Some n \<Rightarrow> scenario_subscribe_flood_sustained subs n ob
         | None \<Rightarrow>
             (case seed_start_seq (ob_seed ob) of
                Inl e \<Rightarrow> Some (scenario_fail nm [e])
              | Inr start_seq \<Rightarrow>
                  (case ob_driver ob of
                     Inl e \<Rightarrow> Some (scenario_fail nm [''connect failed: '' @ e])
                   | Inr u \<Rightarrow>
                       (let fs = s1_spec start_seq applies subs
                        in flood_verdict nm '' missed events'' limit fs
                             (flood_run fs (ob_steps ob) (flood_new (unat subs) (unat applies) (ob_opened ob)))))))"

section \<open>Scenario 2: get flood\<close>

definition S2_TASKS :: nat where
  "S2_TASKS = 50"

definition S2_GETS_PER_TASK :: nat where
  "S2_GETS_PER_TASK = 100"

definition S2_P99_LIMIT_MS :: nat where
  "S2_P99_LIMIT_MS = 50"

text \<open>A task that cannot connect counts all its reads as errors; otherwise each read gives its latency in
  milliseconds or an error. The tasks push into one list, whose order the percentiles do not see.\<close>

definition s2_get_task :: "string + nat rpc list \<Rightarrow> stats \<times> nat" where
  "s2_get_task t = (case t of
       Inl e \<Rightarrow> ([], S2_GETS_PER_TASK)
     | Inr outcomes \<Rightarrow> (let gets = take S2_GETS_PER_TASK outcomes
         in (List.map_filter (case_sum (\<lambda>_. None) Some) gets, length (filter isl gets))))"

definition scenario_get_flood :: "(string + nat rpc list) list \<Rightarrow> scenario_result option" where
  "scenario_get_flood tasks =
     (let results = map s2_get_task (take S2_TASKS tasks); lat = concat (map fst results); errors = sum_list (map snd results);
          nm = ''get_flood''
      in if lat = [] then Some (scenario_fail nm [''no latency samples''])
         else map_option (\<lambda>m. with_metrics
             (verdict_of nm (count_failure errors '' RPC errors'' @ p99_failure (lm_p99_ms m) S2_P99_LIMIT_MS)) m)
           (latency_metrics_of lat))"

section \<open>Scenario 3: reconnect storm\<close>

definition S3_SUBSCRIBERS :: nat where
  "S3_SUBSCRIBERS = 50"

definition S3_WARM_APPLIES :: u32 where
  "S3_WARM_APPLIES = 5"

definition S3_POST_APPLIES :: u32 where
  "S3_POST_APPLIES = 10"

definition S3_DRAIN_SECS :: nat where
  "S3_DRAIN_SECS = 15"

definition S3_WARM_DRAIN_SECS :: nat where
  "S3_WARM_DRAIN_SECS = 1"

definition S3_WARM_RV_QUORUM :: nat where
  "S3_WARM_RV_QUORUM = S3_SUBSCRIBERS"

text \<open>The first wave: each subscriber records the last version it saw, and the driver polls until all
  have one or a second has passed.\<close>

datatype warm_act = Warm_item nat "config_event rpc" | Warm_poll instant

record warm =
  wm_rvs :: "string list"
  wm_live :: "bool list"
  wm_quorum :: "(bool \<times> nat) option"

definition warm_new :: "bool list \<Rightarrow> warm" where
  "warm_new opened = \<lparr>wm_rvs = replicate S3_SUBSCRIBERS [],
     wm_live = map (\<lambda>i. i < length opened \<and> opened ! i) [0..<S3_SUBSCRIBERS], wm_quorum = None\<rparr>"

definition s3_subscriber_phase1 :: "nat \<Rightarrow> config_event rpc \<Rightarrow> warm \<Rightarrow> warm" where
  "s3_subscriber_phase1 i item st =
     (if length (wm_live st) \<le> i \<or> \<not> wm_live st ! i then st
      else case item of
          Inl e \<Rightarrow> st\<lparr>wm_live := (wm_live st)[i := False]\<rparr>
        | Inr ev \<Rightarrow> (case ce_config ev of
              Some cfg \<Rightarrow> st\<lparr>wm_rvs := (wm_rvs st)[i := cm_resource_version cfg]\<rparr> | None \<Rightarrow> st))"

definition warm_poll :: "instant \<Rightarrow> instant \<Rightarrow> warm \<Rightarrow> warm" where
  "warm_poll deadline now st =
     (let populated = length (filter (\<lambda>rv. rv \<noteq> []) (wm_rvs st)) in
      if wm_quorum st \<noteq> None then st
      else if S3_WARM_RV_QUORUM \<le> populated then st\<lparr>wm_quorum := Some (True, populated)\<rparr>
      else if deadline \<le> now then st\<lparr>wm_quorum := Some (False, populated)\<rparr>
      else st)"

fun warm_step :: "instant \<Rightarrow> warm \<Rightarrow> warm_act \<Rightarrow> warm" where
  "warm_step deadline st (Warm_item i item) = s3_subscriber_phase1 i item st"
| "warm_step deadline st (Warm_poll now) = warm_poll deadline now st"

text \<open>\<open>max_by_key\<close>: the last of the largest.\<close>

definition rv_number :: "string \<Rightarrow> u64" where
  "rv_number rv = unwrap_or 0 (parse_u64 rv)"

definition known_rv :: "string list \<Rightarrow> string" where
  "known_rv rvs = unwrap_or [] (foldl (\<lambda>best rv. case best of
       None \<Rightarrow> Some rv | Some b \<Rightarrow> if rv_number b \<le> rv_number rv then Some rv else best)
     None (filter (\<lambda>rv. rv \<noteq> []) rvs))"

definition s3_spec :: "u32 \<Rightarrow> nat \<Rightarrow> config_event flood_spec" where
  "s3_spec post_start applies =
     \<lparr>fs_version = event_version, fs_start = post_start, fs_applies = Some applies, fs_until = 0, fs_stamped = True,
      fs_timed = False, fs_drain = secs S3_DRAIN_SECS, fs_watched = S3_SUBSCRIBERS, fs_width = 32\<rparr>"

definition quorum_text :: "nat \<Rightarrow> string" where
  "quorum_text populated =
     ''warm-event RV quorum missed: '' @ show_nat populated @ ''/'' @ show_nat S3_WARM_RV_QUORUM @
     '' subscribers reported a resource_version within '' @ show_nat S3_WARM_DRAIN_SECS @ ''s '' @ emdash @
     '' Subscribe should emit a synchronous snapshot on connect''"

record storm_observed =
  so_seed :: "string + u32 rpc"
  so_warm_opened :: "bool list"
  so_warm_now :: instant
  so_warm_steps :: "warm_act list"
  so_opened :: "bool list"
  so_connect :: "string + unit"
  so_steps :: "config_event flood_act list"

text \<open>The writes of the second wave run in a task of their own; when it cannot connect it panics, which is
  not looked at.\<close>

definition scenario_reconnect_storm :: "storm_observed \<Rightarrow> scenario_result option" where
  "scenario_reconnect_storm ob =
     (let nm = ''reconnect_storm'' in
      case seed_start_seq (so_seed ob) of
        Inl e \<Rightarrow> Some (scenario_fail nm [e])
      | Inr base_seq \<Rightarrow>
          (let warm_end = base_seq + S3_WARM_APPLIES - 1; post_start = warm_end + 1;
               wm = foldl (warm_step (so_warm_now ob + secs S3_WARM_DRAIN_SECS)) (warm_new (so_warm_opened ob)) (so_warm_steps ob);
               applies = (case so_connect ob of Inr u \<Rightarrow> rounds_of post_start S3_POST_APPLIES | Inl e \<Rightarrow> 0);
               fs = s3_spec post_start applies;
               st = flood_run fs (so_steps ob) (flood_new S3_SUBSCRIBERS (unat S3_POST_APPLIES) (so_opened ob))
           in case wm_quorum wm of
                None \<Rightarrow> None
              | Some (quorum_met, populated) \<Rightarrow>
                  if \<not> fl_over st then None
                  else Some (verdict_of nm ((if quorum_met then [] else [quorum_text populated]) @
                         count_failure (missed_events fs st) '' missed events post-reconnect''))))"

text \<open>What the subscribers of the second wave ask to resume from.\<close>

definition storm_resume_rv :: "storm_observed \<Rightarrow> string" where
  "storm_resume_rv ob = known_rv (wm_rvs
     (foldl (warm_step (so_warm_now ob + secs S3_WARM_DRAIN_SECS)) (warm_new (so_warm_opened ob)) (so_warm_steps ob)))"

section \<open>Scenario 4: secrets flood\<close>

definition S4_APPLIES :: u32 where
  "S4_APPLIES = 20"

definition S4_SUBSCRIBERS :: nat where
  "S4_SUBSCRIBERS = 50"

definition S4_DRAIN_SECS :: nat where
  "S4_DRAIN_SECS = 15"

definition S4_P99_LIMIT_MS :: nat where
  "S4_P99_LIMIT_MS = 500"

definition secret_event_version :: "secret_event \<Rightarrow> u32" where
  "secret_event_version ev = (case se_secret ev of Some s \<Rightarrow> sm_schema_version s | None \<Rightarrow> 0)"

definition secret_yaml :: "string \<Rightarrow> u32 \<Rightarrow> string" where
  "secret_yaml label v = ''schema_version: '' @ show_nat (unat v) @ line_feed @ ''token: '' @ label @ ''-secret-'' @
     show_nat (unat v) @ line_feed"

definition s4_spec :: "u32 \<Rightarrow> secret_event flood_spec" where
  "s4_spec start_seq =
     \<lparr>fs_version = secret_event_version, fs_start = start_seq, fs_applies = Some (rounds_of start_seq S4_APPLIES), fs_until = 0,
      fs_stamped = True, fs_timed = True, fs_drain = secs S4_DRAIN_SECS, fs_watched = S4_SUBSCRIBERS, fs_width = 32\<rparr>"

text \<open>The connection of the seeding read is the driver's.\<close>

definition scenario_secrets_flood :: "secret_event observed \<Rightarrow> scenario_result option" where
  "scenario_secrets_flood ob =
     (let nm = ''secrets_flood'' in
      case seed_start_seq (ob_seed ob) of
        Inl e \<Rightarrow> Some (scenario_fail nm [e])
      | Inr start_seq \<Rightarrow>
          (let fs = s4_spec start_seq
           in flood_verdict nm '' missed secret events'' S4_P99_LIMIT_MS fs
                (flood_run fs (ob_steps ob) (flood_new S4_SUBSCRIBERS (unat S4_APPLIES) (ob_opened ob)))))"

section \<open>Scenario 5: backpressure\<close>

definition S5_NORMAL_SUBS :: nat where
  "S5_NORMAL_SUBS = 50"

definition S5_SLOW_SUBS :: nat where
  "S5_SLOW_SUBS = 5"

definition S5_DRAIN_SECS :: nat where
  "S5_DRAIN_SECS = 60"

text \<open>The slow subscribers are the last five tasks; they sleep after each event, and only the others are
  waited for.\<close>

definition s5_spec :: "u32 \<Rightarrow> u32 \<Rightarrow> config_event flood_spec" where
  "s5_spec start_seq applies =
     \<lparr>fs_version = event_version, fs_start = start_seq, fs_applies = Some (rounds_of start_seq applies), fs_until = 0,
      fs_stamped = False, fs_timed = False, fs_drain = secs S5_DRAIN_SECS, fs_watched = S5_NORMAL_SUBS, fs_width = 32\<rparr>"

definition scenario_backpressure :: "env_vars \<Rightarrow> config_event observed \<Rightarrow> scenario_result option" where
  "scenario_backpressure env ob =
     (let applies = env_u32 env ''S1_APPLIES'' 200; nm = ''backpressure'' in
      case seed_start_seq (ob_seed ob) of
        Inl e \<Rightarrow> Some (scenario_fail nm [e])
      | Inr start_seq \<Rightarrow>
          (case ob_driver ob of
             Inl e \<Rightarrow> Some (scenario_fail nm [''connect failed: '' @ e])
           | Inr u \<Rightarrow>
               (let fs = s5_spec start_seq applies;
                    st = flood_run fs (ob_steps ob) (flood_new (S5_NORMAL_SUBS + S5_SLOW_SUBS) 0 (ob_opened ob))
                in if \<not> fl_over st then None
                   else Some (verdict_of nm ((if fl_ok st = 0 then [''zero successful applies''] else []) @
                          count_failure (missed_events fs st) '' missed events on normal subscribers'')))))"

text \<open>The poller of the replay-buffer gauge.\<close>

definition strip_prefix :: "string \<Rightarrow> string \<Rightarrow> string option" where
  "strip_prefix p s = (if take (length p) s = p then Some (drop (length p) s) else None)"

definition derive_metrics_url :: "string \<Rightarrow> string option" where
  "derive_metrics_url grpc_addr =
     (let rest = unwrap_or (unwrap_or grpc_addr (strip_prefix ''https://'' grpc_addr)) (strip_prefix ''http://'' grpc_addr);
          host = takeWhile (\<lambda>c. c \<noteq> CHR '':'' \<and> c \<noteq> CHR ''/'') rest
      in if host = [] then None else Some (''http://'' @ host @ '':9090/metrics''))"

definition strip_cr :: "string \<Rightarrow> string" where
  "strip_cr l = (if l \<noteq> [] \<and> last l = CHR 0x0D then butlast l else l)"

text \<open>\<open>str::lines\<close>: a final line break ends the last line.\<close>

definition str_lines :: "string \<Rightarrow> string list" where
  "str_lines s = (let ls = split_on (CHR 0x0A) s in map strip_cr (if last ls = [] then butlast ls else ls))"

fun as_u64 :: "f64 \<Rightarrow> nat" where
  "as_u64 NaN = 0"
| "as_u64 (Inf s) = (if s then 0 else 2 ^ 64 - 1)"
| "as_u64 (Fin s m) = (if s then 0 else min (nat \<lfloor>m\<rfloor>) (2 ^ 64 - 1))"

definition depth_needle :: "string \<Rightarrow> string" where
  "depth_needle ns = ''konfig_replay_buffer_depth{namespace='' @ dq ns @ ''}''"

text \<open>The gauge in the text of the response; \<open>None\<close> is an error.\<close>

fun find_depth :: "string \<Rightarrow> string list \<Rightarrow> nat option" where
  "find_depth needle [] = None"
| "find_depth needle (l # ls) = (case strip_prefix needle l of
       Some rest \<Rightarrow> map_option (as_u64 \<circ> f64_of_bits) (parse_f64_bits (trim rest))
     | None \<Rightarrow> find_depth needle ls)"

definition fetch_replay_buffer_depth :: "string \<Rightarrow> string \<Rightarrow> nat option" where
  "fetch_replay_buffer_depth body ns = (if utf8_valid body then find_depth (depth_needle ns) (str_lines body) else None)"

definition poller_tick :: "nat \<times> nat \<times> nat \<Rightarrow> nat option \<Rightarrow> nat \<times> nat \<times> nat" where
  "poller_tick acc r = (case (acc, r) of
       ((high_water, samples, errors), Some depth) \<Rightarrow> (max high_water depth, samples + 1, errors)
     | ((high_water, samples, errors), None) \<Rightarrow> (high_water, samples, errors + 1))"

definition spawn_replay_buffer_poller :: "string option \<Rightarrow> nat option list \<Rightarrow> nat \<times> nat \<times> nat" where
  "spawn_replay_buffer_poller url ticks = (case url of None \<Rightarrow> (0, 0, 0) | Some u \<Rightarrow> foldl poller_tick (0, 0, 0) ticks)"

section \<open>Soak\<close>

definition DEFAULT_DURATION_SECS :: u64 where
  "DEFAULT_DURATION_SECS = 600"

definition seed_config :: "string + u32 rpc \<Rightarrow> u32" where
  "seed_config seed = (case seed of Inl e \<Rightarrow> 1 | Inr r \<Rightarrow> next_version r)"

definition seed_secret :: "string + u32 rpc \<Rightarrow> u32" where
  "seed_secret seed = (case seed of Inl e \<Rightarrow> 1 | Inr r \<Rightarrow> next_version r)"

text \<open>A write loop until the deadline: \<open>now\<close> is the clock at the head of each round and \<open>call\<close> the request;
  the result counts the successes and lists the texts sent.\<close>

fun soak_loop ::
  "(u32 \<Rightarrow> string) \<Rightarrow> (string \<Rightarrow> 'w \<Rightarrow> 'a rpc \<times> 'w) \<Rightarrow> instant \<Rightarrow> instant list \<Rightarrow> u32 \<Rightarrow> 'w \<Rightarrow> nat \<times> string list \<times> 'w" where
  "soak_loop yaml call deadline [] v w = (0, [], w)"
| "soak_loop yaml call deadline (now # clock) v w =
     (if deadline \<le> now then (0, [], w)
      else case call (yaml v) w of (r, w') \<Rightarrow>
        (case soak_loop yaml call deadline clock (v + 1) w' of (n, sent, w'') \<Rightarrow>
           ((case r of Inr a \<Rightarrow> n + 1 | Inl e \<Rightarrow> n), yaml v # sent, w'')))"

definition apply_config_loop ::
  "string + unit \<Rightarrow> (string \<Rightarrow> 'w \<Rightarrow> 'a rpc \<times> 'w) \<Rightarrow> instant \<Rightarrow> instant list \<Rightarrow> u32 \<Rightarrow> 'w \<Rightarrow> nat \<times> string list \<times> 'w" where
  "apply_config_loop conn call deadline clock v w = (case conn of
       Inl e \<Rightarrow> (0, [], w) | Inr u \<Rightarrow> soak_loop (config_yaml ''soak'') call deadline clock v w)"

definition apply_secret_loop ::
  "string + unit \<Rightarrow> (string \<Rightarrow> 'w \<Rightarrow> 'a rpc \<times> 'w) \<Rightarrow> instant \<Rightarrow> instant list \<Rightarrow> u32 \<Rightarrow> 'w \<Rightarrow> nat \<times> string list \<times> 'w" where
  "apply_secret_loop conn call deadline clock v w = (case conn of
       Inl e \<Rightarrow> (0, [], w) | Inr u \<Rightarrow> soak_loop (secret_yaml ''soak'') call deadline clock v w)"

text \<open>A subscriber counts items up to the first error; \<open>Inl\<close> is a stream that could not be opened.\<close>

definition sub_config :: "string + config_event rpc list \<Rightarrow> nat" where
  "sub_config s = (case s of Inl e \<Rightarrow> 0 | Inr items \<Rightarrow> length (takeWhile (\<lambda>r. \<not> isl r) items))"

definition sub_secret :: "string + secret_event rpc list \<Rightarrow> nat" where
  "sub_secret s = (case s of Inl e \<Rightarrow> 0 | Inr items \<Rightarrow> length (takeWhile (\<lambda>r. \<not> isl r) items))"

text \<open>Reconnects: one cycle for each stream opened before the deadline.\<close>

fun reconnect_churn :: "instant \<Rightarrow> (instant \<times> bool) list \<Rightarrow> nat" where
  "reconnect_churn deadline [] = 0"
| "reconnect_churn deadline ((now, opened) # rounds) =
     (if deadline \<le> now then 0 else (if opened then 1 else 0) + reconnect_churn deadline rounds)"

text \<open>What the soak run observes: its start, the seeding reads, the connections of the two write loops with
  the clock at the head of their rounds, the streams, and the rounds of each reconnecting task.\<close>

record soak_observed =
  sk_now :: instant
  sk_config_seed :: "string + u32 rpc"
  sk_secret_seed :: "string + u32 rpc"
  sk_config_conn :: "string + unit"
  sk_secret_conn :: "string + unit"
  sk_config_clock :: "instant list"
  sk_secret_clock :: "instant list"
  sk_config_streams :: "(string + config_event rpc list) list"
  sk_secret_streams :: "(string + secret_event rpc list) list"
  sk_reconnects :: "(instant \<times> bool) list list"

definition soak_failures :: "nat \<Rightarrow> nat \<Rightarrow> nat \<Rightarrow> nat \<Rightarrow> string list" where
  "soak_failures cfg_ap sec_ap cfg_ev sec_ev =
     (if cfg_ap = 0 then [''zero successful config applies''] else []) @
     (if sec_ap = 0 then [''zero successful secret applies''] else []) @
     (if cfg_ev = 0 then [''config subscribers received zero events''] else []) @
     (if sec_ev = 0 then [''secret subscribers received zero events''] else [])"

text \<open>The two loops run concurrently, each over what its own calls return; the reconnect cycles are only
  reported. The result also has the texts sent.\<close>

definition scenario_soak ::
  "env_vars \<Rightarrow> u64 option \<Rightarrow> (string \<Rightarrow> 'c \<Rightarrow> 'a rpc \<times> 'c) \<Rightarrow> (string \<Rightarrow> 's \<Rightarrow> 'b rpc \<times> 's) \<Rightarrow> soak_observed \<Rightarrow> 'c \<Rightarrow> 's \<Rightarrow>
   scenario_result \<times> nat \<times> string list \<times> string list" where
  "scenario_soak env duration_secs apply_call secret_call ob c s =
     (let deadline = sk_now ob + secs (unat (unwrap_or DEFAULT_DURATION_SECS duration_secs));
          config_subs = unat (env_usize env ''SOAK_CONFIG_SUBS'' 50);
          secret_subs = unat (env_usize env ''SOAK_SECRET_SUBS'' 25);
          reconnect_subs = unat (env_usize env ''SOAK_RECONNECT_SUBS'' 10);
          cfg_ev = sum_list (map sub_config (take config_subs (sk_config_streams ob)));
          sec_ev = sum_list (map sub_secret (take secret_subs (sk_secret_streams ob)));
          recon = sum_list (map (reconnect_churn deadline) (take reconnect_subs (sk_reconnects ob)))
      in case apply_config_loop (sk_config_conn ob) apply_call deadline (sk_config_clock ob) (seed_config (sk_config_seed ob)) c of
           (cfg_ap, cfg_sent, c') \<Rightarrow>
             (case apply_secret_loop (sk_secret_conn ob) secret_call deadline (sk_secret_clock ob)
                  (seed_secret (sk_secret_seed ob)) s of
                (sec_ap, sec_sent, s') \<Rightarrow>
                  (verdict_of ''soak'' (soak_failures cfg_ap sec_ap cfg_ev sec_ev), recon, cfg_sent, sec_sent)))"

section \<open>Main\<close>

text \<open>The results of the scenarios; \<open>None\<close> is a scenario that has not returned.\<close>

record load_runs =
  rn_subscribe :: "scenario_result option"
  rn_get :: "scenario_result option"
  rn_reconnect :: "scenario_result option"
  rn_secrets :: "scenario_result option"
  rn_backpressure :: "scenario_result option"
  rn_soak :: "scenario_result option"

definition load_results :: "load_args \<Rightarrow> load_runs \<Rightarrow> scenario_result list option" where
  "load_results a rn =
     (let scenario = la_scenario a; run_all = (scenario = ''all'') in those
       ((if run_all \<or> scenario = ''subscribe'' then [rn_subscribe rn] else []) @
        (if run_all \<or> scenario = ''get'' then [rn_get rn] else []) @
        (if run_all \<or> scenario = ''reconnect'' then [rn_reconnect rn] else []) @
        (if run_all \<or> scenario = ''secrets'' then [rn_secrets rn] else []) @
        (if scenario = ''backpressure'' then [rn_backpressure rn] else []) @
        (if scenario = ''soak'' then [rn_soak rn] else [])))"

definition any_fail :: "scenario_result list \<Rightarrow> bool" where
  "any_fail rs = list_ex (\<lambda>r. \<not> sr_pass r) rs"

text \<open>The exit code, and the outcome of writing the results if they are asked for, which does not
  change it.\<close>

definition load_main :: "tool_env \<Rightarrow> env_vars \<Rightarrow> load_args \<Rightarrow> load_runs \<Rightarrow> (nat \<times> (string + unit) option) option" where
  "load_main te env a rn = map_option (\<lambda>rs.
     (if any_fail rs then 1 else 0,
      map_option (\<lambda>path. write_results_json te path rs (any_fail rs))
        (case la_results_json a of Some p \<Rightarrow> Some p | None \<Rightarrow> env ''KONFIG_LOADTEST_RESULTS_JSON'')))
     (load_results a rn)"

section \<open>What the counters count\<close>

text \<open>The events that reach a subscriber and are late enough to be counted.\<close>

definition delivery :: "'ev flood_spec \<Rightarrow> nat \<Rightarrow> 'ev flood_act \<Rightarrow> bool" where
  "delivery fs i a = (case a of Item j t (Inr ev) \<Rightarrow> j = i \<and> fs_start fs \<le> fs_version fs ev | _ \<Rightarrow> False)"

definition deliveries :: "'ev flood_spec \<Rightarrow> 'ev flood_act list \<Rightarrow> nat \<Rightarrow> nat" where
  "deliveries fs steps i = length (filter (delivery fs i) steps)"

text \<open>An event that a task has taken and not yet counted.\<close>

fun in_hand :: "task \<Rightarrow> nat" where
  "in_hand (Looking idx r) = 1"
| "in_hand (Pushing ms) = 1"
| "in_hand Counting = 1"
| "in_hand _ = 0"

definition flood_wf :: "flood \<Rightarrow> bool" where
  "flood_wf st \<longleftrightarrow> length (fl_tasks st) = length (fl_counts st)"

lemma flood_step_wf: "flood_wf st \<Longrightarrow> flood_wf (flood_step fs st a)"
  by (cases a)
    (auto simp: flood_wf_def applied_step_def poll_step_def item_step_def proceed_step_def
      split: sum.splits option.splits task.splits)

lemma flood_run_Nil [simp]: "flood_run fs [] st = st"
  by (simp add: flood_run_def)

lemma flood_run_snoc [simp]: "flood_run fs (as @ [a]) st = flood_step fs (flood_run fs as st) a"
  by (simp add: flood_run_def)

interpretation flood_shape: traced_machine "flood_step fs" "\<lambda>_. flood_wf" for fs
  by unfold_locales (rule flood_step_wf)

lemma flood_run_wf: "flood_wf st \<Longrightarrow> flood_wf (flood_run fs as st)"
  unfolding flood_run_def by (rule flood_shape.run_keeps)

lemma flood_step_length: "length (fl_counts (flood_step fs st a)) = length (fl_counts st)"
  by (cases a)
    (auto simp: applied_step_def poll_step_def item_step_def proceed_step_def
      split: sum.splits option.splits task.splits)

lemma flood_run_length: "length (fl_counts (flood_run fs as st)) = length (fl_counts st)"
  by (induction as rule: rev_induct) (simp_all add: flood_step_length)

text \<open>A step adds at most one to what a task has counted or has in hand, and only for a delivery.\<close>

lemma flood_step_counts:
  assumes "flood_wf st" "i < length (fl_counts st)"
  shows "fl_counts (flood_step fs st a) ! i + in_hand (fl_tasks (flood_step fs st a) ! i) \<le>
    fl_counts st ! i + in_hand (fl_tasks st ! i) + (if delivery fs i a then 1 else 0)"
proof (cases a)
  case (Item j t item)
  then show ?thesis
    using assms by (cases item; cases "j = i") (auto simp: item_step_def delivery_def flood_wf_def not_less)
next
  case (Proceed j)
  then show ?thesis
    using assms
    by (cases "j = i"; cases "fl_tasks st ! j")
      (auto simp: proceed_step_def delivery_def flood_wf_def split: option.splits)
qed (auto simp: applied_step_def poll_step_def delivery_def split: sum.splits option.splits)

lemma flood_run_counts:
  assumes "flood_wf st" "i < length (fl_counts st)"
  shows "fl_counts (flood_run fs as st) ! i + in_hand (fl_tasks (flood_run fs as st) ! i) \<le>
    fl_counts st ! i + in_hand (fl_tasks st ! i) + deliveries fs as i"
proof (induction as rule: rev_induct)
  case Nil
  then show ?case by (simp add: deliveries_def)
next
  case (snoc a as)
  have "i < length (fl_counts (flood_run fs as st))"
    using assms(2) by (simp add: flood_run_length)
  with flood_step_counts [OF flood_run_wf [OF assms(1)] this, where fs = fs and a = a] snoc
  show ?case by (auto simp: deliveries_def)
qed

section \<open>Lags are lags of delivered events\<close>

text \<open>A number of milliseconds between the return of a write and the arrival of the event of its version.\<close>

definition genuine_lag :: "'ev flood_spec \<Rightarrow> 'ev flood_act list \<Rightarrow> flood \<Rightarrow> nat \<Rightarrow> bool" where
  "genuine_lag fs as st ms \<longleftrightarrow> (\<exists>i r ev t. Item i r (Inr ev) \<in> set as \<and> fs_start fs \<le> fs_version fs ev \<and>
     stamp_at (unat (fs_version fs ev - fs_start fs)) (fl_stamps st) = Some t \<and> ms = (r - t) div 1000000)"

fun task_traced :: "'ev flood_spec \<Rightarrow> 'ev flood_act list \<Rightarrow> flood \<Rightarrow> task \<Rightarrow> bool" where
  "task_traced fs as st (Looking idx r) = (\<exists>i ev. Item i r (Inr ev) \<in> set as \<and> fs_start fs \<le> fs_version fs ev \<and>
     idx = unat (fs_version fs ev - fs_start fs))"
| "task_traced fs as st (Pushing ms) = genuine_lag fs as st ms"
| "task_traced fs as st _ = True"

definition traced :: "'ev flood_spec \<Rightarrow> 'ev flood_act list \<Rightarrow> flood \<Rightarrow> bool" where
  "traced fs as st \<longleftrightarrow> (\<forall>k \<ge> fl_driven st. stamp_at k (fl_stamps st) = None) \<and>
     (\<forall>ms \<in> set (fl_lat st). genuine_lag fs as st ms) \<and> (\<forall>t \<in> set (fl_tasks st). task_traced fs as st t)"

lemma stamps_grow:
  assumes "traced fs as st" "stamp_at k (fl_stamps st) = Some t"
  shows "stamp_at k (fl_stamps (flood_step fs st a)) = Some t"
proof -
  have "k < fl_driven st"
    using assms by (metis leI option.distinct(1) traced_def)
  with assms(2) show ?thesis
    by (cases a)
      (auto simp: applied_step_def poll_step_def item_step_def proceed_step_def stamp_at_def
        split: sum.splits option.splits task.splits if_splits)
qed

lemma genuine_lag_mono:
  assumes "traced fs as st" "genuine_lag fs as st ms"
  shows "genuine_lag fs (as @ [a]) (flood_step fs st a) ms"
  using assms(2) stamps_grow [OF assms(1)] unfolding genuine_lag_def by fastforce

lemma task_traced_mono:
  assumes "traced fs as st" "task_traced fs as st t"
  shows "task_traced fs (as @ [a]) (flood_step fs st a) t"
  using assms(2) genuine_lag_mono [OF assms(1)] by (cases t) auto

lemma set_update_subset: "x \<in> set (xs[i := y]) \<Longrightarrow> x \<in> set xs \<or> x = y"
  using set_update_subset_insert [of xs i y] by blast

lemma driven_stamps:
  assumes "\<forall>k \<ge> fl_driven st. stamp_at k (fl_stamps st) = None" "fl_driven (flood_step fs st a) \<le> k"
  shows "stamp_at k (fl_stamps (flood_step fs st a)) = None"
  using assms
  by (cases a)
    (auto simp: applied_step_def poll_step_def item_step_def proceed_step_def stamp_at_def
      split: sum.splits option.splits task.splits if_splits)

text \<open>The tasks and the lags a step leaves are old ones or made by it.\<close>

lemma step_tasks:
  assumes "traced fs as st" "t \<in> set (fl_tasks (flood_step fs st a))"
  shows "task_traced fs (as @ [a]) (flood_step fs st a) t"
proof (cases "t \<in> set (fl_tasks st)")
  case True
  then show ?thesis
    using assms(1) task_traced_mono [OF assms(1)] by (simp add: traced_def)
next
  case False
  show ?thesis
  proof (cases a)
    case (Item i r item)
    with False assms(2) show ?thesis
      by (fastforce simp: item_step_def not_less split: sum.splits if_splits dest!: set_update_subset)
  next
    case (Proceed i)
    with False assms(2) have i: "i < length (fl_tasks st)"
      by (auto simp: proceed_step_def split: if_splits)
    then have old: "task_traced fs as st (fl_tasks st ! i)"
      using assms(1) by (simp add: traced_def)
    show ?thesis
    proof (cases "fl_tasks st ! i")
      case (Looking idx r)
      with old i False assms(2) Proceed show ?thesis
        by (fastforce simp: proceed_step_def genuine_lag_def split: option.splits dest!: set_update_subset)
    qed (use i False assms(2) Proceed in \<open>auto simp: proceed_step_def dest!: set_update_subset\<close>)
  qed (use False assms(2) in \<open>auto simp: applied_step_def poll_step_def split: sum.splits option.splits if_splits\<close>)
qed

lemma step_lags:
  assumes "traced fs as st" "ms \<in> set (fl_lat (flood_step fs st a))"
  shows "genuine_lag fs (as @ [a]) (flood_step fs st a) ms"
proof -
  have "genuine_lag fs as st ms"
  proof (cases "ms \<in> set (fl_lat st)")
    case True
    with assms(1) show ?thesis by (simp add: traced_def)
  next
    case False
    with assms(2) obtain i where "i < length (fl_tasks st)" "fl_tasks st ! i = Pushing ms"
      by (cases a)
        (auto simp: applied_step_def poll_step_def item_step_def proceed_step_def not_le
          split: sum.splits option.splits task.splits if_splits)
    with assms(1) show ?thesis
      by (metis nth_mem task_traced.simps(2) traced_def)
  qed
  then show ?thesis by (rule genuine_lag_mono [OF assms(1)])
qed

lemma traced_step: "traced fs as st \<Longrightarrow> traced fs (as @ [a]) (flood_step fs st a)"
  using step_lags step_tasks driven_stamps [of st] unfolding traced_def by blast

interpretation flood_trace: traced_machine "flood_step fs" "traced fs" for fs
  by unfold_locales (rule traced_step)

lemma traced_run: "traced fs [] st \<Longrightarrow> traced fs as (flood_run fs as st)"
  unfolding flood_run_def by (rule flood_trace.run_keeps)

lemma traced_new: "traced fs [] (flood_new subs stamps opened)"
  by (auto simp: traced_def flood_new_def stamp_at_def)

text \<open>Writes that succeeded are the stamped ones.\<close>

definition stamped :: "flood \<Rightarrow> nat" where
  "stamped st = length (filter (\<lambda>t. t \<noteq> None) (fl_stamps st))"

lemma filter_update_new:
  assumes "i < length xs" "\<not> P (xs ! i)" "P y"
  shows "length (filter P (xs[i := y])) = Suc (length (filter P xs))"
proof -
  have "filter P xs = filter P (take i xs) @ filter P (drop (Suc i) xs)"
    using assms(2) id_take_nth_drop [OF assms(1)] by (metis filter.simps(2) filter_append)
  with assms show ?thesis by (simp add: upd_conv_take_nth_drop)
qed

lemma ok_stamped_step:
  assumes "traced fs as st" "fs_stamped fs" "fl_ok st = stamped st"
  shows "fl_ok (flood_step fs st a) = stamped (flood_step fs st a)"
proof (cases a)
  case (Applied r)
  have "stamp_at (fl_driven st) (fl_stamps st) = None"
    using assms(1) by (simp add: traced_def)
  then have "length (filter (\<lambda>t. t \<noteq> None) ((fl_stamps st)[fl_driven st := Some now])) =
      Suc (stamped st)" if "fl_driven st < length (fl_stamps st)" for now
    using filter_update_new [OF that, of "\<lambda>t. t \<noteq> None" "Some now"] that by (simp add: stamp_at_def stamped_def)
  with Applied assms(2,3) show ?thesis
    by (auto simp: applied_step_def stamped_def not_le split: sum.splits)
qed (use assms(3) in \<open>auto simp: poll_step_def item_step_def proceed_step_def stamped_def
    split: sum.splits option.splits task.splits\<close>)

lemma ok_stamped_run:
  assumes "fs_stamped fs"
  shows "fl_ok (flood_run fs as (flood_new subs n opened)) = stamped (flood_run fs as (flood_new subs n opened))"
proof (induction as rule: rev_induct)
  case Nil
  then show ?case by (simp add: flood_new_def stamped_def)
next
  case (snoc a as)
  then show ?case
    using ok_stamped_step [OF traced_run [OF traced_new] assms] by simp
qed

lemma stamps_length: "length (fl_stamps (flood_run fs as st)) = length (fl_stamps st)"
proof (induction as rule: rev_induct)
  case (snoc a as)
  then show ?case
    by (cases a)
      (auto simp: applied_step_def poll_step_def item_step_def proceed_step_def
        split: sum.splits option.splits task.splits)
qed simp

lemma stamped_le: "stamped (flood_run fs as (flood_new subs n opened)) \<le> n"
proof -
  have "length (fl_stamps (flood_run fs as (flood_new subs n opened))) = n"
    by (simp add: stamps_length) (simp add: flood_new_def)
  then show ?thesis
    unfolding stamped_def by (metis length_filter_le)
qed

lemma new_counts:
  assumes "i < subs"
  shows "fl_counts (flood_run fs as (flood_new subs n opened)) ! i \<le> deliveries fs as i"
proof -
  have "in_hand (fl_tasks (flood_new subs n opened) ! i) = 0" "fl_counts (flood_new subs n opened) ! i = 0"
      "flood_wf (flood_new subs n opened)" "i < length (fl_counts (flood_new subs n opened))"
    using assms by (simp_all add: flood_new_def flood_wf_def)
  with flood_run_counts [of "flood_new subs n opened" i fs as] show ?thesis by simp
qed

lemma deliveries_total: "(\<Sum>i<n. deliveries fs as i) \<le> length as"
proof (induction as rule: rev_induct)
  case (snoc a as)
  have "(\<Sum>i<n. if delivery fs i a then 1 else 0) \<le> (1 :: nat)"
  proof (cases a)
    case (Item j t item)
    then show ?thesis
      by (cases item) (auto simp: delivery_def sum.If_cases intro: le_trans [OF card_mono [of "{j}"]])
  qed (simp_all add: delivery_def)
  moreover have "(\<Sum>i<n. deliveries fs (as @ [a]) i) = (\<Sum>i<n. deliveries fs as i) + (\<Sum>i<n. if delivery fs i a then 1 else 0)"
    by (simp add: deliveries_def flip: sum.distrib) (auto intro!: sum.cong)
  ultimately show ?case using snoc by simp
qed (simp add: deliveries_def)

lemma new_counts_total: "sum_list (fl_counts (flood_run fs as (flood_new subs n opened))) \<le> length as"
proof -
  let ?c = "fl_counts (flood_run fs as (flood_new subs n opened))"
  have "length ?c = subs"
    by (simp add: flood_run_length) (simp add: flood_new_def)
  then have "sum_list ?c = sum ((!) ?c) {..<subs}"
    by (simp add: sum_list_sum_nth atLeast0LessThan)
  also have "\<dots> \<le> sum (deliveries fs as) {..<subs}"
    by (rule sum_mono) (simp add: new_counts)
  finally show ?thesis using deliveries_total le_trans by blast
qed

lemma lags_total: "length (fl_lat (flood_run fs as (flood_new subs n opened))) \<le> length as"
proof (induction as rule: rev_induct)
  case (snoc a as)
  then show ?case
    by (cases a)
      (auto simp: applied_step_def poll_step_def item_step_def proceed_step_def
        split: sum.splits option.splits task.splits)
qed (simp add: flood_new_def)

section \<open>Verdicts\<close>

lemma verdict_of_pass [simp]: "sr_pass (verdict_of nm fs) = (fs = [])"
  by (simp add: verdict_of_def scenario_pass_def scenario_fail_def)

lemma with_metrics_simps [simp]:
  "sr_pass (with_metrics r m) = sr_pass r" "sr_metrics (with_metrics r m) = Some m" "sr_failures (with_metrics r m) = sr_failures r"
  by (simp_all add: with_metrics_def)

lemma failures_empty [simp]:
  "p99_failure v limit = [] \<longleftrightarrow> v < limit" "count_failure n what = [] \<longleftrightarrow> n = 0"
  by (auto simp: p99_failure_def count_failure_def)

lemma flood_verdict_pass:
  assumes "flood_verdict nm what limit fs st = Some r" "length (fl_lat st) < 2 ^ 45"
  shows "sr_pass r \<longleftrightarrow> (\<exists>v. p99 (fl_lat st) = Some v \<and> v < limit) \<and> missed_events fs st = 0"
proof (cases "fl_lat st = []")
  case True
  with assms(1) show ?thesis
    by (auto simp: flood_verdict_def scenario_fail_def p99_def at_index_def split: if_splits)
next
  case False
  with percentiles_ordered [OF _ assms(2)] obtain a b c where "p50 (fl_lat st) = Some a" "p95 (fl_lat st) = Some b"
      "p99 (fl_lat st) = Some c"
    by blast
  with False assms(1) show ?thesis
    by (auto simp: flood_verdict_def latency_metrics_of_def split: if_splits)
qed


section \<open>A run that passes\<close>

definition small_env :: env_vars where
  "small_env key = (if key = ''S1_SUBSCRIBERS'' then Some ''2'' else if key = ''S1_APPLIES'' then Some ''1'' else None)"

definition load_event :: "u32 \<Rightarrow> config_event" where
  "load_event v = \<lparr>ce_type = Modified, ce_config = Some \<lparr>cm_namespace = ''ns'', cm_name = ''a'', cm_schema_version = v,
     cm_content_json = ''null'', cm_resource_version = ''7'', cm_age_ms = 0, cm_stale_since_ms = 0\<rparr>\<rparr>"

definition small_run :: "nat \<Rightarrow> config_event observed" where
  "small_run second = \<lparr>ob_seed = Inr (Inr 3), ob_opened = [True, True], ob_driver = Inr (), ob_now = 0,
     ob_steps = [Applied (Inr 1000000), Applies_done 1000000, Item 0 5000000 (Inr (load_event 4)), Proceed 0, Proceed 0, Proceed 0,
       Item second 6000000 (Inr (load_event 4)), Proceed second, Proceed second, Proceed second, Poll 9000000]\<rparr>"

lemma small_env_simps:
  "env_usize small_env ''S1_SUBSCRIBERS'' 100 = 2" "env_u32 small_env ''S1_APPLIES'' 200 = 1"
  "env_u128 small_env ''S1_P99_LIMIT_MS'' n = n"
  by (simp_all add: env_usize_def env_u32_def env_u128_def small_env_def parse_u32_def parse_u64_def parse_uint_def
      is_digit_def digits_val_def digit_val_def unwrap_or_def)

lemma s1_small_spec [simp]:
  "fs_version (s1_spec v n subs) = event_version" "fs_start (s1_spec v n subs) = v" "fs_stamped (s1_spec v n subs)"
  "fs_applies (s1_spec v n subs) = Some (rounds_of v n)" "fs_timed (s1_spec v n subs)"
  "fs_watched (s1_spec v n subs) = unat subs" "fs_width (s1_spec v n subs) = 32"
  by (simp_all add: s1_spec_def)

lemma rounds_small: "rounds_of 4 1 = Suc 0"
  by (simp add: rounds_of_def seqs_def)

lemma load_event_version [simp]: "event_version (load_event v) = v"
  by (simp add: event_version_def load_event_def)

lemma flood_run_Cons: "flood_run fs (a # as) st = flood_run fs as (flood_step fs st a)"
  by (simp add: flood_run_def)

lemmas flood_step_simps = applied_step_def poll_step_def item_step_def proceed_step_def driver_finished_def
  received_def expected_events_def stamp_at_def rounds_small

lemma small_start: "flood_new 2 (Suc 0) [True, True] =
    \<lparr>fl_driven = 0, fl_stamps = [None], fl_ok = 0, fl_lat = [], fl_counts = [0, 0], fl_tasks = [Idle, Idle],
     fl_deadline = None, fl_over = False, fl_drained = False, fl_crashed = False\<rparr>"
  by (simp add: flood_new_def numeral_2_eq_2)

lemma small_run_state:
  "\<exists>dl. flood_run (s1_spec 4 1 2) (ob_steps (small_run 0)) (flood_new 2 1 [True, True]) =
    \<lparr>fl_driven = 1, fl_stamps = [Some 1000000], fl_ok = 1, fl_lat = [4, 5],
     fl_counts = [2, 0], fl_tasks = [Idle, Idle], fl_deadline = dl,
     fl_over = True, fl_drained = True, fl_crashed = False\<rparr>"
  "\<exists>dl. flood_run (s1_spec 4 1 2) (ob_steps (small_run 1)) (flood_new 2 1 [True, True]) =
    \<lparr>fl_driven = 1, fl_stamps = [Some 1000000], fl_ok = 1, fl_lat = [4, 5],
     fl_counts = [1, 1], fl_tasks = [Idle, Idle], fl_deadline = dl,
     fl_over = True, fl_drained = True, fl_crashed = False\<rparr>"
  by (simp_all add: small_start small_run_def flood_run_Cons flood_step_simps)

lemma small_env_limit: "env_u128 small_env ''S1_P99_LIMIT_MS'' 500 = 500"
  by (simp add: small_env_simps)

lemma small_seed: "next_version (Inr 3) = 4"
  by (simp add: next_version_def)

lemma small_percentile: obtains v where "p99 [4, 5] = Some v" "v < 500"
  using percentiles_ordered [of "[4, 5]"] by fastforce

lemma latency_metrics_defined: "lat \<noteq> [] \<Longrightarrow> length lat < 2 ^ 45 \<Longrightarrow> \<exists>m. latency_metrics_of lat = Some m"
  using percentiles_ordered [of lat] by (fastforce simp: latency_metrics_of_def)

lemma small_run_verdict:
  assumes "flood_run (s1_spec 4 1 2) (ob_steps (small_run second)) (flood_new 2 1 [True, True]) = st"
    and "\<not> fl_crashed st" "fl_over st" "fl_lat st = [4, 5]"
  shows "\<exists>r. scenario_subscribe_flood small_env None (small_run second) = Some r"
  using assms latency_metrics_defined [of "[4, 5]"]
  by (auto simp: scenario_subscribe_flood_def Let_def small_env_simps S1_P99_LIMIT_MS_def small_run_def seed_start_seq_def
      small_seed flood_verdict_def)


text \<open>The totals are taken over all subscribers, so a subscriber that hears nothing is masked by
  another that hears the same write twice.\<close>

lemma deaf_subscriber_masked:
  "\<exists>r st. scenario_subscribe_flood small_env None (small_run 0) = Some r \<and> sr_pass r \<and>
     st = flood_run (s1_spec 4 1 2) (ob_steps (small_run 0)) (flood_new 2 1 [True, True]) \<and> fl_counts st ! 1 = 0"
proof -
  obtain st where st: "flood_run (s1_spec 4 1 2) (ob_steps (small_run 0)) (flood_new 2 1 [True, True]) = st"
      "\<not> fl_crashed st" "fl_over st" "fl_lat st = [4, 5]" "fl_counts st = [2, 0]" "fl_ok st = 1"
    using small_run_state(1) by auto
  obtain r where r: "scenario_subscribe_flood small_env None (small_run 0) = Some r"
    using small_run_verdict [OF st(1-4)] by blast
  obtain v where v: "p99 [4, 5] = Some v" "v < 500"
    by (rule small_percentile)
  have "flood_verdict ''subscribe_flood'' '' missed events'' 500 (s1_spec 4 1 2) st = Some r"
    using r st(1) by (simp add: scenario_subscribe_flood_def Let_def small_env_simps S1_P99_LIMIT_MS_def small_run_def
        seed_start_seq_def small_seed)
  from flood_verdict_pass [OF this] have "sr_pass r"
    using v by (simp add: st missed_events_def expected_events_def received_def)
  with r st show ?thesis by auto
qed

text \<open>The reconnect storm does not ask that any write succeeded: when every write of the second wave
  fails, it expects nothing and passes.\<close>

lemma driver_errors:
  assumes "\<forall>r now. Applied r \<in> set steps \<longrightarrow> isl r"
  shows "fl_ok (flood_run fs steps st) = fl_ok st"
  using assms
proof (induction steps rule: rev_induct)
  case (snoc a steps)
  then have "fl_ok (flood_step fs (flood_run fs steps st) a) = fl_ok (flood_run fs steps st)"
    by (cases a) (auto simp: applied_step_def poll_step_def item_step_def proceed_step_def split: sum.splits task.splits option.splits)
  with snoc show ?case by simp
qed simp

lemma storm_passes_without_writes:
  assumes "scenario_reconnect_storm ob = Some r" "so_seed ob = Inr seed"
    and "wm_quorum (foldl (warm_step (so_warm_now ob + secs S3_WARM_DRAIN_SECS)) (warm_new (so_warm_opened ob))
      (so_warm_steps ob)) = Some (True, n)"
    and "\<forall>r. Applied r \<in> set (so_steps ob) \<longrightarrow> isl r"
  shows "sr_pass r"
proof -
  have "missed_events fs (flood_run fs (so_steps ob) (flood_new S3_SUBSCRIBERS (unat S3_POST_APPLIES) (so_opened ob))) = 0" for fs
    using driver_errors [of "so_steps ob"] assms(4)
    by (simp add: missed_events_def expected_events_def) (simp add: flood_new_def)
  with assms show ?thesis
    by (auto simp: scenario_reconnect_storm_def seed_start_seq_def Let_def split: if_splits)
qed

section \<open>Soak\<close>

text \<open>The write loops send consecutive versions from the seed on, one for each round before the deadline,
  and count no more successes than that.\<close>

lemma soak_loop_sent:
  assumes "soak_loop yaml call deadline clock v w = (n, sent, w')"
  shows "sent = map (\<lambda>i. yaml (v + of_nat i)) [0..<length (takeWhile (\<lambda>now. now < deadline) clock)] \<and> n \<le> length sent"
  using assms
proof (induction clock arbitrary: v w n sent w')
  case (Cons now clock)
  show ?case
  proof (cases "deadline \<le> now")
    case False
    obtain r w1 where r: "call (yaml v) w = (r, w1)" by fastforce
    obtain k rest w2 where k: "soak_loop yaml call deadline clock (v + 1) w1 = (k, rest, w2)"
      by (cases "soak_loop yaml call deadline clock (v + 1) w1") auto
    have "sent = yaml v # rest" "n \<le> k + 1"
      using Cons.prems False r k by (auto split: sum.splits)
    moreover note Cons.IH [OF k]
    ultimately show ?thesis
      using False by (auto simp: map_upt_Suc algebra_simps simp del: upt_Suc)
  qed (use Cons.prems in simp)
qed simp

section \<open>Writing through the service\<close>

lemma seqs_length: "length (seqs a b) = Suc (unat b) - unat a"
  by (simp add: seqs_def del: upt_Suc)

lemma unat_of_small: "n < 2 ^ 32 \<Longrightarrow> unat (of_nat n :: u32) = n"
  by (simp add: unat_of_nat)

lemma seqs_nth: "i < length (seqs a b) \<Longrightarrow> unat (seqs a b ! i) = unat a + i"
proof -
  assume i: "i < length (seqs a b)"
  then have "seqs a b ! i = of_nat (unat a + i)"
    by (simp add: seqs_def del: upt_Suc)
  moreover have "unat a + i < 2 ^ 32"
    using i unsigned_less [of b, where 'a = nat] by (simp add: seqs_length)
  ultimately show ?thesis by (simp only: unat_of_small)
qed

text \<open>A chain of calls of which each succeeds and moves an invariant on.\<close>

lemma apply_loop_all:
  assumes "\<And>i w. i < length qs \<Longrightarrow> I i w \<Longrightarrow> \<exists>a w'. call (qs ! i) w = (Inr a, w') \<and> I (Suc i) w'" "I 0 w"
  shows "\<exists>w'. apply_loop call qs (ok, err) w = ((ok + of_nat (length qs), err), w') \<and> I (length qs) w'"
  using assms
proof (induction qs arbitrary: I ok w)
  case (Cons q qs)
  from Cons.prems(1) [of 0 w] Cons.prems(2) obtain a w1 where a: "call q w = (Inr a, w1)" "I 1 w1" by auto
  have "\<exists>w'. apply_loop call qs (ok + 1, err) w1 = ((ok + 1 + of_nat (length qs), err), w') \<and> I (Suc (length qs)) w'"
  proof (rule Cons.IH [of "\<lambda>i. I (Suc i)"])
    fix i w assume "i < length qs" "I (Suc i) w"
    then show "\<exists>a w'. call (qs ! i) w = (Inr a, w') \<and> I (Suc (Suc i)) w'"
      using Cons.prems(1) [of "Suc i" w] by simp
  qed (use a in simp)
  with a show ?case by (simp add: algebra_simps)
qed simp

text \<open>What the tester needs of the YAML reader and of the schemas: its texts parse to their version, the
  result can be written, and the schema in force, if any, accepts it.\<close>

definition acceptable :: "codecs \<Rightarrow> 'v schema_lib \<Rightarrow> 'v schema_table \<Rightarrow> string \<Rightarrow> string \<Rightarrow> string \<Rightarrow> u32 \<Rightarrow> bool" where
  "acceptable cd lib table ns nm yaml v \<longleftrightarrow> (\<exists>spec. spec_from_yaml cd yaml = Inr spec \<and> spec_schema_version spec = v \<and>
     \<not> isl (spec_to_value cd spec) \<and> schema_validate lib table ns nm (spec_content spec) = Inr ())"

lemma acceptable_apply:
  assumes "kube_laws k stored" "spec_codec_ok cd" "contention_bounded k busy"
    and "acceptable cd lib table ns nm yaml v" "fst (stored w (ns, nm)) < v"
  shows "\<exists>rv w'. handle_apply k cd lib table \<lparr>ar_namespace = ns, ar_name = nm, ar_yaml_content = yaml\<rparr> w = (Inr rv, w') \<and>
    fst (stored w' (ns, nm)) = v \<and> (\<forall>key. key \<noteq> (ns, nm) \<longrightarrow> stored w' key = stored w key)"
proof -
  obtain spec x where spec: "spec_from_yaml cd yaml = Inr spec" "spec_schema_version spec = v" "spec_to_value cd spec = Inr x"
      "schema_validate lib table ns nm (spec_content spec) = Inr ()"
    using assms(4) by (auto simp: acceptable_def isl_def split: sum.splits) (metis sum.exhaust)
  obtain rv w' where run: "apply_inner k cd lib table ns nm yaml w = (Inr rv, w')"
    using apply_inner_succeeds [OF assms(1,3) spec(1,3,4)] assms(5) spec(2) by blast
  from apply_inner_store [OF assms(1,2) run] spec run show ?thesis
    by (auto simp: handle_apply_def view_of_spec_def)
qed

text \<open>Property C21. Against a server that is contended but not stuck, the writes of the load tester all
  succeed: when the YAML is read as written, the schemas accept the content and the seed is above the
  stored version, \<open>drive_applies\<close> reports one success for each version of its range and no error, the
  cluster ends at the last version and no other object has changed.\<close>

theorem load_writes_accepted:
  assumes "kube_laws k stored" "spec_codec_ok cd" "contention_bounded k busy"
    and "\<forall>v \<in> set (seqs start_seq end_seq). acceptable cd lib table ns nm (config_yaml label v) v"
    and "fst (stored w (ns, nm)) < start_seq" "start_seq \<le> end_seq"
  shows "\<exists>w' ok. drive_applies (handle_apply k cd lib table) (Inr ()) ns nm start_seq end_seq label w = (Inr (ok, 0), w') \<and>
    unat ok = unat end_seq - unat start_seq + 1 \<and> fst (stored w' (ns, nm)) = end_seq \<and>
    (\<forall>key. key \<noteq> (ns, nm) \<longrightarrow> stored w' key = stored w key)"
proof -
  let ?vs = "seqs start_seq end_seq"
  let ?qs = "map (\<lambda>v. \<lparr>ar_namespace = ns, ar_name = nm, ar_yaml_content = config_yaml label v\<rparr>) ?vs"
  define I where "I i u \<longleftrightarrow> unat (fst (stored u (ns, nm))) < unat start_seq + i \<and>
    (0 < i \<longrightarrow> fst (stored u (ns, nm)) = ?vs ! (i - 1)) \<and> (\<forall>key. key \<noteq> (ns, nm) \<longrightarrow> stored u key = stored w key)" for i u
  have len: "length ?vs = unat end_seq - unat start_seq + 1"
    using assms(6) by (simp add: seqs_length word_le_nat_alt Suc_diff_le)
  have "\<exists>w'. apply_loop (handle_apply k cd lib table) ?qs (0, 0) w = ((0 + of_nat (length ?qs), 0), w') \<and> I (length ?qs) w'"
  proof (rule apply_loop_all)
    fix i u assume i: "i < length ?qs" and "I i u"
    then have "fst (stored u (ns, nm)) < ?vs ! i"
      by (simp add: I_def word_less_nat_alt seqs_nth)
    with acceptable_apply [OF assms(1-3), of lib table ns nm "config_yaml label (?vs ! i)" "?vs ! i" u] assms(4) i \<open>I i u\<close>
    show "\<exists>a w'. handle_apply k cd lib table (?qs ! i) u = (Inr a, w') \<and> I (Suc i) w'"
      by (fastforce simp: I_def seqs_nth)
  qed (use assms(5) in \<open>simp add: I_def word_less_nat_alt\<close>)
  then obtain w' where run: "apply_loop (handle_apply k cd lib table) ?qs (0, 0) w = ((of_nat (length ?vs), 0), w')"
      and inv: "I (length ?vs) w'"
    by auto
  have "unat (?vs ! (length ?vs - 1)) = unat end_seq"
    using assms(6) by (simp add: seqs_nth len word_le_nat_alt)
  then have "?vs ! (length ?vs - 1) = end_seq"
    by (simp add: word_unat_eq_iff)
  then have "fst (stored w' (ns, nm)) = end_seq"
    using inv len by (simp add: I_def)
  moreover have "unat (of_nat (length ?vs) :: u32) = length ?vs"
  proof (rule unat_of_small)
    have "0 < unat start_seq" using assms(5) by (simp add: word_less_nat_alt)
    then show "length ?vs < 2 ^ 32" using unsigned_less [of end_seq, where 'a = nat] len by simp
  qed
  ultimately show ?thesis
    using run inv len by (auto simp: drive_applies_def I_def)
qed

text \<open>A server on which every write meets two conflicts, and a reader for the tester's texts.\<close>

definition busy_kube :: "(demo_world \<times> nat) kube" where
  "busy_kube =
     \<lparr>k_get = (\<lambda>ns nm (w, c). case k_get demo_kube ns nm w of (r, w') \<Rightarrow> (r, (w', c))),
      k_patch = (\<lambda>ns nm body (w, c). if 0 < c then (Inl (Kube_Api 409 ''conflict''), (w, min c 2 - 1))
        else case k_patch demo_kube ns nm body w of (r, w') \<Rightarrow> (r, (w', 2))),
      k_list_at = (\<lambda>ns nm rv (w, c). case k_list_at demo_kube ns nm rv w of (r, w') \<Rightarrow> (r, (w', c))),
      k_get_secret = (\<lambda>ns nm w. (Inl (Kube_Api 404 ''not found''), w)),
      k_patch_secret = (\<lambda>ns nm s w. (Inr s, w)),
      k_get_configmap = (\<lambda>ns nm w. (Inl (Kube_Api 404 ''not found''), w)),
      k_subsec_nanos = (\<lambda>w. (0, w)),
      k_traceparent = (\<lambda>w. None)\<rparr>"

definition busy_store :: "(demo_world \<times> nat) store" where
  "busy_store w = demo_store (fst w)"

definition load_codecs :: codecs where
  "load_codecs = demo_codecs\<lparr>spec_from_yaml := (\<lambda>y.
     case parse_u32 (takeWhile (\<lambda>c. c \<noteq> CHR 0x0A) (drop 16 y)) of
       None \<Rightarrow> Inl ''invalid type'' | Some n \<Rightarrow> Inr \<lparr>spec_schema_version = n, spec_content = JNull\<rparr>)\<rparr>"

lemma busy_kube_laws: "kube_laws busy_kube busy_store"
  unfolding kube_laws_def reads_pure_def get_returns_stored_def patch_stores_def
  by (auto simp: busy_kube_def busy_store_def demo_kube_def demo_store_def demo_stored_object_def spec_view_def fun_eq_iff
      split: option.splits)

lemma busy_contention: "contention_bounded busy_kube (\<lambda>w. min 2 (snd w))"
  unfolding contention_bounded_def
  by (auto simp: busy_kube_def demo_kube_def split: prod.splits option.splits if_splits)

lemma load_codec_ok: "spec_codec_ok load_codecs"
  using demo_codec_ok by (simp add: spec_codec_ok_def load_codecs_def)

lemma load_yaml_acceptable: "acceptable load_codecs demo_schema_lib [] ns nm (config_yaml label v) v"
proof -
  have "c \<noteq> CHR 0x0A" if "c \<in> set (show_nat (unat v))" for c
    using show_nat_digits [of "unat v"] that by (auto simp: list_all_iff is_digit_def)
  then have "takeWhile (\<lambda>c. c \<noteq> CHR 0x0A) (drop 16 (config_yaml label v)) = show_nat (unat v)"
    by (simp add: config_yaml_def line_feed_def takeWhile_append2)
  then show ?thesis
    by (simp add: acceptable_def load_codecs_def parse_u32_show demo_simps schema_validate_def)
qed

theorem load_writes_accepted_witness:
  "\<exists>w' ok. drive_applies (handle_apply busy_kube load_codecs demo_schema_lib []) (Inr ()) ''ns'' ''a'' 1 3 ''s'' (([], 0), 2) =
     (Inr (ok, 0), w') \<and> unat ok = 3 \<and> fst (busy_store w' (''ns'', ''a'')) = 3"
  using load_writes_accepted [OF busy_kube_laws load_codec_ok busy_contention, of 1 3 demo_schema_lib "[]" "''ns''" "''a''" "''s''" "(([], 0), 2)"]
  by (auto simp: load_yaml_acceptable busy_store_def demo_store_def spec_view_def)

section \<open>Get flood\<close>

text \<open>The get flood passes exactly when no read failed, none was skipped for want of a connection, and the
  99th percentile is below its limit.\<close>

lemma get_task_clean: "snd (s2_get_task t) = 0 \<longleftrightarrow> (\<exists>rs. t = Inr rs \<and> (\<forall>r \<in> set (take S2_GETS_PER_TASK rs). \<not> isl r))"
  by (cases t) (auto simp: s2_get_task_def Let_def filter_empty_conv S2_GETS_PER_TASK_def)

lemma get_flood_pass:
  assumes "scenario_get_flood tasks = Some r" "lat = concat (map (fst \<circ> s2_get_task) (take S2_TASKS tasks))" "length lat < 2 ^ 45"
  shows "sr_pass r \<longleftrightarrow> (\<forall>t \<in> set (take S2_TASKS tasks). snd (s2_get_task t) = 0) \<and>
    (\<exists>v. p99 lat = Some v \<and> v < S2_P99_LIMIT_MS)"
proof -
  let ?errors = "sum_list (map (snd \<circ> s2_get_task) (take S2_TASKS tasks))"
  have r: "(if lat = [] then Some (scenario_fail ''get_flood'' [''no latency samples''])
      else map_option (\<lambda>m. with_metrics (verdict_of ''get_flood''
        (count_failure ?errors '' RPC errors'' @ p99_failure (lm_p99_ms m) S2_P99_LIMIT_MS)) m) (latency_metrics_of lat)) = Some r"
    using assms(1) unfolding scenario_get_flood_def Let_def assms(2) map_map by simp
  have z: "?errors = 0 \<longleftrightarrow> (\<forall>t \<in> set (take S2_TASKS tasks). snd (s2_get_task t) = 0)"
    by (simp add: sum_list_eq_0_iff)
  show ?thesis
  proof (cases "lat = []")
    case True
    with r show ?thesis by (auto simp: scenario_fail_def p99_def at_index_def)
  next
    case False
    from percentiles_ordered [OF this assms(3)] obtain a b c where "p50 lat = Some a" "p95 lat = Some b" "p99 lat = Some c"
      by blast
    with r False show ?thesis
      unfolding z [symmetric] by (auto simp: latency_metrics_of_def)
  qed
qed

section \<open>The version to resume from\<close>

text \<open>Of the versions the first wave has reported, the second resumes from a largest, which one subscriber
  has seen and another may not have.\<close>

lemma best_rv:
  assumes "best = foldl (\<lambda>best rv. case best of None \<Rightarrow> Some rv | Some b \<Rightarrow> if rv_number b \<le> rv_number rv then Some rv else best) None rvs"
  shows "case best of None \<Rightarrow> rvs = [] | Some b \<Rightarrow> b \<in> set rvs \<and> (\<forall>rv \<in> set rvs. rv_number rv \<le> rv_number b)"
  using assms
proof (induction rvs arbitrary: best rule: rev_induct)
  case (snoc rv rvs)
  define b where "b = foldl (\<lambda>best rv. case best of None \<Rightarrow> Some rv | Some b \<Rightarrow> if rv_number b \<le> rv_number rv then Some rv else best) None rvs"
  note IH = snoc.IH [OF b_def]
  have "best = (case b of None \<Rightarrow> Some rv | Some b \<Rightarrow> if rv_number b \<le> rv_number rv then Some rv else Some b)"
    using snoc.prems by (simp add: b_def split: option.split)
  with IH show ?case
    by (cases b) (auto split: if_splits intro: order_trans dest: bspec)
qed simp

lemma known_rv_largest:
  assumes "\<exists>rv \<in> set rvs. rv \<noteq> []"
  shows "known_rv rvs \<in> set rvs \<and> known_rv rvs \<noteq> [] \<and> (\<forall>rv \<in> set rvs. rv \<noteq> [] \<longrightarrow> rv_number rv \<le> rv_number (known_rv rvs))"
  using best_rv [OF refl, of "filter (\<lambda>rv. rv \<noteq> []) rvs"] assms
  by (auto simp: known_rv_def unwrap_or_def filter_empty_conv split: option.splits)

end
