(* ===== verification/Stream_Sink.thy ===== *)
theory Stream_Sink
  imports Konfig_Prelude
begin

text \<open>
  The allocation sampler (\<open>stream_sink.rs\<close>): the callback of the allocator puts a sample into a bounded
  channel or drops it, and a writer thread prints one line for each sample through a buffered writer.
  Callbacks run on any thread, so a run is a sequence of atomic sends and receives in any order. The
  allocator's profiling session, the file and the thread are not under the repository: whether they
  start, and what a write to the file returns, are inputs. The buffered writer is that of the standard
  library.
\<close>

section \<open>Samples and their lines\<close>

datatype event_kind = Alloc | Resize

record stream_event =
  ev_ts_ns :: nat
  ev_kind :: event_kind
  ev_site :: u64
  ev_size :: usize

record stream_sample =
  sp_stack :: "u64 list"
  sp_alloc_ptr :: u64
  sp_kind :: event_kind
  sp_requested_size :: usize

text \<open>\<open>anchor\<close> is the instant of the process start, if it has been set.\<close>

definition event_of :: "instant option \<Rightarrow> instant \<Rightarrow> stream_sample \<Rightarrow> stream_event" where
  "event_of anchor now sample =
     \<lparr>ev_ts_ns = (case anchor of Some t \<Rightarrow> now - t | None \<Rightarrow> 0), ev_kind = sp_kind sample,
      ev_site = (case sp_stack sample of p # ps \<Rightarrow> p | [] \<Rightarrow> sp_alloc_ptr sample), ev_size = sp_requested_size sample\<rparr>"

definition kind_str :: "event_kind \<Rightarrow> string" where
  "kind_str k = (case k of Alloc \<Rightarrow> ''alloc'' | Resize \<Rightarrow> ''resize'')"

definition key_str :: "string \<Rightarrow> string" where
  "key_str s = [CHR 0x22] @ s @ [CHR 0x22] @ '':''"

text \<open>The pieces in which \<open>writeln!\<close> hands a line to the writer; padding is written digit by digit.\<close>

definition line_pieces :: "stream_event \<Rightarrow> string list" where
  "line_pieces ev =
     (let site = show_hex (unat (ev_site ev)) in
      [''{'' @ key_str ''ts_ns'', show_nat (ev_ts_ns ev), '','' @ key_str ''kind'' @ [CHR 0x22], kind_str (ev_kind ev),
       [CHR 0x22] @ '','' @ key_str ''site'' @ [CHR 0x22] @ ''0x''] @
      replicate (16 - length site) ''0'' @
      [site, [CHR 0x22] @ '','' @ key_str ''size'', show_nat (unat (ev_size ev)), ''}'' @ [CHR 0x0A]])"

definition line_of :: "stream_event \<Rightarrow> string" where
  "line_of ev = concat (line_pieces ev)"

section \<open>The buffered writer\<close>

definition WRITER_BUF_BYTES :: nat where
  "WRITER_BUF_BYTES = 64 * 1024"

record buf_writer =
  bw_buf :: string
  bw_file :: string

text \<open>Writes to the file: \<open>None\<close> succeeds, \<open>Some n\<close> fails after \<open>n\<close> bytes.\<close>

definition flush_buf :: "nat option \<Rightarrow> buf_writer \<Rightarrow> bool \<times> buf_writer" where
  "flush_buf fault bw = (case fault of
       None \<Rightarrow> (True, \<lparr>bw_buf = [], bw_file = bw_file bw @ bw_buf bw\<rparr>)
     | Some n \<Rightarrow> (False, \<lparr>bw_buf = drop n (bw_buf bw), bw_file = bw_file bw @ take n (bw_buf bw)\<rparr>))"

definition buf_write :: "nat option \<Rightarrow> string \<Rightarrow> buf_writer \<Rightarrow> bool \<times> buf_writer" where
  "buf_write fault s bw =
     (let spare = WRITER_BUF_BYTES - length (bw_buf bw);
          (ok, bw') = (if spare < length s then flush_buf fault bw else (True, bw))
      in if \<not> ok then (False, bw')
         else if WRITER_BUF_BYTES \<le> length s
         then (case fault of
             None \<Rightarrow> (True, bw'\<lparr>bw_file := bw_file bw' @ s\<rparr>)
           | Some n \<Rightarrow> (False, bw'\<lparr>bw_file := bw_file bw' @ take n s\<rparr>))
         else (True, bw'\<lparr>bw_buf := bw_buf bw' @ s\<rparr>))"

fun write_pieces :: "nat option \<Rightarrow> string list \<Rightarrow> buf_writer \<Rightarrow> bool \<times> buf_writer" where
  "write_pieces fault [] bw = (True, bw)"
| "write_pieces fault (s # ss) bw =
     (case buf_write fault s bw of (True, bw') \<Rightarrow> write_pieces fault ss bw' | (False, bw') \<Rightarrow> (False, bw'))"

section \<open>The sink\<close>

definition SINK_CHANNEL_CAPACITY :: nat where
  "SINK_CHANNEL_CAPACITY = 16384"

datatype writer_state = Writing | Draining | Exited

record sink =
  sk_anchor :: "instant option"
  sk_started :: bool
  sk_sender :: bool
  sk_queue :: "stream_event list"
  sk_dropped :: usize
  sk_writer :: writer_state
  sk_out :: buf_writer

definition sink_idle :: sink where
  "sink_idle = \<lparr>sk_anchor = None, sk_started = False, sk_sender = False, sk_queue = [], sk_dropped = 0,
     sk_writer = Exited, sk_out = \<lparr>bw_buf = [], bw_file = []\<rparr>\<rparr>"

text \<open>What the operating system and the allocator answer at the start.\<close>

record sink_env =
  se_path :: "string option"
  se_create :: "string + unit"
  se_spawn :: "string + unit"
  se_session :: "string + unit"
  se_now :: instant

definition start_if_env :: "sink_env \<Rightarrow> sink \<Rightarrow> (string + bool) \<times> sink" where
  "start_if_env env st =
     (case se_path env of
        None \<Rightarrow> (Inr False, st)
      | Some path \<Rightarrow>
          if path = [] then (Inr False, st)
          else if sk_started st then (Inr False, st)
          else (let st1 = st\<lparr>sk_started := True\<rparr> in
            case se_create env of
              Inl e \<Rightarrow> (Inl e, st1)
            | Inr u \<Rightarrow>
                (let st2 = st1\<lparr>sk_anchor := (case sk_anchor st1 of None \<Rightarrow> Some (se_now env) | a \<Rightarrow> a),
                     sk_out := \<lparr>bw_buf = [], bw_file = []\<rparr>, sk_queue := []\<rparr> in
                 case se_spawn env of
                   Inl e \<Rightarrow> (Inl e, st2)
                 | Inr u \<Rightarrow>
                     (case se_session env of
                        Inl e \<Rightarrow> (Inl e, st2\<lparr>sk_writer := Writing, sk_sender := False\<rparr>)
                      | Inr u \<Rightarrow> (Inr True, st2\<lparr>sk_writer := Writing, sk_sender := True\<rparr>)))))"

definition dropped_samples :: "sink \<Rightarrow> usize" where
  "dropped_samples st = sk_dropped st"

text \<open>The callback; without a session there is none.\<close>

definition handle_sample :: "instant \<Rightarrow> stream_sample \<Rightarrow> sink \<Rightarrow> sink" where
  "handle_sample now sample st =
     (if \<not> sk_sender st \<or> sk_writer st = Exited then st
      else if SINK_CHANNEL_CAPACITY \<le> length (sk_queue st) then st\<lparr>sk_dropped := sk_dropped st + 1\<rparr>
      else st\<lparr>sk_queue := sk_queue st @ [event_of (sk_anchor st) now sample]\<rparr>)"

text \<open>One turn of the writer: it takes the next event, or finds the channel empty and, when no sender is
  left, leaves the loop with a flush. After a failed write it only drains. At the end the buffered
  writer is dropped, which flushes what is left.\<close>

definition writer_turn :: "nat option \<Rightarrow> sink \<Rightarrow> sink" where
  "writer_turn fault st = (case (sk_writer st, sk_queue st) of
       (Exited, q) \<Rightarrow> st
     | (Writing, ev # q) \<Rightarrow>
         (case write_pieces fault (line_pieces ev) (sk_out st) of
            (ok, out) \<Rightarrow> st\<lparr>sk_queue := q, sk_out := out, sk_writer := (if ok then Writing else Draining)\<rparr>)
     | (Draining, ev # q) \<Rightarrow> st\<lparr>sk_queue := q\<rparr>
     | (s, []) \<Rightarrow>
         if sk_sender st then st
         else st\<lparr>sk_writer := (if s = Writing then Draining else Exited), sk_out := snd (flush_buf fault (sk_out st))\<rparr>)"

datatype sink_act = Sample instant stream_sample | Turn "nat option"

fun sink_step :: "sink \<Rightarrow> sink_act \<Rightarrow> sink" where
  "sink_step st (Sample now s) = handle_sample now s st"
| "sink_step st (Turn fault) = writer_turn fault st"

definition sink_run :: "sink \<Rightarrow> sink_act list \<Rightarrow> sink" where
  "sink_run st acts = foldl sink_step st acts"

section \<open>What is written\<close>

text \<open>The events that enter the channel in a run.\<close>

definition accepts :: "sink \<Rightarrow> sink_act \<Rightarrow> stream_event list" where
  "accepts st a = (case a of
       Sample now s \<Rightarrow> if sk_sender st \<and> sk_writer st \<noteq> Exited \<and> length (sk_queue st) < SINK_CHANNEL_CAPACITY
         then [event_of (sk_anchor st) now s] else []
     | Turn fault \<Rightarrow> [])"

fun accepted :: "sink \<Rightarrow> sink_act list \<Rightarrow> stream_event list" where
  "accepted st [] = []"
| "accepted st (a # as) = accepts st a @ accepted (sink_step st a) as"

definition samples_of :: "sink_act list \<Rightarrow> nat" where
  "samples_of acts = length (filter (\<lambda>a. \<exists>now s. a = Sample now s) acts)"

lemma sink_run_simps [simp]:
  "sink_run st [] = st" "sink_run st (as @ [a]) = sink_step (sink_run st as) a"
  by (simp_all add: sink_run_def)

lemma accepted_snoc: "accepted st (as @ [a]) = accepted st as @ accepts (sink_run st as) a"
  by (induction as arbitrary: st) (simp_all add: sink_run_def)

definition emitted :: "buf_writer \<Rightarrow> string" where
  "emitted bw = bw_file bw @ bw_buf bw"

lemma flush_emitted [simp]: "emitted (snd (flush_buf fault bw)) = emitted bw"
  by (simp add: flush_buf_def emitted_def split: option.splits)

text \<open>A write appends its text, or a part of it when it fails; the buffer stays within its size.\<close>

lemma buf_write_emitted:
  assumes "buf_write fault s bw = (ok, bw')"
  shows "\<exists>t u. s = t @ u \<and> emitted bw' = emitted bw @ t \<and> (ok \<longrightarrow> u = [])"
proof (cases "WRITER_BUF_BYTES - length (bw_buf bw) < length s \<and> fault \<noteq> None")
  case True
  then have "emitted bw' = emitted bw" "\<not> ok"
    using assms flush_emitted [of fault bw] by (auto simp: buf_write_def flush_buf_def)
  then show ?thesis by simp
next
  case False
  show ?thesis
  proof (cases "WRITER_BUF_BYTES \<le> length s")
    case big: True
    then have "bw_buf bw = [] \<or> WRITER_BUF_BYTES - length (bw_buf bw) < length s"
      by (cases "bw_buf bw") (auto simp: WRITER_BUF_BYTES_def)
    then have "if ok then emitted bw' = emitted bw @ s else \<exists>n. emitted bw' = emitted bw @ take n s"
      using assms big False
      by (auto simp: buf_write_def flush_buf_def emitted_def Let_def split: if_splits option.splits)
    then show ?thesis
      by (metis append_take_drop_id append_Nil2)
  next
    case small: False
    then show ?thesis
      using assms False by (auto simp: buf_write_def flush_buf_def emitted_def Let_def split: if_splits option.splits)
  qed
qed

lemma write_pieces_emitted:
  assumes "write_pieces fault ss bw = (ok, bw')"
  shows "\<exists>t u. concat ss = t @ u \<and> emitted bw' = emitted bw @ t \<and> (ok \<longrightarrow> u = [])"
  using assms
proof (induction ss arbitrary: bw)
  case (Cons s ss)
  obtain k bw1 where k: "buf_write fault s bw = (k, bw1)" by fastforce
  from buf_write_emitted [OF k] obtain t u where t: "s = t @ u" "emitted bw1 = emitted bw @ t" "k \<longrightarrow> u = []" by blast
  show ?case
  proof (cases k)
    case True
    with Cons k have "write_pieces fault ss bw1 = (ok, bw')" by simp
    from Cons.IH [OF this] t True show ?thesis by fastforce
  next
    case False
    with Cons.prems k t show ?thesis by fastforce
  qed
qed simp

lemma buf_write_bounded:
  "length (bw_buf bw) \<le> WRITER_BUF_BYTES \<Longrightarrow> length (bw_buf (snd (buf_write fault s bw))) \<le> WRITER_BUF_BYTES"
  by (auto simp: buf_write_def flush_buf_def Let_def split: option.splits)

lemma write_pieces_bounded:
  "length (bw_buf bw) \<le> WRITER_BUF_BYTES \<Longrightarrow> length (bw_buf (snd (write_pieces fault ss bw))) \<le> WRITER_BUF_BYTES"
proof (induction ss arbitrary: bw)
  case (Cons s ss)
  then show ?case
    using buf_write_bounded [OF Cons.prems, of fault s] by (auto split: prod.splits bool.splits)
qed simp

text \<open>Without a failing write nothing fails.\<close>

lemma write_pieces_ok: "fst (write_pieces None ss bw)"
  by (induction ss arbitrary: bw) (auto simp: buf_write_def flush_buf_def Let_def split: prod.splits bool.splits)

section \<open>The invariant\<close>

text \<open>\<open>acc\<close> are the events accepted so far. While the writer writes, the output is exactly the lines of the
  accepted events that have left the channel; later it is a beginning of the lines of them all.\<close>

definition sink_inv :: "stream_event list \<Rightarrow> sink \<Rightarrow> bool" where
  "sink_inv acc st \<longleftrightarrow> length (sk_queue st) \<le> SINK_CHANNEL_CAPACITY \<and> length (bw_buf (sk_out st)) \<le> WRITER_BUF_BYTES \<and>
     (\<exists>rest. concat (map line_of acc) = emitted (sk_out st) @ rest) \<and>
     (sk_writer st = Writing \<longrightarrow>
        (\<exists>left. acc = left @ sk_queue st \<and> emitted (sk_out st) = concat (map line_of left)))"

lemma sample_inv:
  "sink_inv acc st \<Longrightarrow> sink_inv (acc @ accepts st (Sample now s)) (handle_sample now s st)"
  by (auto simp: sink_inv_def accepts_def handle_sample_def)

lemma flush_bounded: "length (bw_buf bw) \<le> n \<Longrightarrow> length (bw_buf (snd (flush_buf fault bw))) \<le> n"
  by (auto simp: flush_buf_def split: option.splits)

lemma turn_inv:
  assumes "sink_inv acc st"
  shows "sink_inv acc (writer_turn fault st)"
proof (cases "sk_writer st = Writing \<and> sk_queue st \<noteq> []")
  case True
  then obtain ev q where q: "sk_queue st = ev # q" by (cases "sk_queue st") auto
  obtain ok out where w: "write_pieces fault (line_pieces ev) (sk_out st) = (ok, out)" by fastforce
  from write_pieces_emitted [OF w] obtain t u where
    t: "line_of ev = t @ u" "emitted out = emitted (sk_out st) @ t" "ok \<longrightarrow> u = []"
    unfolding line_of_def by blast
  from assms True q obtain left where left: "acc = (left @ [ev]) @ q" "emitted (sk_out st) = concat (map line_of left)"
    by (auto simp: sink_inv_def)
  then have "\<exists>rest. concat (map line_of acc) = emitted out @ rest"
    using t by (intro exI [of _ "u @ concat (map line_of q)"]) simp
  moreover have "length (bw_buf out) \<le> WRITER_BUF_BYTES"
    using write_pieces_bounded [of "sk_out st" fault "line_pieces ev"] assms w by (simp add: sink_inv_def)
  moreover have "length q \<le> SINK_CHANNEL_CAPACITY"
    using assms q by (simp add: sink_inv_def)
  moreover have "ok \<Longrightarrow> emitted out = concat (map line_of (left @ [ev]))"
    using t left by simp
  ultimately have "sink_inv acc (st\<lparr>sk_queue := q, sk_out := out, sk_writer := (if ok then Writing else Draining)\<rparr>)"
    using left(1) unfolding sink_inv_def
    by (simp del: concat_append map_append)
  then show ?thesis
    using True q w by (simp add: writer_turn_def)
next
  case False
  then show ?thesis
    using assms flush_bounded [of "sk_out st" WRITER_BUF_BYTES fault]
    by (auto simp: writer_turn_def sink_inv_def split: writer_state.splits list.splits)
qed

lemma run_inv:
  assumes "sink_inv [] st"
  shows "sink_inv (accepted st acts) (sink_run st acts)"
proof (induction acts rule: rev_induct)
  case (snoc a acts)
  show ?case
  proof (cases a)
    case (Sample now s)
    with sample_inv [OF snoc] show ?thesis by (simp add: accepted_snoc)
  next
    case (Turn fault)
    with turn_inv [OF snoc] show ?thesis by (simp add: accepted_snoc accepts_def)
  qed
qed (use assms in simp)

text \<open>After a successful start the callback holds the sender for good, so the writer never leaves its
  loop.\<close>

definition session_live :: "sink \<Rightarrow> bool" where
  "session_live st \<longleftrightarrow> sk_sender st \<and> sk_writer st \<noteq> Exited"

lemma step_live: "session_live st \<Longrightarrow> session_live (sink_step st a)"
  by (cases a) (auto simp: session_live_def handle_sample_def writer_turn_def split: writer_state.splits list.splits prod.splits)

interpretation session: traced_machine sink_step "\<lambda>_. session_live"
  by unfold_locales (rule step_live)

lemma run_live: "session_live st \<Longrightarrow> session_live (sink_run st acts)"
  unfolding sink_run_def by (rule session.run_keeps)

lemma step_count:
  "session_live st \<Longrightarrow> sk_dropped (sink_step st a) =
     sk_dropped st + of_nat (samples_of [a] - length (accepts st a)) \<and> length (accepts st a) \<le> samples_of [a]"
  by (cases a) (auto simp: session_live_def samples_of_def accepts_def handle_sample_def writer_turn_def
      split: writer_state.splits list.splits prod.splits)

lemma samples_of_append: "samples_of (as @ bs) = samples_of as + samples_of bs"
  by (simp add: samples_of_def)

lemma run_count:
  assumes "session_live st" "sk_dropped st = 0"
  shows "sk_dropped (sink_run st acts) = of_nat (samples_of acts - length (accepted st acts)) \<and>
    length (accepted st acts) \<le> samples_of acts"
proof (induction acts rule: rev_induct)
  case (snoc a acts)
  have "samples_of acts + samples_of [a] - (length (accepted st acts) + length (accepts (sink_run st acts) a)) =
      (samples_of acts - length (accepted st acts)) + (samples_of [a] - length (accepts (sink_run st acts) a))"
    using snoc step_count [OF run_live [OF assms(1)], of acts a] by linarith
  then show ?case
    using snoc step_count [OF run_live [OF assms(1)], of acts a] by (simp add: samples_of_append accepted_snoc)
qed (simp add: assms(2) samples_of_def)

lemma step_writing:
  "session_live st \<Longrightarrow> sk_writer st = Writing \<Longrightarrow> a = Turn None \<or> (\<exists>now s. a = Sample now s) \<Longrightarrow> sk_writer (sink_step st a) = Writing"
  using write_pieces_ok by (auto simp: session_live_def handle_sample_def writer_turn_def split: list.splits prod.splits) (metis fst_conv)

lemma run_writing:
  assumes "session_live st" "sk_writer st = Writing" "\<forall>fault. Turn fault \<in> set acts \<longrightarrow> fault = None"
  shows "sk_writer (sink_run st acts) = Writing"
  using assms(3)
proof (induction acts rule: rev_induct)
  case (snoc a acts)
  then show ?case
    using step_writing [OF run_live [OF assms(1)], of acts a] by (cases a) auto
qed (use assms in simp)

lemma started:
  assumes "start_if_env env sink_idle = (Inr True, st)"
  shows "session_live st" "sk_dropped st = 0" "sk_writer st = Writing" "sink_inv [] st" "sk_out st = \<lparr>bw_buf = [], bw_file = []\<rparr>"
  using assms by (auto simp: start_if_env_def sink_idle_def session_live_def sink_inv_def emitted_def Let_def
      split: option.splits if_splits sum.splits)

section \<open>The tail that is never written\<close>

lemma buf_write_short:
  assumes "bw_file bw = []" "length (bw_buf bw) + length s < WRITER_BUF_BYTES"
  shows "buf_write fault s bw = (True, bw\<lparr>bw_buf := bw_buf bw @ s\<rparr>)"
proof -
  have "\<not> WRITER_BUF_BYTES - length (bw_buf bw) < length s" using assms(2) by linarith
  then show ?thesis using assms by (simp add: buf_write_def Let_def)
qed

lemma write_pieces_short:
  assumes "bw_file bw = []" "length (bw_buf bw) + length (concat ss) < WRITER_BUF_BYTES"
  shows "write_pieces fault ss bw = (True, bw\<lparr>bw_buf := bw_buf bw @ concat ss\<rparr>)"
  using assms
proof (induction ss arbitrary: bw)
  case (Cons s ss)
  then show ?case
    using buf_write_short [of bw s fault] Cons.IH [of "bw\<lparr>bw_buf := bw_buf bw @ s\<rparr>"] by simp
qed simp

text \<open>Nothing but a full buffer makes the writer write, and it is never ended: a session that yields less
  than the size of the buffer leaves its file empty, whatever the file would have answered.\<close>

lemma short_session_file_empty:
  assumes "start_if_env env sink_idle = (Inr True, st)"
    and "length (concat (map line_of (accepted st acts))) < WRITER_BUF_BYTES"
  shows "bw_file (sk_out (sink_run st acts)) = [] \<and> sk_writer (sink_run st acts) = Writing"
  using assms(2)
proof (induction acts rule: rev_induct)
  case Nil
  show ?case using started [OF assms(1)] by simp
next
  case (snoc a acts)
  let ?st = "sink_run st acts"
  from snoc have IH: "bw_file (sk_out ?st) = []" "sk_writer ?st = Writing"
    by (simp_all add: accepted_snoc)
  show ?case
  proof (cases a)
    case (Sample now s)
    with IH show ?thesis by (simp add: handle_sample_def)
  next
    case (Turn fault)
    show ?thesis
    proof (cases "sk_queue ?st")
      case Nil
      then show ?thesis
        using Turn IH run_live [OF started(1) [OF assms(1)], of acts] by (simp add: writer_turn_def session_live_def)
    next
      case (Cons ev q)
      from run_inv [OF started(4) [OF assms(1)], of acts] IH(2) Cons obtain left where
        left: "accepted st acts = left @ ev # q" "emitted (sk_out ?st) = concat (map line_of left)"
        by (auto simp: sink_inv_def)
      then have "length (bw_buf (sk_out ?st)) + length (line_of ev) < WRITER_BUF_BYTES"
        using snoc.prems IH(1) by (simp add: accepted_snoc emitted_def)
      then have "write_pieces fault (line_pieces ev) (sk_out ?st) =
          (True, (sk_out ?st)\<lparr>bw_buf := bw_buf (sk_out ?st) @ line_of ev\<rparr>)"
        unfolding line_of_def by (intro write_pieces_short IH(1))
      then show ?thesis
        using Turn IH Cons by (simp add: writer_turn_def)
    qed
  qed
qed

text \<open>A start that fails is remembered as one that succeeded: the next call reports that nothing had to be
  done.\<close>

lemma failed_start_not_retried:
  assumes "start_if_env env st = (Inl e, st1)"
  shows "start_if_env env' st1 = (Inr False, st1)"
proof -
  have "sk_started st1"
    using assms by (auto simp: start_if_env_def Let_def split: option.splits if_splits sum.splits)
  then show ?thesis by (simp add: start_if_env_def split: option.split)
qed

section \<open>Properties\<close>

text \<open>Property C40. Once the sampler has started, whatever the interleaving of callbacks and writer, each
  sample is either accepted or counted as dropped; channel and buffer stay within their sizes; what
  has reached the file and the buffer is a beginning of the lines of the accepted events in their
  order; and as long as no write to the file fails, the accepted events that are not in it are exactly
  those still in the channel.\<close>

theorem samples_accounted_for:
  assumes "start_if_env env sink_idle = (Inr True, st0)" "st = sink_run st0 acts" "samples_of acts < 2 ^ 64"
  shows "samples_of acts = length (accepted st0 acts) + unat (dropped_samples st) \<and>
    length (sk_queue st) \<le> SINK_CHANNEL_CAPACITY \<and> length (bw_buf (sk_out st)) \<le> WRITER_BUF_BYTES \<and>
    (\<exists>rest. concat (map line_of (accepted st0 acts)) = bw_file (sk_out st) @ bw_buf (sk_out st) @ rest) \<and>
    ((\<forall>fault. Turn fault \<in> set acts \<longrightarrow> fault = None) \<longrightarrow>
       (\<exists>left. accepted st0 acts = left @ sk_queue st \<and>
          bw_file (sk_out st) @ bw_buf (sk_out st) = concat (map line_of left)))"
proof -
  note st0 = started [OF assms(1)]
  have inv: "sink_inv (accepted st0 acts) st"
    unfolding assms(2) by (rule run_inv [OF st0(4)])
  have c: "sk_dropped st = of_nat (samples_of acts - length (accepted st0 acts))" "length (accepted st0 acts) \<le> samples_of acts"
    using run_count [OF st0(1,2), of acts] by (simp_all add: assms(2))
  have "samples_of acts - length (accepted st0 acts) < 2 ^ 64"
    using assms(3) by linarith
  then have "unat (dropped_samples st) = samples_of acts - length (accepted st0 acts)"
    using c(1) by (simp add: dropped_samples_def unat_of_nat)
  then have "samples_of acts = length (accepted st0 acts) + unat (dropped_samples st)"
    using c(2) by simp
  moreover have "length (sk_queue st) \<le> SINK_CHANNEL_CAPACITY" "length (bw_buf (sk_out st)) \<le> WRITER_BUF_BYTES"
      "\<exists>rest. concat (map line_of (accepted st0 acts)) = bw_file (sk_out st) @ bw_buf (sk_out st) @ rest"
    using inv by (simp_all add: sink_inv_def emitted_def)
  moreover have "sk_writer st = Writing" if "\<forall>fault. Turn fault \<in> set acts \<longrightarrow> fault = None"
    using run_writing [OF st0(1,3) that] by (simp add: assms(2))
  ultimately show ?thesis
    using inv unfolding sink_inv_def emitted_def by blast
qed

definition sink_demo_env :: sink_env where
  "sink_demo_env = \<lparr>se_path = Some ''f'', se_create = Inr (), se_spawn = Inr (), se_session = Inr (), se_now = 5\<rparr>"

definition sink_demo_sample :: stream_sample where
  "sink_demo_sample = \<lparr>sp_stack = [255], sp_alloc_ptr = 0, sp_kind = Alloc, sp_requested_size = 64\<rparr>"

definition sink_demo_acts :: "sink_act list" where
  "sink_demo_acts = [Sample 7 sink_demo_sample, Turn None, Sample 9 sink_demo_sample]"

theorem samples_accounted_for_witness:
  "\<exists>st0. start_if_env sink_demo_env sink_idle = (Inr True, st0) \<and> length (accepted st0 sink_demo_acts) = 2 \<and>
    unat (dropped_samples (sink_run st0 sink_demo_acts)) = 0"
proof -
  obtain st0 where st0: "start_if_env sink_demo_env sink_idle = (Inr True, st0)" "sk_queue st0 = []"
      "sk_writer st0 = Writing" "sk_sender st0"
    by (auto simp: start_if_env_def sink_demo_env_def sink_idle_def)
  have "length (accepted st0 sink_demo_acts) = 2"
    using st0(2-) by (auto simp: sink_demo_acts_def accepts_def SINK_CHANNEL_CAPACITY_def handle_sample_def writer_turn_def
        split: prod.splits)
  with samples_accounted_for [OF st0(1) refl, of sink_demo_acts] st0(1) show ?thesis
    by (simp add: samples_of_def sink_demo_acts_def)
qed

end
