(* ===== verification/Process_Entry.thy ===== *)
theory Process_Entry
  imports Startup Stream_Sink
begin

text \<open>
  The process around the server: the binary's entry point (\<open>main.rs\<close>) with the layers of its logging and
  trace export, the allocation sampler that \<open>run\<close> starts first, the trace context carried in an
  annotation (\<open>telemetry.rs\<close>), and the operations endpoint (\<open>startup.rs\<close>: metrics and heap profile).
  The tracing and OpenTelemetry libraries are parameters: whether a filter parses, whether an exporter
  can be built, what a propagator puts into a carrier.
\<close>

section \<open>Logging and trace export\<close>

record 'f log_layers =
  ll_sync :: bool
  ll_json :: bool
  ll_export :: "('f tracer_settings \<times> string) option"

datatype 'f tracing = Console | Layers "'f log_layers"

text \<open>\<open>console\<close> tells whether the console feature is compiled in, \<open>kept\<close> whether an earlier call has stored its
  guard; the new state is part of the result.\<close>

definition init_tracing ::
  "bool \<Rightarrow> (string \<Rightarrow> 'f option) \<Rightarrow> 'f \<Rightarrow> ('f tracer_settings \<Rightarrow> string + unit) \<Rightarrow> (string \<Rightarrow> string + unit) \<Rightarrow>
   (string \<Rightarrow> string option) \<Rightarrow> bool \<Rightarrow> (string + 'f tracing) \<times> bool" where
  "init_tracing console parse_f64 one exporter parse_filter env kept =
     (if console \<and> env ''RUST_CONSOLE'' = Some ''1'' then (Inr Console, kept)
      else
        (let sync_logs = (env ''KONFIG_LOG_SYNC'' = Some ''1'') in
         if \<not> sync_logs \<and> kept
         then (Inl ''init_tracing called more than once: TRACING_GUARD already populated'', kept)
         else
           (let kept' = (kept \<or> \<not> sync_logs); json_logs = log_format_is_json (env ''RUST_LOG_FORMAT'') in
            case build_tracer_provider parse_f64 one env of
              None \<Rightarrow> (Inr (Layers \<lparr>ll_sync = sync_logs, ll_json = json_logs, ll_export = None\<rparr>), kept')
            | Some settings \<Rightarrow>
                (rbind (exporter settings) (\<lambda>_.
                 let spec = otel_trace_filter_spec (env ''OTEL_TRACES_LEVEL'') in
                 rbind (parse_filter spec) (\<lambda>_.
                 Inr (Layers \<lparr>ll_sync = sync_logs, ll_json = json_logs, ll_export = Some (settings, spec)\<rparr>))), kept'))))"

section \<open>The entry point\<close>

text \<open>\<open>run\<close> starts the sampler first in a binary that has it; an error of its start ends the process.\<close>

definition run_from_main ::
  "bool \<Rightarrow> sink_env \<Rightarrow> ('w, 'v) environment \<Rightarrow> args \<Rightarrow> sink \<Rightarrow> (string + ('w, 'v) boot) \<times> sink" where
  "run_from_main profiling senv en a sk =
     (if profiling
      then (case start_if_env senv sk of
          (Inl e, sk') \<Rightarrow> (Inl e, sk') | (Inr b, sk') \<Rightarrow> (startup_run en a, sk'))
      else (startup_run en a, sk))"

text \<open>The result of the process; \<open>stopped\<close> is what \<open>run\<close> returns once the server has come up and been told to
  stop, \<open>flushed\<close> the outcome of shutting the exporter down, which is only logged.\<close>

definition konfig_main ::
  "string + 'f tracing \<Rightarrow> string + ('w, 'v) boot \<Rightarrow> string + unit \<Rightarrow> string + unit \<Rightarrow> string + unit" where
  "konfig_main traced booted stopped flushed =
     rbind traced (\<lambda>t.
     let result = rbind booted (\<lambda>b. stopped) in
     case t of
       Layers l \<Rightarrow> (case ll_export l of Some x \<Rightarrow> (case flushed of Inl e \<Rightarrow> result | Inr u \<Rightarrow> result) | None \<Rightarrow> result)
     | Console \<Rightarrow> result)"

section \<open>Trace context\<close>

type_synonym map_carrier = "(string, string) hmap"

record 'c propagator =
  pg_valid :: "'c \<Rightarrow> bool"
  pg_inject :: "'c \<Rightarrow> map_carrier \<Rightarrow> map_carrier"
  pg_extract :: "map_carrier \<Rightarrow> 'c"

definition current_traceparent :: "'c propagator \<Rightarrow> 'c \<Rightarrow> string option" where
  "current_traceparent p cx = (if \<not> pg_valid p cx then None else hm_get (pg_inject p cx []) ''traceparent'')"

definition span_context_from_traceparent :: "'c propagator \<Rightarrow> string \<Rightarrow> 'c option" where
  "span_context_from_traceparent p traceparent =
     (let sc = pg_extract p (hm_insert ''traceparent'' traceparent []) in if pg_valid p sc then Some sc else None)"

section \<open>The operations endpoint\<close>

record ops_response =
  or_status :: nat
  or_headers :: "(string \<times> string) list"
  or_body :: string

text \<open>\<open>encoded\<close> is the outcome of encoding the gathered metrics, as bytes.\<close>

definition metrics_handler :: "string + string \<Rightarrow> ops_response" where
  "metrics_handler encoded = (case encoded of
       Inl e \<Rightarrow> \<lparr>or_status = 500, or_headers = [], or_body = ''metrics encode failed: '' @ e\<rparr>
     | Inr buf \<Rightarrow>
         if utf8_valid buf then \<lparr>or_status = 200, or_headers = [], or_body = buf\<rparr>
         else \<lparr>or_status = 500, or_headers = [], or_body = ''metrics output not UTF-8''\<rparr>)"

definition heap_profile_handler :: "bool \<Rightarrow> string + string \<Rightarrow> ops_response" where
  "heap_profile_handler profiling snapshot =
     (if profiling
      then (case snapshot of
          Inl e \<Rightarrow> \<lparr>or_status = 500, or_headers = [], or_body = ''heap-profile encode failed: '' @ e\<rparr>
        | Inr buf \<Rightarrow> \<lparr>or_status = 200,
            or_headers = [(''content-type'', ''application/octet-stream''),
              (''content-disposition'', ''attachment; filename='' @ [CHR 0x22] @ ''heap-profile.pprof.gz'' @ [CHR 0x22])],
            or_body = buf\<rparr>)
      else \<lparr>or_status = 404, or_headers = [],
        or_body = ''heap profiling not compiled in; rebuild with Bazel target //rust/konfig:konfig_bin_heapprof to enable''\<rparr>)"

text \<open>The two routes, by path; any other path is not found.\<close>

definition serve_metrics :: "bool \<Rightarrow> string + string \<Rightarrow> string + string \<Rightarrow> string \<Rightarrow> ops_response" where
  "serve_metrics profiling encoded snapshot path =
     (if path = ''/metrics'' then metrics_handler encoded
      else if path = ''/debug/heap-profile.pprof'' then heap_profile_handler profiling snapshot
      else \<lparr>or_status = 404, or_headers = [], or_body = []\<rparr>)"

section \<open>Lemmas\<close>

text \<open>Spans are exported exactly when an endpoint is set, the SDK is not disabled and the console has not
  taken over; and then the filter of the export is its own, whatever the log layer does.\<close>

lemma export_iff:
  assumes "init_tracing console parse_f64 one exporter parse_filter env kept = (Inr t, kept')"
  shows "(\<exists>l x. t = Layers l \<and> ll_export l = Some x) \<longleftrightarrow>
    \<not> (console \<and> env ''RUST_CONSOLE'' = Some ''1'') \<and> \<not> sdk_disabled (env ''OTEL_SDK_DISABLED'') \<and>
    (\<exists>e. env ''OTEL_EXPORTER_OTLP_ENDPOINT'' = Some e \<and> trim e \<noteq> [])"
proof (cases "console \<and> env ''RUST_CONSOLE'' = Some ''1''")
  case True
  with assms show ?thesis by (auto simp: init_tracing_def)
next
  case False
  note init_tracing_def [simp] rbind_def [simp] Let_def [simp]
  have b: "build_tracer_provider parse_f64 one env \<noteq> None \<longleftrightarrow> \<not> sdk_disabled (env ''OTEL_SDK_DISABLED'') \<and>
      (\<exists>e. env ''OTEL_EXPORTER_OTLP_ENDPOINT'' = Some e \<and> trim e \<noteq> [])"
    by (auto simp: build_tracer_provider_def endpoint_from_env_def split: option.splits)
  have "(\<exists>l x. t = Layers l \<and> ll_export l = Some x) \<longleftrightarrow> build_tracer_provider parse_f64 one env \<noteq> None"
    using assms False by (auto split: if_splits option.splits sum.splits)
  with b False show ?thesis by simp
qed

text \<open>A second initialisation of asynchronous logging is refused.\<close>

lemma init_tracing_once:
  assumes "init_tracing console parse_f64 one exporter parse_filter env kept = (Inr (Layers l), kept')" "\<not> ll_sync l"
  shows "kept' \<and> \<not> kept \<and> (\<exists>e. init_tracing console parse_f64 one exporter parse_filter env kept' = (Inl e, kept'))"
  using assms by (auto simp: init_tracing_def Let_def rbind_def split: if_splits option.splits sum.splits)

text \<open>The outcome of flushing spans never decides how the process ends.\<close>

lemma main_result:
  "konfig_main traced booted stopped flushed = rbind traced (\<lambda>_. rbind booted (\<lambda>_. stopped))"
  by (auto simp: konfig_main_def Let_def rbind_def split: sum.splits tracing.splits option.splits)

text \<open>A propagator that reads back what it writes carries a valid context through the annotation.\<close>

lemma traceparent_round_trip:
  assumes "\<And>cx. pg_valid p cx \<Longrightarrow> \<exists>s. hm_get (pg_inject p cx []) ''traceparent'' = Some s \<and>
      pg_extract p (hm_insert ''traceparent'' s []) = cx"
    and "pg_valid p cx"
  shows "Option.bind (current_traceparent p cx) (span_context_from_traceparent p) = Some cx"
  using assms by (force simp: current_traceparent_def span_context_from_traceparent_def)

end
