(* ===== verification/Spec2Isabelle.thy ===== *)
theory Spec2Isabelle
  imports Client_Sdk Operator_Cli Loadtest Process_Entry
begin

text \<open>
  Konfig is a configuration service for Kubernetes. Its server (\<open>src/rust/konfig\<close>) watches \<open>Config\<close>
  objects, Secrets and ConfigMaps, keeps them in caches that readers use without locks, and answers
  gRPC calls and an HTTP gateway: reads from the caches, writes through the Kubernetes API under a
  strictly increasing schema version, and subscriptions that replay, then follow, the changes of a
  namespace. A client library (\<open>src/rust/konfig-consumer\<close>) keeps handles up to date over a
  subscription. Around them stand the operator's command line and the tools of continuous integration
  (\<open>src/tools\<close>). Paths below are relative to \<open>src/rust/konfig\<close> unless they start with \<open>src/\<close>.

  \<^bold>\<open>How the parts interact.\<close> A watcher turns the events of one watch connection into writes to a cache
  and reconnects with backoff. Three more watchers mirror the policy objects (access rules, quotas,
  schemas) into published tables. A call enters through the service or the gateway, passes drain,
  authorization and quota guards, runs its handler and leaves an audit record. A namespace watcher
  fans events out over sharded broadcasts and keeps a bounded replay buffer; the task of a subscriber
  resumes from that buffer or sends a snapshot, then bridges the broadcast into a bounded channel. The
  client library applies what arrives to its handles and resumes from the newest version it has seen.

  \<^bold>\<open>Theories, in the order of their imports.\<close>

  \<^item> \<open>Konfig_Prelude\<close>: machine integers, UTF-8 strings as bytes, \<open>HashMap\<close> and \<open>BTreeMap\<close> as association
    lists behind the locale \<open>keyed_store\<close>, statuses, results, and machines that fold a step over
    actions (locale \<open>traced_machine\<close>). \<open>Konfig_Types\<close>: JSON values, Kubernetes
    objects and events, the snapshots of \<open>types.rs\<close> and the protobuf messages made of them.
    \<open>Float64\<close>, \<open>Ieee64\<close>: binary64 rounding, parsing, arithmetic and order.
  \<^item> \<open>Cow_Cache\<close> (\<open>cow_cache.rs\<close>, \<open>cache_key.rs\<close>, \<open>cache.rs\<close>, \<open>secret_cache.rs\<close>): the copy-on-write cache.
    A batch is the same as its writes one by one; under every interleaving of locked writers and
    lock-free readers each reader sees the result of a prefix of the log of atomic writes.
  \<^item> \<open>Watchers\<close> (\<open>watcher.rs\<close>, \<open>secret_watcher.rs\<close>, \<open>configmap_watcher.rs\<close>, \<open>value_parse.rs\<close>): backoff,
    reconnection, and the relist machine as the locale \<open>relist_machine\<close>. Lookups return what the newest
    event decided; no error makes a key disappear; batching a relist is unobservable.
  \<^item> \<open>Object_Mirror\<close> with \<open>Acl_Authz\<close> (\<open>acl.rs\<close>, \<open>grpc/authz.rs\<close>, \<open>grpc/identity.rs\<close>), \<open>Quota\<close> (\<open>quota.rs\<close>)
    and \<open>Schema_Registry\<close> (\<open>schema.rs\<close>): policy tables. The locale \<open>mirror_handler\<close> states what an event
    handler promises and is interpreted on all three. Decisions are exact; subscriber slots are
    counted exactly under every interleaving of admissions and releases; a token bucket admits an
    exact burst in spite of rounding.
  \<^item> \<open>Tenant_Cache\<close> (\<open>tenant_cache.rs\<close>): byte accounting with least-recently-served eviction.
  \<^item> \<open>Apply_Path\<close> (\<open>grpc/apply.rs\<close>, \<open>grpc/revert.rs\<close>, \<open>grpc/secret_apply.rs\<close>, \<open>import.rs\<close>): the write path
    over a Kubernetes API that is a parameter with the laws \<open>kube_laws\<close>. A successful write strictly
    raises the version, a batch is gated as a whole, a dry run predicts, retries are bounded.
  \<^item> \<open>Subscribe_Filter\<close> (\<open>grpc/subscribe/filter.rs\<close>): the label selector parser and its round trip.
    \<open>Bounded_Channel\<close>, \<open>Subscribe_Replay\<close> (\<open>grpc/subscribe/replay.rs\<close>, \<open>broadcast.rs\<close>): replay, snapshot and
    live bridge. What a sender adds to a channel is a prefix of what it owes (locale \<open>stream_sender\<close>).
    \<open>Namespace_Fanout\<close> (\<open>grpc/subscribe/watch.rs\<close>): shards, pumps, registry, sweep.
    \<open>Secret_Subscribe\<close> (\<open>grpc/subscribe_secrets.rs\<close>): the streams of secrets.
  \<^item> \<open>Service\<close> (\<open>grpc/service.rs\<close>, \<open>grpc/mod.rs\<close>, \<open>grpc/context.rs\<close>, \<open>grpc/audit.rs\<close>, \<open>grpc/get.rs\<close>,
    \<open>grpc/secret_get.rs\<close>, \<open>grpc/drain.rs\<close>): every call with its guards in their order.
    \<open>Http_Gateway\<close> (\<open>grpc/http_gateway.rs\<close>): transcoding, token gate, event streams.
    \<open>Startup\<close> (\<open>startup.rs\<close>, \<open>grpc/serve.rs\<close>, \<open>grpc/tls.rs\<close>, \<open>telemetry.rs\<close>): from arguments to a serving state,
    and the health endpoint as a step relation.
    \<open>Stream_Sink\<close> (\<open>stream_sink.rs\<close>), \<open>Process_Entry\<close> (\<open>main.rs\<close>, the operations endpoint of \<open>startup.rs\<close>): the
    allocation sampler, whose samples are all accounted for in every interleaving of callbacks and
    writer, and the process around the server.
  \<^item> \<open>Consumer\<close> (\<open>src/rust/konfig-consumer/src\<close>): snapshots, stream driver, handles.
    \<open>End_To_End\<close>: a write accepted by the service reaches every authorized reader and every subscribed
    client. \<open>Client_Sdk\<close>: the client's calls, and the life of the task its handles share.
    \<open>Operator_Cli\<close> (\<open>src/tools/konfig-cli\<close>): the eight commands.
    \<open>Flamebearer\<close>, \<open>Perf_Gates\<close> (\<open>src/tools/konfig-flamediff\<close>, \<open>src/tools/konfig-loadtest\<close>): profile decoding
    and pprof encoding, read back by an independent protobuf reader; the two regression gates and the
    percentiles they rest on. \<open>Loadtest\<close> (\<open>src/tools/konfig-loadtest/src\<close>): the six load scenarios as one
    machine of driver and subscriber steps; verdicts are exact in every interleaving, and against a
    server with bounded contention every write of the tester is accepted.
  \<^item> This theory: what holds of server and client together.

  \<^bold>\<open>Conventions.\<close> A record is a struct, a datatype an enum; integers that can wrap are words or integers
  with the wrap written out; strings are UTF-8 bytes; a fallible function returns a sum with the error
  on the left, a panic is \<open>None\<close>. A task that runs concurrently is a list of atomic steps, or a function
  of what it observes of the others. Libraries are parameters: \<open>serde\<close> (record \<open>codecs\<close>), the Kubernetes
  API (record \<open>kube\<close>), \<open>jsonschema\<close>, the kube label matcher, the clock and randomness.

  \<^bold>\<open>Bounds.\<close> All definitions are total. Reconnect loops run over a given list of connections, since the
  code never ends them; the retry loop of a patch counts its attempts, at most three; the varint
  encoder and the readers recurse on decreasing measures, proved where they are defined. Sums of
  ticks and percentile indices are exact below \<open>2\<^sup>6\<^sup>3\<close> and \<open>2\<^sup>4\<^sup>5\<close>, and the 32-bit counters of the load tester
  and the drop counter of the sampler below their widths, which the statements say.

  \<^bold>\<open>Not modelled.\<close> Log lines, spans and metric registration (\<open>metrics.rs\<close>, the exporter of
  \<open>telemetry.rs\<close>), which no decision reads; \<open>lib.rs\<close> and the build scripts, which only name and generate
  the rest; the Pyroscope agent, signal handlers and listeners of \<open>main.rs\<close> and \<open>startup.rs\<close>; the
  allocator's smoke test; argument parsing (clap), TLS handshakes, HTTP/2 and axum's routing, which are
  libraries; code under \<open>cfg(test)\<close>.
\<close>

section \<open>Server and client together\<close>

text \<open>The newest change of a name among the events a filter lets through.\<close>

definition latest ::
  "matcher \<Rightarrow> subscribe_filter \<Rightarrow> json_parser \<Rightarrow> string \<Rightarrow> json \<times> u32 \<times> string \<Rightarrow> replay_entry list \<Rightarrow>
   json \<times> u32 \<times> string" where
  "latest matches f parse nm dflt es =
     last (dflt # List.map_filter (change parse nm) (allowed matches f (map replay_item es)))"

lemma allowed_append: "allowed matches f (xs @ ys) = allowed matches f xs @ allowed matches f ys"
  by (simp add: allowed_def)

text \<open>Replaying an overlap changes nothing in the end.\<close>

lemma overlap_last:
  assumes g: "\<And>xs ys. g (xs @ ys) = g xs @ g ys" and "p < b" "a \<le> b" "b \<le> length h"
  shows "last (last (v # g (take (p + 1) h)) # g (drop (p + 1) (take b h)) @ g (drop a h)) = last (v # g h)"
proof (cases "g (drop a h) = []")
  case False
  then show ?thesis
    using g [of "take a h" "drop a h"] by simp
next
  case True
  have "take (p + 1) (take b h) = take (p + 1) h"
    using assms(2) by (simp add: min_def)
  then have "g (take b h) = g (take (p + 1) h) @ g (drop (p + 1) (take b h))"
    by (metis g append_take_drop_id)
  moreover have "g h = g (take b h) @ g (drop b h)"
    using g [of "take b h" "drop b h"] by simp
  moreover have "drop (b - a) (drop a h) = drop b h"
    using assms(3) by simp
  then have "g (drop b h) = []"
    by (metis True append_is_Nil_conv append_take_drop_id g)
  ultimately show ?thesis
    using True by (simp add: last_append)
qed

text \<open>Property C4. A client that reconnects converges: if its handle shows the newest change among the
  events of the namespace up to the one whose version it resumes from, that version is still in the
  replay buffer, and the resumed stream goes on, then after reading it the handle shows the newest
  change among all events, although the stream may repeat some of them.\<close>

theorem resumed_client_converges:
  assumes "list_all genuine hist" "increasing re_resource_version_u64 hist"
    and "p < b" "b \<le> p + REPLAY_BUFFER_SIZE" "a \<le> b" "b \<le> length hist"
    and "live_items rs = map replay_item (drop a hist)"
    and "dv_resume_rv d = re_resource_version (hist ! p)"
    and "resume_from_buffer cd matches now (dv_resume_rv d)
      (push_all (map push_args (take b hist)) []) cache buf' ns f rs (channel_new reader) = (Continue, ch')"
    and "handle_get_snapshot nm d = Some s" "shown s = latest matches f parse nm dflt (take (p + 1) hist)"
    and "map snd evs = payloads ch'"
  shows "\<exists>s'. handle_get_snapshot nm (driver_round parse d (Opened evs e t)) = Some s' \<and>
    shown s' = latest matches f parse nm dflt hist"
proof -
  let ?g = "\<lambda>es. List.map_filter (change parse nm) (allowed matches f (map replay_item es))"
  have "map snd evs = allowed matches f (map replay_item (drop (p + 1) (take b hist))) @
      allowed matches f (map replay_item (drop a hist))"
    using resume_hit_payloads [OF assms(1-7) assms(9) [unfolded assms(8)]] assms(12) by simp
  then have m: "List.map_filter (change parse nm) (map snd evs) = ?g (drop (p + 1) (take b hist)) @ ?g (drop a hist)"
    by (simp add: map_filter_append)
  have "hm_get (dv_stores d) nm = Some s"
    using assms(10) by (simp add: handle_get_snapshot_def)
  from round_shown [OF this, of parse evs e t] obtain s' where
    s': "handle_get_snapshot nm (driver_round parse d (Opened evs e t)) = Some s'"
      "shown s' = last (last (dflt # ?g (take (p + 1) hist)) # ?g (drop (p + 1) (take b hist)) @ ?g (drop a hist))"
    unfolding m assms(11) latest_def by blast
  moreover have "last (last (dflt # ?g (take (p + 1) hist)) # ?g (drop (p + 1) (take b hist)) @ ?g (drop a hist)) =
      last (dflt # ?g hist)"
    by (rule overlap_last [OF _ assms(3,5,6)]) (simp add: allowed_append map_filter_append)
  ultimately show ?thesis
    by (auto simp: latest_def)
qed

definition demo_driver :: driver where
  "demo_driver = (driver_new [(''9'', consumer_default 0)])\<lparr>dv_resume_rv := re_resource_version (demo_hist ! 0)\<rparr>"

theorem resumed_client_converges_witness:
  "\<exists>s'. handle_get_snapshot ''9'' (driver_round (\<lambda>_. Inr JNull) demo_driver
      (Opened [(1, re_event (demo_entry 7)), (2, re_event (demo_entry 9))] Clean 3)) = Some s' \<and>
    shown s' = (JNull, 1, ''7'')"
proof -
  have names: "change (\<lambda>_. Inr JNull) ''9'' (re_event (demo_entry v)) =
      (if show_nat (unat v) = ''9'' then Some (JNull, 1, ''7'') else None)" for v
    by (simp add: change_def demo_entry_def demo_filter_event_def snapshot_from_proto_def rbind_def shown_def)
  have nat: "show_nat 4 = ''4''" "show_nat 7 = ''7''" "show_nat 9 = ''9''"
    by code_simp+
  have all: "allowed demo_matcher demo_any (map replay_item (map demo_entry vs)) = map (\<lambda>v. re_event (demo_entry v)) vs" for vs
    by (induction vs) (simp_all add: allowed_def replay_item_def demo_any_allows)
  have one: "latest demo_matcher demo_any (\<lambda>_. Inr JNull) ''9'' dflt (take (0 + 1) demo_hist) = dflt" for dflt
    using all [of "[4]"] by (simp add: latest_def demo_hist_def names nat List.map_filter_def)
  have final: "latest demo_matcher demo_any (\<lambda>_. Inr JNull) ''9'' dflt demo_hist = (JNull, 1, ''7'')" for dflt
    using all [of "[4, 7, 9]"] by (simp add: latest_def demo_hist_def names nat List.map_filter_def)
  have live: "live_items demo_live = map replay_item (drop 2 demo_hist)"
    by (simp add: demo_live_def demo_hist_def replay_item_def demo_entry_def)
  have rv: "dv_resume_rv demo_driver = re_resource_version (demo_hist ! 0)"
    by (simp add: demo_driver_def)
  have len: "length demo_hist = 3" by (simp add: demo_hist_def)
  have got: "handle_get_snapshot ''9'' demo_driver = Some (consumer_default 0)"
    by (simp add: handle_get_snapshot_def demo_driver_def driver_new_def hm_get_Cons)
  have pay: "payloads demo_channel = [re_event (demo_entry 7), re_event (demo_entry 9)]"
    by (simp add: demo_channel_def payloads_def channel_new_def)
  show ?thesis
    using resumed_client_converges [OF demo_hist_ok _ _ _ _ live rv demo_resume [folded rv],
        where nm = "''9''" and s = "consumer_default 0" and parse = "\<lambda>_. Inr JNull"
          and dflt = "shown (consumer_default 0)" and e = Clean and t = 3
          and evs = "[(1, re_event (demo_entry 7)), (2, re_event (demo_entry 9))]"]
    by (simp add: one [simplified] final REPLAY_BUFFER_SIZE_def len got pay)
qed

end
